(* ===== verification/Prelude.thy ===== *)
theory Prelude
  imports Main "HOL-Library.Word"
begin

text \<open>
  Shared vocabulary of the development: the machine integers of the code, \<open>Result\<close>, the
  named theorem collections that the component proofs draw on, and the generic facts about
  lists, maps and results that more than one component uses.

  \<^item> \<^typ>\<open>16 word\<close>, \<^typ>\<open>32 word\<close> and \<^typ>\<open>64 word\<close> are the code's \<open>u16\<close>, \<open>u32\<close> and \<open>u64\<close>.
  \<^item> A Rust \<open>&str\<close> or \<open>String\<close> is the list of its UTF-8 bytes, an Isabelle \<^typ>\<open>string\<close>
    (an Isabelle \<^typ>\<open>char\<close> is one byte), so \<open>len()\<close> is \<^const>\<open>length\<close>, slicing at an ASCII
    delimiter is list surgery, and \<open>Bytes\<close> is the same type.
  \<^item> A reading of \<open>SystemTime::now()\<close> is the milliseconds since the Unix epoch, negative before it.
  \<^item> \<open>Result<T, E>\<close> is the datatype below; \<open>?\<close> is \<open>bind_result\<close>.
\<close>

section \<open>Types\<close>

type_synonym u16 = "16 word"
type_synonym u32 = "32 word"
type_synonym u64 = "64 word"
type_synonym bytes = string
type_synonym wall_clock = int

datatype ('a, 'e) result = Ok 'a | Err 'e

primrec bind_result :: "('a, 'e) result \<Rightarrow> ('a \<Rightarrow> ('b, 'e) result) \<Rightarrow> ('b, 'e) result" where
  "bind_result (Ok x) f = f x"
| "bind_result (Err e) f = Err e"

primrec map_err :: "('e \<Rightarrow> 'f) \<Rightarrow> ('a, 'e) result \<Rightarrow> ('a, 'f) result" where
  "map_err g (Ok x) = Ok x"
| "map_err g (Err e) = Err (g e)"

primrec result_ok :: "('a, 'e) result \<Rightarrow> 'a option" where
  "result_ok (Ok x) = Some x"
| "result_ok (Err e) = None"

primrec is_ok :: "('a, 'e) result \<Rightarrow> bool" where
  "is_ok (Ok x) = True"
| "is_ok (Err e) = False"

primrec ok_or :: "'e \<Rightarrow> 'a option \<Rightarrow> ('a, 'e) result" where
  "ok_or e None = Err e"
| "ok_or e (Some x) = Ok x"

text \<open>\<open>u32::try_from(n).unwrap_or(u32::MAX)\<close> and \<open>u64::try_from(n).unwrap_or(u64::MAX)\<close> for an
  unbounded length or duration \<open>n\<close>.\<close>

definition u32_saturating :: "nat \<Rightarrow> u32" where
  "u32_saturating n = (if n < 2 ^ 32 then of_nat n else 4294967295)"

definition u64_saturating :: "nat \<Rightarrow> u64" where
  "u64_saturating n = (if n < 2 ^ 64 then of_nat n else 18446744073709551615)"

section \<open>Named collections\<close>

named_theorems str_simps \<open>characterisations of the string primitives\<close>

section \<open>Results\<close>

lemma bind_result_Ok_iff [simp]:
  "bind_result r f = Ok y \<longleftrightarrow> (\<exists>x. r = Ok x \<and> f x = Ok y)"
  by (cases r) auto

lemma map_err_Ok_iff [simp]: "map_err f r = Ok x \<longleftrightarrow> r = Ok x"
  by (cases r) auto

lemma result_ok_Some_iff [simp]: "result_ok r = Some x \<longleftrightarrow> r = Ok x"
  by (cases r) auto

lemma is_ok_iff: "is_ok r \<longleftrightarrow> (\<exists>x. r = Ok x)"
  by (cases r) auto

lemma ok_or_Ok_iff [simp]: "ok_or e v = Ok x \<longleftrightarrow> v = Some x"
  by (cases v) auto

section \<open>Machine integers\<close>

lemma unat_u32_saturating: "unat (u32_saturating n) = min n (2 ^ 32 - 1)"
  by (auto simp: u32_saturating_def unat_of_nat)

lemma unat_u64_saturating: "unat (u64_saturating n) = min n (2 ^ 64 - 1)"
  by (auto simp: u64_saturating_def unat_of_nat)

section \<open>Lists and maps\<close>

lemma dom_fun_upd_None [simp]: "dom (m(k := None)) = dom m - {k}"
  by auto

lemma card_dom_insert_new:
  "finite (dom m) \<Longrightarrow> m k = None \<Longrightarrow> card (dom (m(k \<mapsto> v))) = Suc (card (dom m))"
  by (simp add: card_insert_if domIff)

end
