(* ===== verification/Proto.thy ===== *)
theory Proto
  imports Prelude
begin

text \<open>
  The wire protocol, \<open>proto/norupo/v1/tunnel.proto\<close>, as the generated Rust bindings present it: a
  message is a record, a \<open>oneof\<close> a datatype whose absence is None, an enumeration field an \<open>i32\<close> with a
  partial conversion to the enumeration; and the constants of \<open>norupo-proto/src/lib.rs\<close>.
\<close>

section \<open>Shared\<close>

type_synonym i32 = "32 word"

record header =
  header_name :: string
  header_value :: bytes

datatype stream_kind = StreamKindUnspecified | StreamHttp | StreamTcp

fun stream_kind_i32 :: "stream_kind \<Rightarrow> i32" where
  "stream_kind_i32 StreamKindUnspecified = 0"
| "stream_kind_i32 StreamHttp = 1"
| "stream_kind_i32 StreamTcp = 2"

datatype reset_code =
    ResetUnspecified | ResetLocalUnreachable | ResetPeerClosed | ResetProtocolError
  | ResetTimeout | ResetInternal | ResetRefused

fun reset_code_i32 :: "reset_code \<Rightarrow> i32" where
  "reset_code_i32 ResetUnspecified = 0"
| "reset_code_i32 ResetLocalUnreachable = 1"
| "reset_code_i32 ResetPeerClosed = 2"
| "reset_code_i32 ResetProtocolError = 3"
| "reset_code_i32 ResetTimeout = 4"
| "reset_code_i32 ResetInternal = 5"
| "reset_code_i32 ResetRefused = 6"

definition reset_code_try_from :: "i32 \<Rightarrow> reset_code option" where
  "reset_code_try_from n =
     (if n = 0 then Some ResetUnspecified else if n = 1 then Some ResetLocalUnreachable
      else if n = 2 then Some ResetPeerClosed else if n = 3 then Some ResetProtocolError
      else if n = 4 then Some ResetTimeout else if n = 5 then Some ResetInternal
      else if n = 6 then Some ResetRefused else None)"

lemma reset_code_try_from_i32 [simp]: "reset_code_try_from (reset_code_i32 c) = Some c"
  by (cases c) (simp_all add: reset_code_try_from_def)

record stream_data =
  sd_stream_id :: u64
  sd_payload :: bytes

record stream_end =
  se_stream_id :: u64
  se_trailers :: "header list"

record stream_reset =
  sr_stream_id :: u64
  sr_code :: i32
  sr_message :: string

record window_update =
  wu_stream_id :: u64
  wu_increment :: u32

record http_response_head =
  rh_stream_id :: u64
  rh_status :: u32
  rh_headers :: "header list"

section \<open>Client to server\<close>

record hello =
  hello_token :: string
  hello_agent_version :: string
  hello_protocol_version :: u32
  hello_metadata :: "string \<rightharpoonup> string"

record http_tunnel_spec =
  hs_subdomain :: string
  hs_custom_domain :: string
  hs_forward_to :: string
  hs_rewrite_host_header :: bool

record tcp_tunnel_spec =
  ts_remote_port :: u32
  ts_forward_to :: string

datatype tunnel_spec = HttpSpec http_tunnel_spec | TcpSpec tcp_tunnel_spec

record open_tunnel =
  ot_request_id :: string
  ot_spec :: "tunnel_spec option"

record pong =
  pong_nonce :: u64
  pong_client_time_ms :: int

datatype client_payload =
    CHello hello
  | COpenTunnel open_tunnel
  | CCloseTunnel string
  | CResponseHead http_response_head
  | CData stream_data
  | CEnd stream_end
  | CReset stream_reset
  | CWindowUpdate window_update
  | CPong pong

type_synonym client_frame = "client_payload option"

section \<open>Server to client\<close>

record proto_limits =
  pl_max_tunnels :: u32
  pl_max_concurrent_streams :: u32
  pl_max_bytes_per_second :: u64

record welcome_message =
  w_session_id :: string
  w_server_version :: string
  w_node_id :: string
  w_heartbeat_interval_ms :: u32
  w_initial_window :: u32
  w_limits :: "proto_limits option"

record tunnel_status =
  st_request_id :: string
  st_tunnel_id :: string
  st_accepted :: bool
  st_error :: string
  st_public_url :: string
  st_routing_key :: string

record http_request_head =
  rq_method :: string
  rq_path :: string
  rq_authority :: string
  rq_headers :: "header list"
  rq_version :: string
  rq_upgrade :: string

record stream_open =
  so_stream_id :: u64
  so_tunnel_id :: string
  so_kind :: i32
  so_http :: "http_request_head option"
  so_remote_addr :: string
  so_initial_window :: u32

record ping =
  ping_nonce :: u64
  ping_server_time_ms :: int

record shutdown_notice =
  sn_reason :: string
  sn_drain_ms :: u32
  sn_reconnect_to :: string

datatype server_payload =
    SWelcome welcome_message
  | STunnelStatus tunnel_status
  | SOpen stream_open
  | SResponseHead http_response_head
  | SData stream_data
  | SEnd stream_end
  | SReset stream_reset
  | SWindowUpdate window_update
  | SPing ping
  | SShutdown shutdown_notice

type_synonym server_frame = "server_payload option"

record health_response =
  hr_ok :: bool
  hr_node_id :: string
  hr_server_version :: string
  hr_active_sessions :: u64
  hr_active_tunnels :: u64

section \<open>RPC status\<close>

text \<open>The status an RPC ends with, as far as the code tells the codes apart.\<close>

datatype status_code = FailedPrecondition | Unauthenticated | PermissionDenied | Unavailable | OtherCode nat

record status =
  status_code :: status_code
  status_message :: string

section \<open>Constants\<close>

definition PROTOCOL_VERSION :: u32 where
  "PROTOCOL_VERSION = 1"

definition DEFAULT_WINDOW :: u32 where
  "DEFAULT_WINDOW = 256 * 1024"

end
