(* ===== verification/Async.thy ===== *)
theory Async
  imports Prelude
begin

text \<open>
  Asynchronous code. An \<open>async fn\<close> over a shared state \<open>'s\<close> is a tree of atomic steps: a step reads
  and changes the shared state and says how the function goes on, or is not ready, which is an
  \<open>.await\<close> that has to wait. Between two steps any other task may run, so the tree is as fine as the
  code's accesses to shared objects. \<open>tokio::spawn\<close> hands a subtree to the scheduler.

  \<open>run\<close> drives one task on its own until it returns, parks or panics; \<open>pool_step\<close> is the
  interleaving semantics of many tasks. \<open>keeps I t\<close> says that every step of \<open>t\<close>, from any state with
  \<open>I\<close>, leads to a state with \<open>I\<close>: such tasks keep \<open>I\<close> in every interleaving.
\<close>

section \<open>Tasks\<close>

datatype (dead 's, 'a) task =
    Return 'a
  | Halt
  | Panic string
  | Step "'s \<Rightarrow> ('s \<times> ('s, 'a) task) option"
  | Spawn "('s, 'a) task" "('s, 'a) task"

text \<open>Sequencing: \<open>call m k\<close> is \<open>let x = m.await; k(x)\<close>.\<close>

primrec call :: "('s, 'a) task \<Rightarrow> ('a \<Rightarrow> ('s, 'b) task) \<Rightarrow> ('s, 'b) task" where
  "call (Return a) k = k a"
| "call Halt k = Halt"
| "call (Panic e) k = Panic e"
| "call (Step f) k = Step (\<lambda>s. map_option (map_prod id (\<lambda>t. call t k)) (f s))"
| "call (Spawn c t) k = Spawn (call c k) (call t k)"

text \<open>An atomic access to the shared state, and one that may have to wait.\<close>

definition atomically :: "('s \<Rightarrow> 's \<times> 'a) \<Rightarrow> ('s, 'a) task" where
  "atomically f = Step (\<lambda>s. let (s', a) = f s in Some (s', Return a))"

definition await :: "('s \<Rightarrow> ('s \<times> 'a) option) \<Rightarrow> ('s, 'a) task" where
  "await f = Step (\<lambda>s. map_option (map_prod id Return) (f s))"

definition update :: "('s \<Rightarrow> 's) \<Rightarrow> ('s, unit) task" where
  "update f = atomically (\<lambda>s. (f s, ()))"

definition read :: "('s \<Rightarrow> 'a) \<Rightarrow> ('s, 'a) task" where
  "read f = atomically (\<lambda>s. (s, f s))"

text \<open>An access whose code can panic: None is the panic.\<close>

definition access :: "string \<Rightarrow> ('s \<Rightarrow> ('s \<times> 'a) option) \<Rightarrow> ('s, 'a) task" where
  "access e f = Step (\<lambda>s. case f s of Some (s', a) \<Rightarrow> Some (s', Return a) | None \<Rightarrow> Some (s, Panic e))"

text \<open>\<open>for x in xs { body(x).await }\<close>.\<close>

primrec for_each :: "('x \<Rightarrow> ('s, unit) task) \<Rightarrow> 'x list \<Rightarrow> ('s, unit) task" where
  "for_each body [] = Return ()"
| "for_each body (x # xs) = call (body x) (\<lambda>_. for_each body xs)"

text \<open>\<open>tokio::spawn\<close>: the child runs on its own and its result is dropped.\<close>

definition spawn :: "('s, unit) task \<Rightarrow> ('s, 'a) task \<Rightarrow> ('s, 'a) task" where
  "spawn c t = Spawn (call c (\<lambda>_. Halt)) t"

text \<open>A task on a part of the state: one object of a heap, one field of a record.\<close>

primrec zoom :: "('w \<Rightarrow> 's) \<Rightarrow> ('s \<Rightarrow> 'w \<Rightarrow> 'w) \<Rightarrow> ('s, 'a) task \<Rightarrow> ('w, 'a) task" where
  "zoom get put (Return a) = Return a"
| "zoom get put Halt = Halt"
| "zoom get put (Panic e) = Panic e"
| "zoom get put (Step f) = Step (\<lambda>w. map_option (map_prod (\<lambda>s. put s w) (zoom get put)) (f (get w)))"
| "zoom get put (Spawn c t) = Spawn (zoom get put c) (zoom get put t)"

text \<open>An await inside a task that somebody else may abort: once the abort has been asked for, the task ends
  there.\<close>

primrec cancellable :: "('s \<Rightarrow> bool) \<Rightarrow> ('s, 'a) task \<Rightarrow> ('s, 'a) task" where
  "cancellable c (Return a) = Return a"
| "cancellable c Halt = Halt"
| "cancellable c (Panic e) = Panic e"
| "cancellable c (Step f) =
     Step (\<lambda>s. if c s then Some (s, Halt) else map_option (map_prod id (cancellable c)) (f s))"
| "cancellable c (Spawn t u) = Spawn (cancellable c t) (cancellable c u)"

section \<open>A task on its own\<close>

datatype (dead 's, 'a) outcome =
    Finished 's 'a
  | Blocked 's "('s, 'a) task"
  | Panicked 's string
  | Halted 's

primrec run :: "('s, 'a) task \<Rightarrow> 's \<Rightarrow> ('s, 'a) outcome" where
  "run (Return a) s = Finished s a"
| "run Halt s = Halted s"
| "run (Panic e) s = Panicked s e"
| "run (Step f) s = (case map_option (map_prod id run) (f s) of None \<Rightarrow> Blocked s (Step f) | Some (s', g) \<Rightarrow> g s')"
| "run (Spawn c t) s = run t s"

lemma task_induct [case_names Return Halt Panic Step Spawn]:
  assumes "\<And>a. P (Return a)" "P Halt" "\<And>e. P (Panic e)"
    "\<And>f. (\<And>s s' t. f s = Some (s', t) \<Longrightarrow> P t) \<Longrightarrow> P (Step f)"
    "\<And>c t. P c \<Longrightarrow> P t \<Longrightarrow> P (Spawn c t)"
  shows "P m"
proof (induction m)
  case (Step f)
  show ?case
  proof (rule assms(4))
    fix s s' t
    assume "f s = Some (s', t)"
    then have "Some (s', t) \<in> range f" by (metis rangeI)
    then show "P t" using Step.IH by fastforce
  qed
qed (use assms in auto)

lemma call_Return [simp]: "call m Return = m"
proof (induction m rule: task_induct)
  case (Step f)
  have "map_option (map_prod id (\<lambda>t. call t Return)) (f s) = f s" for s
    using Step by (cases "f s") auto
  then show ?case by simp
qed auto

lemma run_call:
  "run (call m k) s =
     (case run m s of
        Finished s' a \<Rightarrow> run (k a) s'
      | Blocked s' t \<Rightarrow> Blocked s' (call t k)
      | Panicked s' e \<Rightarrow> Panicked s' e
      | Halted s' \<Rightarrow> Halted s')"
proof (induction m arbitrary: s rule: task_induct)
  case (Step f)
  then show ?case by (cases "f s") auto
qed auto

lemma run_atomically [simp]: "run (atomically f) s = (case f s of (s', a) \<Rightarrow> Finished s' a)"
  by (simp add: atomically_def split: prod.split)

lemma run_update [simp]: "run (update f) s = Finished (f s) ()"
  by (simp add: update_def)

lemma run_read [simp]: "run (read f) s = Finished s (f s)"
  by (simp add: read_def)

lemma run_await [simp]:
  "run (await f) s = (case f s of Some (s', a) \<Rightarrow> Finished s' a | None \<Rightarrow> Blocked s (await f))"
  by (simp add: await_def split: option.split)

lemma run_access [simp]:
  "run (access e f) s = (case f s of Some (s', a) \<Rightarrow> Finished s' a | None \<Rightarrow> Panicked s e)"
  by (simp add: access_def split: option.split)

lemma run_spawn [simp]: "run (spawn c t) s = run t s"
  by (simp add: spawn_def)

lemma run_cancellable_await [simp]:
  "run (cancellable c (await f)) s =
     (if c s then Halted s
      else case f s of Some (s', a) \<Rightarrow> Finished s' a | None \<Rightarrow> Blocked s (cancellable c (await f)))"
  by (simp add: await_def split: option.split)

lemma run_cancellable_atomically [simp]:
  "run (cancellable c (atomically f)) s = (if c s then Halted s else case f s of (s', a) \<Rightarrow> Finished s' a)"
  by (simp add: atomically_def split: prod.split)

text \<open>\<open>ok\<close> says that the part exists.\<close>

lemma run_zoom:
  assumes "\<And>s w. ok w \<Longrightarrow> ok (put s w)" "\<And>s w. ok w \<Longrightarrow> get (put s w) = s"
    "\<And>s s' w. put s (put s' w) = put s w" "\<And>w. put (get w) w = w" "ok w"
  shows "run (zoom get put m) w =
     (case run m (get w) of
        Finished s a \<Rightarrow> Finished (put s w) a
      | Blocked s t \<Rightarrow> Blocked (put s w) (zoom get put t)
      | Panicked s e \<Rightarrow> Panicked (put s w) e
      | Halted s \<Rightarrow> Halted (put s w))"
  using assms(5)
proof (induction m arbitrary: w rule: task_induct)
  case (Step f)
  show ?case
  proof (cases "f (get w)")
    case None
    then show ?thesis by (simp add: assms(4))
  next
    case (Some p)
    obtain s' t where p: "p = (s', t)" by force
    from Step.IH [OF Some [unfolded p], of "put s' w"] Some p Step.prems show ?thesis
      by (simp add: assms(1-3) split: outcome.split)
  qed
qed (auto simp: assms(4) split: outcome.split)

lemma zoom_await: "zoom get put (await f) = await (\<lambda>w. map_option (map_prod (\<lambda>s. put s w) id) (f (get w)))"
  unfolding await_def zoom.simps
proof (rule arg_cong [of _ _ Step], rule ext, goal_cases)
  case (1 w)
  show ?case by (cases "f (get w)") auto
qed

section \<open>Many tasks\<close>

inductive pool_step :: "'s \<times> ('s, 'a) task list \<Rightarrow> 's \<times> ('s, 'a) task list \<Rightarrow> bool" where
  go: "\<lbrakk>i < length ts; ts ! i = Step f; f s = Some (s', t)\<rbrakk> \<Longrightarrow> pool_step (s, ts) (s', ts[i := t])"
| fork: "\<lbrakk>i < length ts; ts ! i = Spawn c t\<rbrakk> \<Longrightarrow> pool_step (s, ts) (s, ts[i := t] @ [c])"

text \<open>One step of a task: the new state, the rest of the task and the tasks it spawned. A schedule names
  the task that takes each step; None when that task cannot take one.\<close>

definition task_step :: "('s, 'a) task \<Rightarrow> 's \<Rightarrow> ('s \<times> ('s, 'a) task \<times> ('s, 'a) task list) option" where
  "task_step t s = (case t of
     Step f \<Rightarrow> map_option (\<lambda>(s', t'). (s', t', [])) (f s)
   | Spawn c t' \<Rightarrow> Some (s, t', [c])
   | _ \<Rightarrow> None)"

fun schedule :: "nat list \<Rightarrow> 's \<Rightarrow> ('s, 'a) task list \<Rightarrow> ('s \<times> ('s, 'a) task list) option" where
  "schedule [] s ts = Some (s, ts)"
| "schedule (i # is) s ts =
     (if i < length ts then
        (case task_step (ts ! i) s of
           Some (s', t, spawned) \<Rightarrow> schedule is s' (ts[i := t] @ spawned)
         | None \<Rightarrow> None)
      else None)"

lemma task_step_pool:
  "i < length ts \<Longrightarrow> task_step (ts ! i) s = Some (s', t, spawned) \<Longrightarrow> pool_step (s, ts) (s', ts[i := t] @ spawned)"
  by (cases "ts ! i") (auto simp: task_step_def intro: pool_step.intros split: option.splits)

lemma schedule_pool: "schedule is s ts = Some (s', ts') \<Longrightarrow> pool_step\<^sup>*\<^sup>* (s, ts) (s', ts')"
proof (induction "is" s ts rule: schedule.induct)
  case (2 i "is" s ts)
  then obtain s1 t spawned where i: "i < length ts" and step: "task_step (ts ! i) s = Some (s1, t, spawned)"
    "schedule is s1 (ts[i := t] @ spawned) = Some (s', ts')"
    by (auto split: if_splits option.splits)
  then have "pool_step\<^sup>*\<^sup>* (s1, ts[i := t] @ spawned) (s', ts')" using 2 by blast
  with task_step_pool [OF i step(1)] show ?case by (rule converse_rtranclp_into_rtranclp)
qed simp

lemma task_step_simps [simp]:
  "task_step (Return a) s = None" "task_step Halt s = None" "task_step (Panic e) s = None"
  "task_step (Spawn c t) s = Some (s, t, [c])"
  "task_step (atomically f) s = Some (fst (f s), Return (snd (f s)), [])"
  "task_step (update g) s = Some (g s, Return (), [])"
  "task_step (await h) s = map_option (\<lambda>(s', a). (s', Return a, [])) (h s)"
  "task_step (call (atomically f) k1) s = Some (fst (f s), k1 (snd (f s)), [])"
  "task_step (call (read r) k2) s = Some (s, k2 (r s), [])"
  "task_step (call (update g) k3) s = Some (g s, k3 (), [])"
  "task_step (call (await h) k4) s = map_option (\<lambda>(s', a). (s', k4 a, [])) (h s)"
  by (simp_all add: task_step_def atomically_def update_def read_def await_def case_prod_unfold Let_def
      option.map_comp comp_def)

text \<open>Running a schedule and looking at where it ends.\<close>

definition ends_in ::
    "nat list \<Rightarrow> 's \<Rightarrow> ('s, 'a) task list \<Rightarrow> ('s \<Rightarrow> ('s, 'a) task list \<Rightarrow> bool) \<Rightarrow> bool" where
  "ends_in is s ts P = (case schedule is s ts of Some (s', ts') \<Rightarrow> P s' ts' | None \<Rightarrow> False)"

lemma ends_inE:
  assumes "ends_in is s ts P"
  obtains s' ts' where "pool_step\<^sup>*\<^sup>* (s, ts) (s', ts')" "P s' ts'"
  using assms by (auto simp: ends_in_def split: option.splits intro: schedule_pool)

inductive keeps :: "('s \<Rightarrow> bool) \<Rightarrow> ('s, 'a) task \<Rightarrow> bool" for I where
  Return [intro, simp]: "keeps I (Return a)"
| Halt [intro, simp]: "keeps I Halt"
| Panic [intro, simp]: "keeps I (Panic e)"
| Step: "(\<And>s s' t. \<lbrakk>I s; f s = Some (s', t)\<rbrakk> \<Longrightarrow> I s' \<and> keeps I t) \<Longrightarrow> keeps I (Step f)"
| Spawn: "\<lbrakk>keeps I c; keeps I t\<rbrakk> \<Longrightarrow> keeps I (Spawn c t)"

inductive_cases keeps_StepE: "keeps I (Step f)"
inductive_cases keeps_SpawnE: "keeps I (Spawn c t)"

text \<open>Tasks that keep an invariant keep it together, however they are scheduled.\<close>

lemma pool_step_keeps:
  assumes "pool_step (s, ts) (s', ts')" "I s" "\<forall>t \<in> set ts. keeps I t"
  shows "I s' \<and> (\<forall>t \<in> set ts'. keeps I t)"
  using assms
proof (cases rule: pool_step.cases)
  case (go i f t)
  then have "keeps I (Step f)" using assms(3) by (metis nth_mem)
  then have "I s'" "keeps I t" using go assms(2) by (auto elim: keeps_StepE)
  then show ?thesis using go assms(3) set_update_subset_insert [of ts i t] by auto
next
  case (fork i c t)
  then have "keeps I (Spawn c t)" using assms(3) by (metis nth_mem)
  then have "keeps I c" "keeps I t" by (auto elim: keeps_SpawnE)
  then show ?thesis using fork assms(2,3) set_update_subset_insert [of ts i t] by auto
qed

lemma pool_keeps:
  assumes "pool_step\<^sup>*\<^sup>* (s, ts) (s', ts')" "I s" "\<forall>t \<in> set ts. keeps I t"
  shows "I s'"
proof -
  have "I s' \<and> (\<forall>t \<in> set ts'. keeps I t)"
    using assms
  proof (induction "(s', ts')" arbitrary: s' ts' rule: rtranclp_induct)
    case (step y)
    obtain s1 ts1 where "y = (s1, ts1)" by force
    with step show ?case using pool_step_keeps [of s1 ts1 s' ts' I] by auto
  qed simp
  then show ?thesis ..
qed

lemma keeps_call [intro]:
  assumes "keeps I m" "\<And>x. keeps I (k x)"
  shows "keeps I (call m k)"
  using assms
proof (induction rule: keeps.induct)
  case (Step f)
  show ?case
    unfolding call.simps
  proof (rule keeps.Step)
    fix s s' t
    assume "I s" "map_option (map_prod id (\<lambda>t. call t k)) (f s) = Some (s', t)"
    then obtain t' where "f s = Some (s', t')" "t = call t' k" by auto
    with Step \<open>I s\<close> show "I s' \<and> keeps I t" by blast
  qed
qed (auto intro: keeps.Spawn)

lemma keeps_atomically [intro]: "(\<And>s. I s \<Longrightarrow> I (fst (f s))) \<Longrightarrow> keeps I (atomically f)"
  unfolding atomically_def by (rule keeps.Step) (fastforce split: prod.splits)

lemma keeps_atomically_then:
  assumes "\<And>s. I s \<Longrightarrow> I (fst (f s)) \<and> keeps I (k (snd (f s)))"
  shows "keeps I (call (atomically f) k)"
  unfolding atomically_def call.simps by (rule keeps.Step) (use assms in \<open>auto simp: case_prod_unfold Let_def\<close>)

lemma keeps_read_then: "(\<And>s. I s \<Longrightarrow> keeps I (k (f s))) \<Longrightarrow> keeps I (call (read f) k)"
  unfolding read_def by (rule keeps_atomically_then) simp

text \<open>Whatever a task does to one part of the state, it keeps what does not depend on the part.\<close>

lemma keeps_zoom_any:
  assumes "\<And>s w. I w \<Longrightarrow> I (put s w)"
  shows "keeps I (zoom get put m)"
proof (induction m)
  case (Step f)
  show ?case
    unfolding zoom.simps
  proof (rule keeps.Step)
    fix w w' t
    assume w: "I w" and "map_option (map_prod (\<lambda>s. put s w) (zoom get put)) (f (get w)) = Some (w', t)"
    then obtain s t' where f: "f (get w) = Some (s, t')" "w' = put s w" "t = zoom get put t'" by auto
    have "keeps I (zoom get put t')" by (rule Step [of "f (get w)" "(s, t')"]) (rule rangeI, simp_all add: f(1))
    with f w assms show "I w' \<and> keeps I t" by simp
  qed
qed (auto intro: keeps.Spawn)

lemma keeps_update [intro]: "(\<And>s. I s \<Longrightarrow> I (f s)) \<Longrightarrow> keeps I (update f)"
  unfolding update_def by (rule keeps_atomically) simp

lemma keeps_read [intro, simp]: "keeps I (read f)"
  unfolding read_def by (rule keeps_atomically) simp

lemma keeps_await [intro]: "(\<And>s s' a. I s \<Longrightarrow> f s = Some (s', a) \<Longrightarrow> I s') \<Longrightarrow> keeps I (await f)"
  unfolding await_def by (rule keeps.Step) auto

lemma keeps_access [intro]: "(\<And>s s' a. I s \<Longrightarrow> f s = Some (s', a) \<Longrightarrow> I s') \<Longrightarrow> keeps I (access e f)"
  unfolding access_def by (rule keeps.Step) (auto split: option.splits)

lemma keeps_for_each [intro]: "(\<And>x. keeps I (body x)) \<Longrightarrow> keeps I (for_each body xs)"
  by (induction xs) auto

lemma keeps_spawn [intro]: "keeps I c \<Longrightarrow> keeps I t \<Longrightarrow> keeps I (spawn c t)"
  unfolding spawn_def by (auto intro: keeps.Spawn)

lemma keeps_if [intro]: "(b \<Longrightarrow> keeps I m) \<Longrightarrow> (\<not> b \<Longrightarrow> keeps I n) \<Longrightarrow> keeps I (if b then m else n)"
  by simp

lemma keeps_option [intro]:
  "keeps I m \<Longrightarrow> (\<And>x. keeps I (n x)) \<Longrightarrow> keeps I (case v of None \<Rightarrow> m | Some x \<Rightarrow> n x)"
  by (cases v) auto

end
