(* ===== verification/Tokio.thy ===== *)
theory Tokio
  imports Async
begin

text \<open>
  The three primitives of \<open>tokio::sync\<close> that the server and the agent share state through. Tokio is
  not part of the repository, so each primitive is a record of operations on an unknown state
  type, a parameter of the definitions that use it, and what its documentation promises is a locale:
  a view of the state and the effect of every operation on the view. The views themselves, with
  the promised operations, are instances of the locales.

  \<^item> \<open>Semaphore\<close>: \<open>acquire_many(n).await\<close> waits for \<open>n\<close> permits and fails once the semaphore is closed;
    \<open>add_permits\<close> panics beyond \<open>MAX_PERMITS\<close>. A permit that is acquired is forgotten by all callers
    here, so acquiring is a plain decrease.
  \<^item> \<open>mpsc\<close>: a bounded queue; \<open>send\<close> waits for room and fails once the receiver is gone; \<open>recv\<close> waits
    for an item and ends once the queue is empty and all senders are gone.
  \<^item> \<open>oneshot\<close>: a single slot; \<open>recv\<close> fails once the sender is gone without having sent.
\<close>

datatype 'x poll = Ready 'x | Gone | NotReady

section \<open>Semaphores\<close>

record 'm sem_ops =
  sem_new :: "nat \<Rightarrow> 'm"
  sem_acquire :: "'m \<Rightarrow> nat \<Rightarrow> 'm poll"
  sem_add :: "'m \<Rightarrow> nat \<Rightarrow> 'm option"
  sem_close :: "'m \<Rightarrow> 'm"

record sem_view =
  permits :: nat
  sem_closed :: bool

definition MAX_PERMITS :: nat where
  "MAX_PERMITS = 2 ^ 61 - 1"

locale semaphore =
  fixes sem :: "'m sem_ops"
    and view :: "'m \<Rightarrow> sem_view"
  assumes sem_new_law: "n \<le> MAX_PERMITS \<Longrightarrow> view (sem_new sem n) = \<lparr>permits = n, sem_closed = False\<rparr>"
    and acquire_closed: "sem_closed (view m) \<Longrightarrow> sem_acquire sem m n = Gone"
    and acquire_waits: "\<lbrakk>\<not> sem_closed (view m); permits (view m) < n\<rbrakk> \<Longrightarrow> sem_acquire sem m n = NotReady"
    and acquire_takes: "\<lbrakk>\<not> sem_closed (view m); n \<le> permits (view m)\<rbrakk> \<Longrightarrow>
      \<exists>m'. sem_acquire sem m n = Ready m' \<and> view m' = (view m)\<lparr>permits := permits (view m) - n\<rparr>"
    and add_permits_law: "permits (view m) + n \<le> MAX_PERMITS \<Longrightarrow>
      \<exists>m'. sem_add sem m n = Some m' \<and> view m' = (view m)\<lparr>permits := permits (view m) + n\<rparr>"
    and add_permits_panics: "MAX_PERMITS < permits (view m) + n \<Longrightarrow> sem_add sem m n = None"
    and sem_close_law: "view (sem_close sem m) = (view m)\<lparr>sem_closed := True\<rparr>"
begin

lemma acquire_Ready:
  assumes "sem_acquire sem m n = Ready m'"
  shows "\<not> sem_closed (view m) \<and> n \<le> permits (view m) \<and>
    view m' = (view m)\<lparr>permits := permits (view m) - n\<rparr>"
proof -
  have "\<not> sem_closed (view m)" using assms acquire_closed [of m n] by auto
  moreover from this have "n \<le> permits (view m)" using assms acquire_waits [of m n] by force
  ultimately show ?thesis using assms acquire_takes [of m n] by auto
qed

lemma add_Some:
  "sem_add sem m n = Some m' \<Longrightarrow> view m' = (view m)\<lparr>permits := permits (view m) + n\<rparr>"
  using add_permits_law [of m n] add_permits_panics [of m n]
  by (cases "permits (view m) + n \<le> MAX_PERMITS") auto

end

definition ref_sem :: "sem_view sem_ops" where
  "ref_sem = \<lparr>sem_new = (\<lambda>n. \<lparr>permits = n, sem_closed = False\<rparr>),
     sem_acquire = (\<lambda>m n. if sem_closed m then Gone else if permits m < n then NotReady
                         else Ready (m\<lparr>permits := permits m - n\<rparr>)),
     sem_add = (\<lambda>m n. if permits m + n \<le> MAX_PERMITS then Some (m\<lparr>permits := permits m + n\<rparr>) else None),
     sem_close = (\<lambda>m. m\<lparr>sem_closed := True\<rparr>)\<rparr>"

interpretation ref_sem: semaphore ref_sem id
  by unfold_locales (auto simp: ref_sem_def)

section \<open>Bounded channels\<close>

record ('q, 'a) chan_ops =
  chan_new :: "nat \<Rightarrow> 'q"
  chan_send :: "'q \<Rightarrow> 'a \<Rightarrow> 'q poll"
  chan_try_send :: "'q \<Rightarrow> 'a \<Rightarrow> 'q option"
  chan_recv :: "'q \<Rightarrow> ('q \<times> 'a option) option"
  chan_clone_tx :: "'q \<Rightarrow> 'q"
  chan_drop_tx :: "'q \<Rightarrow> 'q"
  chan_drop_rx :: "'q \<Rightarrow> 'q"

record 'a chan_view =
  queued :: "'a list"
  capacity :: nat
  senders :: nat
  receiver :: bool

locale channel =
  fixes chan :: "('q, 'a) chan_ops"
    and cview :: "'q \<Rightarrow> 'a chan_view"
  assumes chan_new_law:
      "0 < n \<Longrightarrow> cview (chan_new chan n) = \<lparr>queued = [], capacity = n, senders = 1, receiver = True\<rparr>"
    and send_gone: "\<not> receiver (cview q) \<Longrightarrow> chan_send chan q a = Gone"
    and send_full: "\<lbrakk>receiver (cview q); capacity (cview q) \<le> length (queued (cview q))\<rbrakk> \<Longrightarrow>
      chan_send chan q a = NotReady"
    and send_room: "\<lbrakk>receiver (cview q); length (queued (cview q)) < capacity (cview q)\<rbrakk> \<Longrightarrow>
      \<exists>q'. chan_send chan q a = Ready q' \<and> cview q' = (cview q)\<lparr>queued := queued (cview q) @ [a]\<rparr>"
    and try_send_law: "chan_try_send chan q a = (case chan_send chan q a of Ready q' \<Rightarrow> Some q' | _ \<Rightarrow> None)"
    and recv_item: "queued (cview q) = a # rest \<Longrightarrow>
      \<exists>q'. chan_recv chan q = Some (q', Some a) \<and> cview q' = (cview q)\<lparr>queued := rest\<rparr>"
    and recv_end: "\<lbrakk>queued (cview q) = []; senders (cview q) = 0\<rbrakk> \<Longrightarrow>
      \<exists>q'. chan_recv chan q = Some (q', None) \<and> cview q' = cview q"
    and recv_waits: "\<lbrakk>queued (cview q) = []; 0 < senders (cview q)\<rbrakk> \<Longrightarrow> chan_recv chan q = None"
    and clone_tx_law: "cview (chan_clone_tx chan q) = (cview q)\<lparr>senders := senders (cview q) + 1\<rparr>"
    and drop_tx_law: "cview (chan_drop_tx chan q) = (cview q)\<lparr>senders := senders (cview q) - 1\<rparr>"
    and drop_rx_law: "cview (chan_drop_rx chan q) = (cview q)\<lparr>queued := [], receiver := False\<rparr>"
begin

lemma send_Ready:
  assumes "chan_send chan q a = Ready q'"
  shows "receiver (cview q) \<and> length (queued (cview q)) < capacity (cview q) \<and>
    cview q' = (cview q)\<lparr>queued := queued (cview q) @ [a]\<rparr>"
proof -
  have r: "receiver (cview q)" using assms send_gone [of q a] by auto
  then have "length (queued (cview q)) < capacity (cview q)" using assms send_full [of q a] by force
  with r show ?thesis using assms send_room [of q a] by auto
qed

lemma send_Gone:
  assumes "chan_send chan q a = Gone"
  shows "\<not> receiver (cview q)"
proof
  assume "receiver (cview q)"
  then show False
    using assms send_full [of q a] send_room [of q a]
    by (cases "length (queued (cview q)) < capacity (cview q)") auto
qed

lemma recv_senders: "chan_recv chan q = Some (q', item) \<Longrightarrow> senders (cview q') = senders (cview q)"
  using recv_item [of q] recv_end [of q] recv_waits [of q]
  by (cases "queued (cview q)"; cases "senders (cview q)") fastforce+

end

definition ref_send :: "'a chan_view \<Rightarrow> 'a \<Rightarrow> 'a chan_view poll" where
  "ref_send q a = (if \<not> receiver q then Gone else if capacity q \<le> length (queued q) then NotReady
     else Ready (q\<lparr>queued := queued q @ [a]\<rparr>))"

definition ref_chan :: "('a chan_view, 'a) chan_ops" where
  "ref_chan = \<lparr>chan_new = (\<lambda>n. \<lparr>queued = [], capacity = n, senders = 1, receiver = True\<rparr>),
     chan_send = ref_send,
     chan_try_send = (\<lambda>q a. case ref_send q a of Ready q' \<Rightarrow> Some q' | _ \<Rightarrow> None),
     chan_recv = (\<lambda>q. case queued q of a # rest \<Rightarrow> Some (q\<lparr>queued := rest\<rparr>, Some a)
                   | [] \<Rightarrow> if senders q = 0 then Some (q, None) else None),
     chan_clone_tx = (\<lambda>q. q\<lparr>senders := senders q + 1\<rparr>),
     chan_drop_tx = (\<lambda>q. q\<lparr>senders := senders q - 1\<rparr>),
     chan_drop_rx = (\<lambda>q. q\<lparr>queued := [], receiver := False\<rparr>)\<rparr>"

interpretation ref_chan: channel ref_chan id
  by unfold_locales (auto simp: ref_chan_def ref_send_def)

section \<open>One-shot channels\<close>

record ('o, 'a) once_ops =
  once_new :: 'o
  once_send :: "'o \<Rightarrow> 'a \<Rightarrow> 'o"
  once_drop_tx :: "'o \<Rightarrow> 'o"
  once_recv :: "'o \<Rightarrow> 'a option option"
  once_drop_rx :: "'o \<Rightarrow> 'o"

datatype 'a slot = Waiting | Delivered 'a | Abandoned

locale oneshot =
  fixes once :: "('o, 'a) once_ops"
    and oview :: "'o \<Rightarrow> 'a slot"
  assumes once_new_law: "oview (once_new once) = Waiting"
    and once_send_law: "oview c = Waiting \<Longrightarrow> oview (once_send once c a) = Delivered a"
    and once_drop_tx_law: "oview (once_drop_tx once c) = (if oview c = Waiting then Abandoned else oview c)"
    and once_recv_law:
      "once_recv once c = (case oview c of Waiting \<Rightarrow> None | Delivered a \<Rightarrow> Some (Some a) | Abandoned \<Rightarrow> Some None)"

definition ref_once :: "('a slot, 'a) once_ops" where
  "ref_once = \<lparr>once_new = Waiting,
     once_send = (\<lambda>c a. case c of Waiting \<Rightarrow> Delivered a | _ \<Rightarrow> c),
     once_drop_tx = (\<lambda>c. case c of Waiting \<Rightarrow> Abandoned | _ \<Rightarrow> c),
     once_recv = (\<lambda>c. case c of Waiting \<Rightarrow> None | Delivered a \<Rightarrow> Some (Some a) | Abandoned \<Rightarrow> Some None),
     once_drop_rx = (\<lambda>c. c)\<rparr>"

interpretation ref_once: oneshot ref_once id
  by unfold_locales (auto simp: ref_once_def split: slot.splits)

end
