(* ===== verification/Rust_Str.thy ===== *)
theory Rust_Str
  imports Prelude
begin

text \<open>
  The parts of Rust's \<open>str\<close> and integer-parsing API that the code uses, on UTF-8 byte lists.
  Every function below is standard library behaviour: \<open>trim\<close> strips the code points with the
  Unicode property \<open>White_Space\<close> (given by their UTF-8 encodings), \<open>strip_prefix\<close>,
  \<open>strip_suffix\<close>, \<open>split\<close>, \<open>split_once\<close>, \<open>rsplit_once\<close>, \<open>find\<close> and \<open>trim_end_matches\<close> work on
  an ASCII delimiter, the \<open>ascii\<close> family ignores bytes above 127, and \<open>u16::from_str\<close> accepts an
  optional plus sign followed by decimal digits.
\<close>

section \<open>Characters\<close>

definition byte :: "char \<Rightarrow> nat" where
  "byte c = of_char c"

definition is_ascii_char :: "char \<Rightarrow> bool" where
  "is_ascii_char c \<longleftrightarrow> byte c < 128"

definition is_ascii_digit :: "char \<Rightarrow> bool" where
  "is_ascii_digit c \<longleftrightarrow> 48 \<le> byte c \<and> byte c \<le> 57"

definition is_ascii_lowercase :: "char \<Rightarrow> bool" where
  "is_ascii_lowercase c \<longleftrightarrow> 97 \<le> byte c \<and> byte c \<le> 122"

definition is_ascii_uppercase :: "char \<Rightarrow> bool" where
  "is_ascii_uppercase c \<longleftrightarrow> 65 \<le> byte c \<and> byte c \<le> 90"

definition lower_char :: "char \<Rightarrow> char" where
  "lower_char c = (if is_ascii_uppercase c then char_of (byte c + 32) else c)"

abbreviation (input) tab_char :: char where
  "tab_char \<equiv> CHR 0x09"

section \<open>Strings\<close>

definition to_ascii_lowercase :: "string \<Rightarrow> string" where
  "to_ascii_lowercase s = map lower_char s"

definition eq_ignore_ascii_case :: "string \<Rightarrow> string \<Rightarrow> bool" where
  "eq_ignore_ascii_case a b \<longleftrightarrow> to_ascii_lowercase a = to_ascii_lowercase b"

definition is_ascii :: "string \<Rightarrow> bool" where
  "is_ascii s = list_all is_ascii_char s"

fun strip_prefix :: "string \<Rightarrow> string \<Rightarrow> string option" where
  "strip_prefix [] s = Some s"
| "strip_prefix (x # p) [] = None"
| "strip_prefix (x # p) (y # s) = (if x = y then strip_prefix p s else None)"

definition strip_suffix :: "string \<Rightarrow> string \<Rightarrow> string option" where
  "strip_suffix p s = map_option rev (strip_prefix (rev p) (rev s))"

definition starts_with :: "string \<Rightarrow> string \<Rightarrow> bool" where
  "starts_with s p \<longleftrightarrow> strip_prefix p s \<noteq> None"

definition ends_with :: "string \<Rightarrow> string \<Rightarrow> bool" where
  "ends_with s p \<longleftrightarrow> strip_suffix p s \<noteq> None"

fun find_char :: "char \<Rightarrow> string \<Rightarrow> nat option" where
  "find_char c [] = None"
| "find_char c (x # xs) = (if x = c then Some 0 else map_option Suc (find_char c xs))"

fun split_once :: "char \<Rightarrow> string \<Rightarrow> (string \<times> string) option" where
  "split_once c [] = None"
| "split_once c (x # xs) =
     (if x = c then Some ([], xs) else map_option (\<lambda>(a, b). (x # a, b)) (split_once c xs))"

definition rsplit_once :: "char \<Rightarrow> string \<Rightarrow> (string \<times> string) option" where
  "rsplit_once c s = map_option (\<lambda>(b, a). (rev a, rev b)) (split_once c (rev s))"

text \<open>\<open>str::split(c)\<close>: the pieces between the delimiters, always at least one.\<close>

fun split_on :: "char \<Rightarrow> string \<Rightarrow> string list" where
  "split_on c [] = [[]]"
| "split_on c (x # xs) =
     (if x = c then [] # split_on c xs
      else case split_on c xs of [] \<Rightarrow> [[x]] | p # ps \<Rightarrow> (x # p) # ps)"

definition trim_end_matches :: "char \<Rightarrow> string \<Rightarrow> string" where
  "trim_end_matches c s = rev (dropWhile (\<lambda>x. x = c) (rev s))"

definition trim_start_matches_any :: "char set \<Rightarrow> string \<Rightarrow> string" where
  "trim_start_matches_any cs s = dropWhile (\<lambda>x. x \<in> cs) s"

definition trim_matches_any :: "char set \<Rightarrow> string \<Rightarrow> string" where
  "trim_matches_any cs s = rev (dropWhile (\<lambda>x. x \<in> cs) (rev (dropWhile (\<lambda>x. x \<in> cs) s)))"

text \<open>The UTF-8 encodings of the code points with property \<open>White_Space\<close>:
  U+0009 to U+000D, U+0020, U+0085, U+00A0, U+1680, U+2000 to U+200A, U+2028, U+2029, U+202F,
  U+205F and U+3000.\<close>

definition white_space :: "string list" where
  "white_space =
     [[CHR 0x09], [CHR 0x0A], [CHR 0x0B], [CHR 0x0C], [CHR 0x0D], [CHR 0x20],
      [CHR 0xC2, CHR 0x85], [CHR 0xC2, CHR 0xA0], [CHR 0xE1, CHR 0x9A, CHR 0x80],
      [CHR 0xE2, CHR 0x80, CHR 0x80], [CHR 0xE2, CHR 0x80, CHR 0x81],
      [CHR 0xE2, CHR 0x80, CHR 0x82], [CHR 0xE2, CHR 0x80, CHR 0x83],
      [CHR 0xE2, CHR 0x80, CHR 0x84], [CHR 0xE2, CHR 0x80, CHR 0x85],
      [CHR 0xE2, CHR 0x80, CHR 0x86], [CHR 0xE2, CHR 0x80, CHR 0x87],
      [CHR 0xE2, CHR 0x80, CHR 0x88], [CHR 0xE2, CHR 0x80, CHR 0x89],
      [CHR 0xE2, CHR 0x80, CHR 0x8A], [CHR 0xE2, CHR 0x80, CHR 0xA8],
      [CHR 0xE2, CHR 0x80, CHR 0xA9], [CHR 0xE2, CHR 0x80, CHR 0xAF],
      [CHR 0xE2, CHR 0x81, CHR 0x9F], [CHR 0xE3, CHR 0x80, CHR 0x80]]"

fun strip_any :: "string list \<Rightarrow> string \<Rightarrow> string option" where
  "strip_any [] s = None"
| "strip_any (p # ps) s = (case strip_prefix p s of Some r \<Rightarrow> Some r | None \<Rightarrow> strip_any ps s)"

lemma strip_prefix_Some_iff [str_simps]: "strip_prefix p s = Some r \<longleftrightarrow> s = p @ r"
  by (induction p s rule: strip_prefix.induct) auto

lemma strip_any_Some:
  "strip_any ps s = Some r \<Longrightarrow> \<exists>p \<in> set ps. s = p @ r"
  by (induction ps) (auto simp: strip_prefix_Some_iff split: option.splits)

function strip_all :: "string list \<Rightarrow> string \<Rightarrow> string" where
  "strip_all ps s =
     (case strip_any (filter (\<lambda>p. p \<noteq> []) ps) s of None \<Rightarrow> s | Some r \<Rightarrow> strip_all ps r)"
  by pat_completeness auto
termination
  by (relation "measure (\<lambda>(ps, s). length s)") (auto dest!: strip_any_Some)

declare strip_all.simps [simp del]

definition trim_start :: "string \<Rightarrow> string" where
  "trim_start s = strip_all white_space s"

definition trim_end :: "string \<Rightarrow> string" where
  "trim_end s = rev (strip_all (map rev white_space) (rev s))"

definition trim :: "string \<Rightarrow> string" where
  "trim s = trim_end (trim_start s)"

section \<open>Decimal numbers\<close>

definition digit_char :: "nat \<Rightarrow> char" where
  "digit_char d = char_of (48 + d)"

fun show_nat :: "nat \<Rightarrow> string" where
  "show_nat n = (if n < 10 then [digit_char n] else show_nat (n div 10) @ [digit_char (n mod 10)])"

declare show_nat.simps [simp del]

definition digits_value :: "string \<Rightarrow> nat" where
  "digits_value s = foldl (\<lambda>acc c. 10 * acc + (byte c - 48)) 0 s"

text \<open>\<open>str::parse::<uN>()\<close>: an optional leading plus, then at least one digit, no overflow.\<close>

definition parse_unsigned :: "nat \<Rightarrow> string \<Rightarrow> nat option" where
  "parse_unsigned max_value s =
     (let ds = (case s of c # rest \<Rightarrow> (if c = CHR ''+'' \<and> rest \<noteq> [] then rest else s) | [] \<Rightarrow> s)
      in if ds \<noteq> [] \<and> list_all is_ascii_digit ds \<and> digits_value ds \<le> max_value
         then Some (digits_value ds) else None)"

definition parse_u16 :: "string \<Rightarrow> u16 option" where
  "parse_u16 s = map_option of_nat (parse_unsigned 65535 s)"

section \<open>Facts about characters\<close>

lemma byte_char_of: "n < 256 \<Longrightarrow> byte (char_of n) = n"
  by (simp add: byte_def)

lemma byte_lower_char:
  "byte (lower_char c) = (if is_ascii_uppercase c then byte c + 32 else byte c)"
  by (auto simp: lower_char_def is_ascii_uppercase_def byte_char_of)

lemma lower_char_idem [simp]: "lower_char (lower_char c) = lower_char c"
proof (cases "is_ascii_uppercase c")
  case True
  then have "\<not> is_ascii_uppercase (lower_char c)"
    by (simp add: is_ascii_uppercase_def byte_lower_char)
  then show ?thesis by (simp add: lower_char_def [of "lower_char c"])
qed (simp add: lower_char_def)

lemma not_upper_lower_char [simp]: "\<not> is_ascii_uppercase (lower_char c)"
  by (simp add: is_ascii_uppercase_def byte_lower_char)

lemma is_ascii_lower_char [simp]: "is_ascii_char (lower_char c) = is_ascii_char c"
  by (auto simp: is_ascii_char_def byte_lower_char is_ascii_uppercase_def)

text \<open>A character that is not a lowercase letter has no other preimage under lowercasing.\<close>

lemma lower_char_eq_iff:
  assumes "\<not> is_ascii_lowercase d" and "\<not> is_ascii_uppercase d"
  shows "lower_char c = d \<longleftrightarrow> c = d"
proof
  assume eq: "lower_char c = d"
  have "\<not> is_ascii_uppercase c"
  proof
    assume "is_ascii_uppercase c"
    then have "is_ascii_lowercase (lower_char c)"
      by (auto simp: is_ascii_lowercase_def byte_lower_char is_ascii_uppercase_def)
    with eq assms(1) show False by simp
  qed
  with eq show "c = d" by (simp add: lower_char_def)
next
  assume "c = d"
  with assms(2) show "lower_char c = d" by (simp add: lower_char_def)
qed

lemma byte_digit_char: "d < 10 \<Longrightarrow> byte (digit_char d) = 48 + d"
  by (simp add: digit_char_def byte_char_of)

section \<open>Facts about strings\<close>

lemma length_to_ascii_lowercase [simp]: "length (to_ascii_lowercase s) = length s"
  by (simp add: to_ascii_lowercase_def)

lemma to_ascii_lowercase_idem [simp]:
  "to_ascii_lowercase (to_ascii_lowercase s) = to_ascii_lowercase s"
  by (simp add: to_ascii_lowercase_def)

lemma to_ascii_lowercase_Nil_iff [simp]:
  "to_ascii_lowercase s = [] \<longleftrightarrow> s = []" "[] = to_ascii_lowercase s \<longleftrightarrow> s = []"
  by (auto simp: to_ascii_lowercase_def)

lemma is_ascii_to_ascii_lowercase [simp]: "is_ascii (to_ascii_lowercase s) = is_ascii s"
  by (simp add: is_ascii_def to_ascii_lowercase_def list_all_iff)

lemma strip_suffix_Some_iff [str_simps]: "strip_suffix p s = Some r \<longleftrightarrow> s = r @ p"
proof -
  have "strip_suffix p s = Some r \<longleftrightarrow> rev s = rev p @ rev r"
    by (auto simp: strip_suffix_def strip_prefix_Some_iff)
  also have "\<dots> \<longleftrightarrow> s = r @ p"
    by (metis rev_append rev_rev_ident)
  finally show ?thesis .
qed

lemma strip_suffix_append [simp]: "strip_suffix p (r @ p) = Some r"
  by (simp add: strip_suffix_Some_iff)

lemma starts_with_iff [str_simps]: "starts_with s p \<longleftrightarrow> (\<exists>r. s = p @ r)"
  by (auto simp: starts_with_def strip_prefix_Some_iff)

lemma ends_with_iff [str_simps]: "ends_with s p \<longleftrightarrow> (\<exists>r. s = r @ p)"
  by (auto simp: ends_with_def strip_suffix_Some_iff)

lemma starts_with_take: "starts_with s p \<longleftrightarrow> take (length p) s = p"
  unfolding starts_with_iff by (metis append_eq_conv_conj append_take_drop_id)

lemma strip_prefix_None_iff: "strip_prefix p s = None \<longleftrightarrow> (\<forall>r. s \<noteq> p @ r)"
  by (metis not_Some_eq strip_prefix_Some_iff)

lemma find_char_Some_iff [str_simps]:
  "find_char c s = Some i \<longleftrightarrow> (\<exists>a b. s = a @ c # b \<and> c \<notin> set a \<and> i = length a)"
proof
  show "find_char c s = Some i \<Longrightarrow> \<exists>a b. s = a @ c # b \<and> c \<notin> set a \<and> i = length a"
  proof (induction s arbitrary: i)
    case (Cons x s)
    show ?case
    proof (cases "x = c")
      case True
      with Cons.prems show ?thesis by (intro exI [of _ "[]"] exI [of _ s]) auto
    next
      case False
      with Cons.prems obtain j where "find_char c s = Some j" and i: "i = Suc j" by auto
      with Cons.IH obtain a b where "s = a @ c # b \<and> c \<notin> set a \<and> j = length a" by blast
      with False i show ?thesis by (intro exI [of _ "x # a"] exI [of _ b]) auto
    qed
  qed simp
next
  have "c \<notin> set a \<Longrightarrow> find_char c (a @ c # b) = Some (length a)" for a b
    by (induction a) auto
  then show "\<exists>a b. s = a @ c # b \<and> c \<notin> set a \<and> i = length a \<Longrightarrow> find_char c s = Some i"
    by blast
qed

lemma find_char_None_iff [str_simps]: "find_char c s = None \<longleftrightarrow> c \<notin> set s"
  by (induction s) auto

lemma split_once_Some_iff [str_simps]:
  "split_once c s = Some (a, b) \<longleftrightarrow> s = a @ c # b \<and> c \<notin> set a"
proof (induction s arbitrary: a)
  case (Cons x s)
  show ?case
  proof (cases a)
    case (Cons y a')
    then show ?thesis using Cons.IH [of a'] by auto
  qed auto
qed simp

lemma split_once_None_iff [str_simps]: "split_once c s = None \<longleftrightarrow> c \<notin> set s"
  by (induction s) auto

lemma rsplit_once_Some_iff [str_simps]:
  "rsplit_once c s = Some (a, b) \<longleftrightarrow> s = a @ c # b \<and> c \<notin> set b"
proof -
  have "rsplit_once c s = Some (a, b) \<longleftrightarrow> split_once c (rev s) = Some (rev b, rev a)"
    by (auto simp: rsplit_once_def)
  also have "\<dots> \<longleftrightarrow> s = a @ c # b \<and> c \<notin> set b"
    by (simp add: split_once_Some_iff rev_eq_append_conv)
  finally show ?thesis .
qed

lemma rsplit_once_None_iff [str_simps]: "rsplit_once c s = None \<longleftrightarrow> c \<notin> set s"
  by (simp add: rsplit_once_def split_once_None_iff)

lemma split_on_nonempty [simp]: "split_on c s \<noteq> []"
  by (induction s) (auto split: list.splits)

lemma split_on_no_delim: "c \<notin> set s \<Longrightarrow> split_on c s = [s]"
  by (induction s) auto

lemma split_on_append:
  "c \<notin> set a \<Longrightarrow> split_on c (a @ c # b) = a # split_on c b"
  by (induction a) auto

lemma dropWhile_replicate_append:
  "dropWhile (\<lambda>x. x = c) (replicate n c @ ys) = dropWhile (\<lambda>x. x = c) ys"
  by (induction n) auto

lemma trim_end_matches_append_last:
  "s = [] \<or> last s \<noteq> c \<Longrightarrow> trim_end_matches c (s @ replicate n c) = s"
  by (cases s rule: rev_cases) (auto simp: trim_end_matches_def dropWhile_replicate_append dropWhile_replicate_append [where ys = "[]", simplified])

lemma last_trim_end_matches: "trim_end_matches c s \<noteq> [] \<Longrightarrow> last (trim_end_matches c s) \<noteq> c"
  unfolding trim_end_matches_def using hd_dropWhile [of "\<lambda>x. x = c" "rev s"]
  by (auto simp: last_rev)

lemma trim_end_matches_prefix: "\<exists>n. s = trim_end_matches c s @ replicate n c"
proof -
  have "rev s = takeWhile (\<lambda>x. x = c) (rev s) @ dropWhile (\<lambda>x. x = c) (rev s)"
    by simp
  moreover have "takeWhile (\<lambda>x. x = c) (rev s) = replicate (length (takeWhile (\<lambda>x. x = c) (rev s))) c"
    by (metis (mono_tags, lifting) replicate_length_same set_takeWhileD)
  ultimately have "rev s = replicate (length (takeWhile (\<lambda>x. x = c) (rev s))) c @ dropWhile (\<lambda>x. x = c) (rev s)"
    by argo
  then have "s = trim_end_matches c s @ replicate (length (takeWhile (\<lambda>x. x = c) (rev s))) c"
    unfolding trim_end_matches_def by (metis rev_append rev_replicate rev_rev_ident)
  then show ?thesis ..
qed

section \<open>Facts about trimming\<close>

text \<open>A byte that is neither part of a multi-byte code point nor white space nor a control.\<close>

definition solid :: "char \<Rightarrow> bool" where
  "solid c \<longleftrightarrow> 32 < byte c \<and> byte c < 128"

text \<open>A run of white-space code points.\<close>

definition padding :: "string \<Rightarrow> bool" where
  "padding w \<longleftrightarrow> (\<exists>ws. set ws \<subseteq> set white_space \<and> w = concat ws)"

definition prefix_free :: "string list \<Rightarrow> bool" where
  "prefix_free ps \<longleftrightarrow>
     list_all (\<lambda>p. p \<noteq> [] \<and> list_all (\<lambda>q. strip_prefix p q = None \<or> p = q) ps) ps"

lemma white_space_prefix_free: "prefix_free white_space" "prefix_free (map rev white_space)"
  by code_simp+

lemma white_space_not_solid: "p \<in> set white_space \<Longrightarrow> c \<in> set p \<Longrightarrow> \<not> solid c"
proof -
  have "list_all (list_all (\<lambda>c. \<not> solid c)) white_space" by code_simp
  then show "p \<in> set white_space \<Longrightarrow> c \<in> set p \<Longrightarrow> \<not> solid c"
    by (auto simp: list_all_iff)
qed

lemma prefix_freeD:
  assumes "prefix_free ps" "p \<in> set ps" "q \<in> set ps" "p @ r = q @ s"
  shows "p = q"
proof -
  have no: "\<And>p q. p \<in> set ps \<Longrightarrow> q \<in> set ps \<Longrightarrow> strip_prefix p q = None \<or> p = q"
    using assms(1) by (auto simp: prefix_free_def list_all_iff)
  from assms(4) obtain us where "p = q @ us \<or> q = p @ us"
    by (auto simp: append_eq_append_conv2)
  then show ?thesis
  proof
    assume "p = q @ us"
    then show ?thesis using no [OF assms(3,2)] by (auto simp: strip_prefix_None_iff)
  next
    assume "q = p @ us"
    then show ?thesis using no [OF assms(2,3)] by (auto simp: strip_prefix_None_iff)
  qed
qed

lemma strip_any_None_iff: "strip_any ps s = None \<longleftrightarrow> (\<forall>p \<in> set ps. strip_prefix p s = None)"
  by (induction ps) (auto split: option.splits)

lemma strip_all_hit:
  assumes "prefix_free ps" and "w \<in> set ps"
  shows "strip_all ps (w @ s) = strip_all ps s"
proof -
  have ne: "filter (\<lambda>p. p \<noteq> []) ps = ps"
    using assms(1) by (auto simp: prefix_free_def list_all_iff intro: filter_True)
  have "strip_any ps (w @ s) \<noteq> None"
    using assms(2) by (auto simp: strip_any_None_iff strip_prefix_None_iff)
  then obtain r where r: "strip_any ps (w @ s) = Some r" by auto
  then obtain p where "p \<in> set ps" "w @ s = p @ r" using strip_any_Some by blast
  with assms have "p = w" by (metis prefix_freeD)
  with \<open>w @ s = p @ r\<close> have "r = s" by simp
  with r ne show ?thesis by (simp add: strip_all.simps [of ps "w @ s"])
qed

lemma strip_all_pad:
  assumes "prefix_free ps" and "set ws \<subseteq> set ps"
  shows "strip_all ps (concat ws @ s) = strip_all ps s"
  using assms(2) by (induction ws) (auto simp: strip_all_hit [OF assms(1)])

lemma strip_all_solid:
  assumes "\<And>p c. p \<in> set ps \<Longrightarrow> c \<in> set p \<Longrightarrow> \<not> solid c" and "solid c"
  shows "strip_all ps (c # s) = c # s"
proof -
  have "strip_any (filter (\<lambda>p. p \<noteq> []) ps) (c # s) = None"
    using assms by (auto simp: strip_any_None_iff strip_prefix_None_iff Cons_eq_append_conv)
  then show ?thesis by (simp add: strip_all.simps)
qed

lemma trim_pad:
  assumes "padding a" "padding b" "s \<noteq> []" "solid (hd s)" "solid (last s)"
  shows "trim (a @ s @ b) = s"
proof -
  from assms(1,2) obtain as bs where
    as: "set as \<subseteq> set white_space" "a = concat as" and
    bs: "set bs \<subseteq> set white_space" "b = concat bs"
    by (auto simp: padding_def)
  have "trim_start (a @ s @ b) = s @ b"
    using assms(3,4) as white_space_not_solid
    by (cases s) (simp_all add: trim_start_def strip_all_pad white_space_prefix_free strip_all_solid)
  moreover have "trim_end (s @ b) = s"
  proof -
    have rb: "rev (s @ b) = concat (map rev (rev bs)) @ rev s"
      by (simp add: bs(2) rev_concat rev_map)
    have sub: "set (map rev (rev bs)) \<subseteq> set (map rev white_space)"
      using bs(1) by auto
    have "strip_all (map rev white_space) (rev s) = rev s"
    proof -
      obtain s' c where "s = s' @ [c]" using assms(3) by (cases s rule: rev_cases) auto
      then show ?thesis
        using assms(5) white_space_not_solid by (auto intro!: strip_all_solid)
    qed
    then show ?thesis
      unfolding trim_end_def rb strip_all_pad [OF white_space_prefix_free(2) sub] by simp
  qed
  ultimately show ?thesis by (simp add: trim_def)
qed

lemma padding_Nil [simp]: "padding []"
  unfolding padding_def by (rule exI [of _ "[]"]) simp

lemma trim_solid: "s \<noteq> [] \<Longrightarrow> solid (hd s) \<Longrightarrow> solid (last s) \<Longrightarrow> trim s = s"
  using trim_pad [of "[]" "[]" s] by simp

section \<open>Facts about decimals\<close>

lemma digits_value_snoc: "digits_value (s @ [c]) = 10 * digits_value s + (byte c - 48)"
  by (simp add: digits_value_def)

lemma digits_value_show_nat [simp]: "digits_value (show_nat n) = n"
proof (induction n rule: show_nat.induct)
  case (1 n)
  show ?case
  proof (cases "n < 10")
    case True
    then show ?thesis
      by (simp add: show_nat.simps [of n] digits_value_def byte_digit_char)
  next
    case False
    have "digits_value (show_nat n) = 10 * (n div 10) + n mod 10"
      using "1.IH" [OF False] False
      by (subst show_nat.simps) (simp add: digits_value_snoc byte_digit_char)
    then show ?thesis by simp
  qed
qed

lemma is_ascii_digit_digit_char: "d < 10 \<Longrightarrow> is_ascii_digit (digit_char d)"
  by (simp add: is_ascii_digit_def byte_digit_char)

lemma show_nat_digits: "list_all is_ascii_digit (show_nat n)"
proof (induction n rule: show_nat.induct)
  case (1 n)
  then show ?case
    by (subst show_nat.simps) (auto simp: is_ascii_digit_digit_char)
qed

lemma show_nat_nonempty [simp]: "show_nat n \<noteq> []"
  by (subst show_nat.simps) simp

lemma show_nat_inject [simp]: "show_nat m = show_nat n \<longleftrightarrow> m = n"
  by (metis digits_value_show_nat)

lemma parse_unsigned_show_nat: "n \<le> m \<Longrightarrow> parse_unsigned m (show_nat n) = Some n"
proof -
  assume "n \<le> m"
  obtain c s where s: "show_nat n = c # s" by (cases "show_nat n") auto
  have "is_ascii_digit c" using show_nat_digits [of n] s by simp
  then have "c \<noteq> CHR ''+''" by (auto simp: is_ascii_digit_def byte_def)
  then show ?thesis
    using \<open>n \<le> m\<close> s show_nat_digits [of n] digits_value_show_nat [of n]
    by (simp add: parse_unsigned_def)
qed

end
