(* ===== verification/Errors.thy ===== *)
theory Errors
  imports Rust_Str
begin

text \<open>
  \<open>crates/norupo-core/src/error.rs\<close>: the error type shared by the crates, its stable codes, its
  retry classification, its \<open>Display\<close> text, and the redaction of secrets for logs.
  The payload of \<open>Internal\<close> is an \<open>anyhow::Error\<close>; only its rendered text is observable here.
\<close>

section \<open>Model\<close>

datatype error =
    RouteTaken string
  | InvalidRoute string
  | Unauthorized string
  | LimitExceeded string
  | RegistryUnavailable string
  | Internal string

fun is_retryable :: "error \<Rightarrow> bool" where
  "is_retryable (RegistryUnavailable _) = True"
| "is_retryable (Internal _) = True"
| "is_retryable _ = False"

fun error_code :: "error \<Rightarrow> string" where
  "error_code (RouteTaken _) = ''route_taken''"
| "error_code (InvalidRoute _) = ''invalid_route''"
| "error_code (Unauthorized _) = ''unauthorized''"
| "error_code (LimitExceeded _) = ''limit_exceeded''"
| "error_code (RegistryUnavailable _) = ''registry_unavailable''"
| "error_code (Internal _) = ''internal''"

text \<open>The \<open>#[error(...)]\<close> attributes: what \<open>to_string()\<close> renders.\<close>

fun error_to_string :: "error \<Rightarrow> string" where
  "error_to_string (RouteTaken k) = ''routing key `'' @ k @ ''` is already claimed''"
| "error_to_string (InvalidRoute m) = ''invalid routing target: '' @ m"
| "error_to_string (Unauthorized m) = ''unauthorized: '' @ m"
| "error_to_string (LimitExceeded m) = ''limit exceeded: '' @ m"
| "error_to_string (RegistryUnavailable m) = ''routing table unavailable: '' @ m"
| "error_to_string (Internal m) = m"

text \<open>\<open>chars().take(n)\<close> on UTF-8 bytes: a byte that is not a continuation byte starts a code
  point.\<close>

definition is_continuation :: "char \<Rightarrow> bool" where
  "is_continuation c \<longleftrightarrow> 128 \<le> byte c \<and> byte c < 192"

fun take_chars :: "nat \<Rightarrow> string \<Rightarrow> string" where
  "take_chars n [] = []"
| "take_chars n (c # s) =
     (if is_continuation c then c # take_chars n s
      else case n of 0 \<Rightarrow> [] | Suc m \<Rightarrow> c # take_chars m s)"

definition redact :: "string \<Rightarrow> string" where
  "redact secret = take_chars 4 secret @ ''***('' @ show_nat (length secret) @ '' chars)''"

section \<open>Theorems\<close>

lemma retryable_iff_code:
  "is_retryable e \<longleftrightarrow> error_code e \<in> {''registry_unavailable'', ''internal''}"
  by (cases e) auto

lemma take_chars_ascii: "is_ascii s \<Longrightarrow> take_chars n s = take n s"
proof (induction n s rule: take_chars.induct)
  case (2 n c s)
  then show ?case
    by (cases n) (auto simp: is_ascii_def is_ascii_char_def is_continuation_def)
qed simp

text \<open>The six error codes tell the six constructors apart, so a metrics label identifies the
  failure mode.\<close>

lemma error_code_separates:
  "error_code e = error_code e' \<longleftrightarrow>
     (\<exists>m m'. (e, e') \<in> {(RouteTaken m, RouteTaken m'), (InvalidRoute m, InvalidRoute m'),
        (Unauthorized m, Unauthorized m'), (LimitExceeded m, LimitExceeded m'),
        (RegistryUnavailable m, RegistryUnavailable m'), (Internal m, Internal m')})"
  by (cases e; cases e') simp_all

section \<open>Properties\<close>

text \<open>Redaction shows the first four characters and the length and nothing else of a longer
  ASCII secret, but a secret of at most four characters is printed in full.\<close>

lemma redact_reveals:
  assumes "is_ascii secret"
  shows "redact secret = take 4 secret @ ''***('' @ show_nat (length secret) @ '' chars)'' \<and>
     (length secret \<le> 4 \<longrightarrow> starts_with (redact secret) secret)"
  using take_chars_ascii [OF assms, of 4] by (auto simp: redact_def starts_with_iff)

lemma redact_reveals_witness:
  "redact ''key1'' = take 4 ''key1'' @ ''***('' @ show_nat (length ''key1'') @ '' chars)'' \<and>
     starts_with (redact ''key1'') ''key1''"
proof -
  have "is_ascii ''key1''" and "length ''key1'' \<le> 4" by code_simp+
  then show ?thesis using redact_reveals by blast
qed

end
