(* ===== verification/Routing.thy ===== *)
theory Routing
  imports Errors "HOL-Library.Char_ord" "HOL-Library.List_Lexorder"
begin

text \<open>
  \<open>crates/norupo-core/src/routing.rs\<close>: routing keys, the canonicalisation of host names, and the
  rules for subdomain labels. The random source of \<open>random_subdomain\<close> is an argument: the list of
  indices the generator drew.
\<close>

section \<open>Model\<close>

definition MAX_LABEL_LEN :: nat where
  "MAX_LABEL_LEN = 63"

definition RESERVED_SUBDOMAINS :: "string list" where
  "RESERVED_SUBDOMAINS =
     [''www'', ''api'', ''admin'', ''dashboard'', ''app'', ''status'', ''docs'', ''mail'', ''smtp'',
      ''ns'', ''ns1'', ''ns2'', ''mx'', ''cdn'', ''static'', ''assets'', ''edge'', ''control'',
      ''grpc'', ''internal'', ''metrics'', ''health'', ''localhost'', ''test'', ''support'',
      ''billing'', ''account'', ''login'', ''auth'', ''security'', ''norupo'']"

definition SUBDOMAIN_ALPHABET :: string where
  "SUBDOMAIN_ALPHABET = ''abcdefghijkmnpqrstuvwxyz23456789''"

definition GENERATED_SUBDOMAIN_LEN :: nat where
  "GENERATED_SUBDOMAIN_LEN = 12"

datatype routing_key = Host string | TcpPort u16

fun as_storage_key :: "routing_key \<Rightarrow> string" where
  "as_storage_key (Host host) = host"
| "as_storage_key (TcpPort port) = ''tcp:'' @ show_nat (unat port)"

text \<open>\<open>normalize_host\<close>, in two steps: the port is stripped (a bracketed IPv6 literal keeps its
  colons), then root dots go, the rest is lowercased and checked.\<close>

definition strip_port :: "string \<Rightarrow> string \<Rightarrow> (string, error) result" where
  "strip_port raw trimmed =
     (case strip_prefix ''['' trimmed of
        Some rest \<Rightarrow>
          (case find_char CHR '']'' rest of
             Some end_idx \<Rightarrow> Ok (take (end_idx + 2) trimmed)
           | None \<Rightarrow> Err (InvalidRoute (''unterminated IPv6 host: '' @ raw)))
      | None \<Rightarrow>
          (case split_once CHR '':'' trimmed of
             Some (host, port) \<Rightarrow>
               (if port \<noteq> [] \<and> \<not> list_all is_ascii_digit port
                then Err (InvalidRoute (''invalid port in host: '' @ raw))
                else Ok host)
           | None \<Rightarrow> Ok trimmed))"

definition normalize_host :: "string \<Rightarrow> (string, error) result" where
  "normalize_host raw =
     (let trimmed = trim raw in
      if trimmed = [] then Err (InvalidRoute ''empty host'')
      else bind_result (strip_port raw trimmed) (\<lambda>without_port.
        let without_root = trim_end_matches CHR ''.'' without_port in
        if without_root = [] then Err (InvalidRoute ''empty host'')
        else let lowered = to_ascii_lowercase without_root in
          if \<not> is_ascii lowered
          then Err (InvalidRoute (''non-ASCII host (punycode it first): '' @ raw))
          else if length lowered > 253
          then Err (InvalidRoute ''host exceeds 253 characters'')
          else Ok lowered))"

definition routing_key_host :: "string \<Rightarrow> (routing_key, error) result" where
  "routing_key_host raw = bind_result (normalize_host raw) (\<lambda>h. Ok (Host h))"

definition is_reserved_subdomain :: "string \<Rightarrow> bool" where
  "is_reserved_subdomain label \<longleftrightarrow>
     list_ex (\<lambda>reserved. eq_ignore_ascii_case reserved label) RESERVED_SUBDOMAINS"

definition label_char :: "char \<Rightarrow> bool" where
  "label_char b \<longleftrightarrow> is_ascii_lowercase b \<or> is_ascii_digit b \<or> b = CHR ''-''"

definition validate_subdomain_syntax :: "string \<Rightarrow> (string, error) result" where
  "validate_subdomain_syntax label =
     (let lowered = to_ascii_lowercase (trim label) in
      if lowered = [] then Err (InvalidRoute ''subdomain must not be empty'')
      else if length lowered > MAX_LABEL_LEN
      then Err (InvalidRoute (''subdomain must be at most '' @ show_nat MAX_LABEL_LEN @ '' characters''))
      else if \<not> list_all label_char lowered
      then Err (InvalidRoute ''subdomain may only contain a-z, 0-9 and hyphen'')
      else if starts_with lowered ''-'' \<or> ends_with lowered ''-''
      then Err (InvalidRoute ''subdomain must not start or end with a hyphen'')
      else if starts_with lowered ''xn--''
      then Err (InvalidRoute ''subdomain must not use the punycode prefix'')
      else Ok lowered)"

definition validate_subdomain :: "string \<Rightarrow> (string, error) result" where
  "validate_subdomain label =
     bind_result (validate_subdomain_syntax label) (\<lambda>lowered.
       if is_reserved_subdomain lowered
       then Err (InvalidRoute (''subdomain `'' @ lowered @ ''` is reserved''))
       else Ok lowered)"

text \<open>\<open>draws\<close> are the \<open>GENERATED_SUBDOMAIN_LEN\<close> values of \<open>rng.random_range(0..len)\<close>.\<close>

definition random_subdomain :: "nat list \<Rightarrow> string" where
  "random_subdomain draws = map (\<lambda>i. SUBDOMAIN_ALPHABET ! i) draws"

definition public_host :: "string \<Rightarrow> string \<Rightarrow> (string, error) result" where
  "public_host subdomain base_domain =
     bind_result (validate_subdomain_syntax subdomain) (\<lambda>label.
     bind_result (normalize_host base_domain) (\<lambda>base.
       let host = label @ ''.'' @ base in
       if length host > 253 then Err (InvalidRoute ''resulting host is too long'') else Ok host))"

definition subdomain_of :: "string \<Rightarrow> string \<Rightarrow> string option" where
  "subdomain_of host base_domain =
     (case result_ok (normalize_host host) of None \<Rightarrow> None | Some h \<Rightarrow>
      (case result_ok (normalize_host base_domain) of None \<Rightarrow> None | Some base \<Rightarrow>
       (case strip_suffix base h of None \<Rightarrow> None | Some rest \<Rightarrow>
        (case strip_suffix ''.'' rest of None \<Rightarrow> None | Some label \<Rightarrow>
          if label = [] \<or> CHR ''.'' \<in> set label then None else Some label))))"

text \<open>The derived order of the key type: host names by their bytes, before every TCP port.\<close>

instantiation routing_key :: linorder
begin

fun less_eq_routing_key :: "routing_key \<Rightarrow> routing_key \<Rightarrow> bool" where
  "less_eq_routing_key (Host a) (Host b) = (a \<le> b)"
| "less_eq_routing_key (Host a) (TcpPort q) = True"
| "less_eq_routing_key (TcpPort p) (Host b) = False"
| "less_eq_routing_key (TcpPort p) (TcpPort q) = (p \<le> q)"

definition less_routing_key :: "routing_key \<Rightarrow> routing_key \<Rightarrow> bool" where
  "less_routing_key a b \<longleftrightarrow> a \<le> b \<and> \<not> b \<le> a"

instance
proof
  fix x y z :: routing_key
  show "x < y \<longleftrightarrow> x \<le> y \<and> \<not> y \<le> x" by (simp add: less_routing_key_def)
  show "x \<le> x" by (cases x) auto
  show "x \<le> y \<Longrightarrow> y \<le> z \<Longrightarrow> x \<le> z" by (cases x; cases y; cases z) auto
  show "x \<le> y \<Longrightarrow> y \<le> x \<Longrightarrow> x = y" by (cases x; cases y) auto
  show "x \<le> y \<or> y \<le> x" by (cases x; cases y) auto
qed

end

section \<open>What the rules mean\<close>

text \<open>The shape of every canonical host, the hosts whose spelling is free of white space at the
  ends and of brackets, and the DNS labels the edge hands out.\<close>

definition canonical_host :: "string \<Rightarrow> bool" where
  "canonical_host h \<longleftrightarrow>
     h \<noteq> [] \<and> length h \<le> 253 \<and> is_ascii h \<and> to_ascii_lowercase h = h \<and> last h \<noteq> CHR ''.'' \<and>
     (hd h = CHR ''['' \<or> CHR '':'' \<notin> set h)"

definition plain_host :: "string \<Rightarrow> bool" where
  "plain_host h \<longleftrightarrow>
     canonical_host h \<and> hd h \<noteq> CHR ''['' \<and> solid (hd h) \<and> solid (last h)"

definition port_suffix :: "string \<Rightarrow> bool" where
  "port_suffix p \<longleftrightarrow> p = [] \<or> (hd p = CHR '':'' \<and> list_all is_ascii_digit (tl p))"

definition dns_label :: "string \<Rightarrow> bool" where
  "dns_label l \<longleftrightarrow>
     l \<noteq> [] \<and> length l \<le> 63 \<and> list_all label_char l \<and> hd l \<noteq> CHR ''-'' \<and> last l \<noteq> CHR ''-'' \<and>
     take 4 l \<noteq> ''xn--''"

fun key_ok :: "routing_key \<Rightarrow> bool" where
  "key_ok (Host h) = canonical_host h"
| "key_ok (TcpPort p) = (p \<noteq> 0)"

section \<open>Lemmas\<close>

lemma lower_special [simp]:
  "lower_char c = CHR ''.'' \<longleftrightarrow> c = CHR ''.''" "lower_char c = CHR '':'' \<longleftrightarrow> c = CHR '':''"
  "lower_char c = CHR ''['' \<longleftrightarrow> c = CHR ''[''" "lower_char c = CHR '']'' \<longleftrightarrow> c = CHR '']''"
  by (rule lower_char_eq_iff; simp add: is_ascii_lowercase_def is_ascii_uppercase_def byte_def)+

lemma lower_special_mem [simp]:
  "CHR '':'' \<in> lower_char ` A \<longleftrightarrow> CHR '':'' \<in> A" "CHR ''.'' \<in> lower_char ` A \<longleftrightarrow> CHR ''.'' \<in> A"
  by (auto simp: image_iff) (metis lower_special(1,2))+

lemma solid_lower_char [simp]: "solid (lower_char c) = solid c"
  by (auto simp: solid_def byte_lower_char is_ascii_uppercase_def)

lemma solid_special [simp]: "solid CHR ''.''" "solid CHR '':''" "solid CHR ''-''"
  by (simp_all add: solid_def byte_def)

lemma solid_digit: "is_ascii_digit c \<Longrightarrow> solid c"
  by (simp add: is_ascii_digit_def solid_def)

lemma label_char_solid: "label_char c \<Longrightarrow> solid c"
  by (auto simp: label_char_def is_ascii_lowercase_def is_ascii_digit_def solid_def byte_def)

lemma label_char_ascii: "label_char c \<Longrightarrow> is_ascii_char c"
  using label_char_solid by (auto simp: solid_def is_ascii_char_def)

lemma label_char_lower: "label_char c \<Longrightarrow> lower_char c = c"
  by (auto simp: label_char_def lower_char_def is_ascii_lowercase_def is_ascii_digit_def
      is_ascii_uppercase_def byte_def)

lemma label_char_not_special:
  "label_char c \<Longrightarrow> c \<noteq> CHR ''.'' \<and> c \<noteq> CHR '':'' \<and> c \<noteq> CHR ''['' \<and> c \<noteq> tab_char"
  by (auto simp: label_char_def is_ascii_lowercase_def is_ascii_digit_def byte_def)

lemma strip_port_Ok:
  assumes "strip_port raw t = Ok w"
  shows "(\<exists>a. w = CHR ''['' # a @ '']'') \<or> (CHR '':'' \<notin> set w \<and> hd (w @ ''.'') \<noteq> CHR ''['')"
proof (cases "strip_prefix ''['' t")
  case None
  have "hd (a @ ''.'') \<noteq> CHR ''[''" if "t = a @ b" for a b
    using None that by (cases a) (auto simp: strip_prefix_None_iff)
  moreover have "CHR '':'' \<notin> set w \<and> (\<exists>b. t = w @ b)"
    using assms None
    by (auto simp: strip_port_def split_once_Some_iff split_once_None_iff
        split: option.splits if_splits)
  ultimately show ?thesis by blast
next
  case (Some rest)
  then have t: "t = CHR ''['' # rest" by (simp add: strip_prefix_Some_iff)
  with assms Some obtain i where i: "find_char CHR '']'' rest = Some i" and w: "w = take (i + 2) t"
    by (auto simp: strip_port_def split: option.splits)
  from i obtain a b where "rest = a @ CHR '']'' # b" "i = length a"
    by (auto simp: find_char_Some_iff)
  with t w have "w = CHR ''['' # a @ '']''" by simp
  then show ?thesis by blast
qed

lemma set_trim_end_matches: "set (trim_end_matches c s) \<subseteq> set s"
  by (auto simp: trim_end_matches_def dest: set_dropWhileD)

lemma hd_trim_end_matches: "trim_end_matches c s \<noteq> [] \<Longrightarrow> hd (trim_end_matches c s) = hd s"
  using trim_end_matches_prefix [of s c] by (metis hd_append2)

lemma normalize_host_OkE:
  assumes "normalize_host raw = Ok h"
  obtains w where "strip_port raw (trim raw) = Ok w" "trim_end_matches CHR ''.'' w \<noteq> []"
    "h = to_ascii_lowercase (trim_end_matches CHR ''.'' w)" "is_ascii h" "length h \<le> 253"
  using assms by (auto simp: normalize_host_def Let_def split: if_splits)

lemma canonical_host_normalize:
  assumes "normalize_host raw = Ok h"
  shows "canonical_host h"
proof -
  let ?d = "trim_end_matches CHR ''.''"
  obtain w where w: "strip_port raw (trim raw) = Ok w" "?d w \<noteq> []"
    "h = to_ascii_lowercase (?d w)" "is_ascii h" "length h \<le> 253"
    using assms by (rule normalize_host_OkE)
  have last: "last h \<noteq> CHR ''.''"
    using w(2,3) last_trim_end_matches [OF w(2)] by (simp add: to_ascii_lowercase_def last_map)
  from strip_port_Ok [OF w(1)] have "hd h = CHR ''['' \<or> CHR '':'' \<notin> set h"
  proof
    assume "\<exists>a. w = CHR ''['' # a @ '']''"
    then obtain a where "w = CHR ''['' # a @ '']''" ..
    then have "hd h = CHR ''[''"
      using w(2,3) hd_trim_end_matches [OF w(2)] by (simp add: to_ascii_lowercase_def hd_map)
    then show ?thesis ..
  next
    assume "CHR '':'' \<notin> set w \<and> hd (w @ ''.'') \<noteq> CHR ''[''"
    then have "CHR '':'' \<notin> set (?d w)" using set_trim_end_matches by blast
    then show ?thesis using w(3) by (simp add: to_ascii_lowercase_def)
  qed
  with w last show ?thesis by (auto simp: canonical_host_def)
qed

lemma strip_port_plain:
  assumes "port_suffix p" "CHR '':'' \<notin> set t" "t \<noteq> []" "hd t \<noteq> CHR ''[''"
  shows "strip_port raw (t @ p) = Ok t"
proof -
  have "strip_prefix ''['' (t @ p) = None"
    using assms(3,4) by (cases t) (auto simp: strip_prefix_None_iff)
  moreover have "split_once CHR '':'' (t @ p) =
      (case p of [] \<Rightarrow> None | _ # ds \<Rightarrow> Some (t, ds))"
    using assms(1,2)
    by (auto simp: split_once_None_iff split_once_Some_iff port_suffix_def split: list.splits)
  ultimately show ?thesis
    using assms(1) by (auto simp: strip_port_def port_suffix_def split: list.splits)
qed

lemma last_port_suffix_solid:
  assumes "port_suffix p" "t \<noteq> []" "solid (last t)"
  shows "solid (last (t @ p))"
proof (cases p)
  case (Cons c ds)
  with assms(1) have "c = CHR '':''" "list_all is_ascii_digit ds" by (auto simp: port_suffix_def)
  then have "list_all solid p" using Cons by (auto simp: list_all_iff solid_digit)
  then show ?thesis using Cons by (simp add: list_all_iff)
qed (use assms in simp)

text \<open>The core of the canonicalisation: white space around it, letter case, root dots and a port
  never change the key.\<close>

lemma normalize_host_spelling:
  assumes h: "plain_host h" and s: "to_ascii_lowercase s = h"
    and a: "padding a" and b: "padding b" and p: "port_suffix p"
  shows "normalize_host (a @ s @ replicate n CHR ''.'' @ p @ b) = Ok h"
proof -
  let ?t = "s @ replicate n CHR ''.''"
  from h s have ne: "s \<noteq> []" by (auto simp: plain_host_def canonical_host_def)
  have hd: "hd s \<noteq> CHR ''[''" "solid (hd s)"
    using h s ne by (auto simp: plain_host_def to_ascii_lowercase_def hd_map)
  have lst: "solid (last s)" "last s \<noteq> CHR ''.''"
    using h s ne by (auto simp: plain_host_def canonical_host_def to_ascii_lowercase_def last_map)
  have colon: "CHR '':'' \<notin> set s"
  proof -
    have "CHR '':'' \<notin> set h" using h by (auto simp: plain_host_def canonical_host_def)
    then show ?thesis using s by (auto simp: to_ascii_lowercase_def)
  qed
  have lt: "solid (last ?t)" using lst(1) ne by (cases n) (simp_all add: last_replicate)
  have "solid (last (?t @ p))"
    using last_port_suffix_solid [OF p _ lt] ne by simp
  then have "trim (a @ (?t @ p) @ b) = ?t @ p"
    using ne hd by (intro trim_pad a b) simp_all
  moreover have "strip_port raw (?t @ p) = Ok ?t" for raw
    using colon ne hd p by (intro strip_port_plain) auto
  moreover have "trim_end_matches CHR ''.'' ?t = s"
    using lst(2) by (intro trim_end_matches_append_last) simp
  moreover have "is_ascii h" "length h \<le> 253"
    using h by (auto simp: plain_host_def canonical_host_def)
  ultimately show ?thesis
    using ne s by (simp add: normalize_host_def)
qed

lemma normalize_host_fixed: "plain_host h \<Longrightarrow> normalize_host h = Ok h"
  using normalize_host_spelling [of h h "[]" "[]" "[]" 0]
  by (auto simp: plain_host_def canonical_host_def port_suffix_def)

lemma validate_subdomain_syntax_Ok_iff:
  "validate_subdomain_syntax label = Ok l \<longleftrightarrow> l = to_ascii_lowercase (trim label) \<and> dns_label l"
proof -
  have sw: "starts_with s ''-'' \<longleftrightarrow> s \<noteq> [] \<and> hd s = CHR ''-''" for s
    by (cases s) (auto simp: starts_with_iff)
  have ew: "ends_with s ''-'' \<longleftrightarrow> s \<noteq> [] \<and> last s = CHR ''-''" for s
    by (cases s rule: rev_cases) (auto simp: ends_with_iff)
  have xn: "starts_with s ''xn--'' \<longleftrightarrow> take 4 s = ''xn--''" for s
    by (simp add: starts_with_take numeral_eq_Suc)
  show ?thesis
    by (auto simp: validate_subdomain_syntax_def dns_label_def MAX_LABEL_LEN_def Let_def sw ew xn)
qed

lemma dns_label_facts:
  assumes "dns_label l"
  shows "trim l = l" "to_ascii_lowercase l = l" "is_ascii l" "CHR ''.'' \<notin> set l"
    "CHR '':'' \<notin> set l" "l \<noteq> []" "hd l \<noteq> CHR ''[''" "solid (hd l)" "length l \<le> 63"
proof -
  have all: "\<And>c. c \<in> set l \<Longrightarrow> label_char c" and ne: "l \<noteq> []"
    using assms by (auto simp: dns_label_def list_all_iff)
  then have "label_char (hd l)" "label_char (last l)" by simp_all
  then show "trim l = l" "hd l \<noteq> CHR ''[''" "solid (hd l)"
    using ne label_char_not_special by (auto intro: trim_solid label_char_solid)
  show "to_ascii_lowercase l = l"
    using all by (simp add: to_ascii_lowercase_def map_idI label_char_lower)
  show "is_ascii l" using all label_char_ascii by (auto simp: is_ascii_def list_all_iff)
  show "CHR ''.'' \<notin> set l" "CHR '':'' \<notin> set l" using all label_char_not_special by blast+
  show "l \<noteq> []" by (rule ne)
  show "length l \<le> 63" using assms by (simp add: dns_label_def)
qed

lemma public_host_Ok_iff:
  "public_host sub base_domain = Ok h \<longleftrightarrow>
     (\<exists>b. dns_label (to_ascii_lowercase (trim sub)) \<and> normalize_host base_domain = Ok b \<and>
          h = to_ascii_lowercase (trim sub) @ ''.'' @ b \<and> length h \<le> 253)"
  by (cases "normalize_host base_domain")
     (auto simp: public_host_def validate_subdomain_syntax_Ok_iff Let_def split: if_splits)

lemma plain_host_child:
  assumes "dns_label l" "plain_host b" "length (l @ ''.'' @ b) \<le> 253"
  shows "plain_host (l @ ''.'' @ b)"
proof -
  have "b \<noteq> []" "CHR '':'' \<notin> set b" "is_ascii b" "to_ascii_lowercase b = b" "last b \<noteq> CHR ''.''"
    "solid (last b)"
    using assms(2) by (auto simp: plain_host_def canonical_host_def)
  then show ?thesis
    using assms(3) dns_label_facts [OF assms(1)]
    by (auto simp: plain_host_def canonical_host_def is_ascii_def to_ascii_lowercase_def
        is_ascii_char_def byte_def)
qed

lemma public_host_plain:
  assumes "public_host sub base_domain = Ok h" "normalize_host base_domain = Ok b" "plain_host b"
  shows "plain_host h"
proof -
  from assms(1,2) have "dns_label (to_ascii_lowercase (trim sub))"
    "h = to_ascii_lowercase (trim sub) @ ''.'' @ b" "length h \<le> 253"
    by (auto simp: public_host_Ok_iff)
  with assms(3) show ?thesis by (simp only: plain_host_child)
qed

lemma subdomain_of_Some_iff:
  "subdomain_of host base_domain = Some l \<longleftrightarrow>
     (\<exists>b. normalize_host base_domain = Ok b \<and> normalize_host host = Ok (l @ ''.'' @ b) \<and>
          l \<noteq> [] \<and> CHR ''.'' \<notin> set l)"
proof
  show "subdomain_of host base_domain = Some l \<Longrightarrow> \<exists>b. normalize_host base_domain = Ok b \<and>
      normalize_host host = Ok (l @ ''.'' @ b) \<and> l \<noteq> [] \<and> CHR ''.'' \<notin> set l"
    by (auto simp: subdomain_of_def strip_suffix_Some_iff split: option.splits if_splits)
next
  assume "\<exists>b. normalize_host base_domain = Ok b \<and>
      normalize_host host = Ok (l @ ''.'' @ b) \<and> l \<noteq> [] \<and> CHR ''.'' \<notin> set l"
  then obtain b where "normalize_host base_domain = Ok b"
    "normalize_host host = Ok ((l @ ''.'') @ b)" "l \<noteq> []" "CHR ''.'' \<notin> set l"
    by auto
  then show "subdomain_of host base_domain = Some l"
    unfolding subdomain_of_def by (simp del: append_assoc)
qed

lemma random_subdomain_label:
  assumes "length draws = GENERATED_SUBDOMAIN_LEN"
    and "set draws \<subseteq> {..<length SUBDOMAIN_ALPHABET}"
  shows "dns_label (random_subdomain draws)" "length (random_subdomain draws) = 12"
proof -
  let ?l = "random_subdomain draws"
  show len: "length ?l = 12"
    using assms(1) by (simp add: random_subdomain_def GENERATED_SUBDOMAIN_LEN_def)
  have "list_all (\<lambda>c. label_char c \<and> c \<noteq> CHR ''-'') SUBDOMAIN_ALPHABET" by code_simp
  then have alpha: "\<And>c. c \<in> set SUBDOMAIN_ALPHABET \<Longrightarrow> label_char c \<and> c \<noteq> CHR ''-''"
    unfolding list_all_iff by blast
  have all: "label_char c \<and> c \<noteq> CHR ''-''" if "c \<in> set ?l" for c
  proof -
    from that obtain i where "i \<in> set draws" "c = SUBDOMAIN_ALPHABET ! i"
      unfolding random_subdomain_def by auto
    with assms(2) have "c \<in> set SUBDOMAIN_ALPHABET" by auto
    then show ?thesis by (rule alpha)
  qed
  have hyphen: "CHR ''-'' \<notin> set ?l" using all by blast
  have ne: "?l \<noteq> []" using len by auto
  have "hd ?l \<noteq> CHR ''-''" "last ?l \<noteq> CHR ''-''"
    using hyphen ne by (metis hd_in_set, metis last_in_set)
  moreover have "take 4 ?l \<noteq> ''xn--''"
  proof
    assume "take 4 ?l = ''xn--''"
    then have "CHR ''-'' \<in> set (take 4 ?l)" by simp
    with hyphen show False by (meson in_set_takeD)
  qed
  ultimately show "dns_label ?l"
    using all len ne by (simp add: dns_label_def list_all_iff)
qed

lemma reserved_lengths: "is_reserved_subdomain l \<Longrightarrow> length l \<le> 9"
proof -
  have "list_all (\<lambda>r. length r \<le> 9) RESERVED_SUBDOMAINS" by code_simp
  moreover assume "is_reserved_subdomain l"
  ultimately show ?thesis
    by (auto simp: is_reserved_subdomain_def eq_ignore_ascii_case_def list_ex_iff list_all_iff)
       (metis length_to_ascii_lowercase)
qed

lemma storage_key_tcp_not_host: "\<not> canonical_host (as_storage_key (TcpPort p))"
  by (simp add: canonical_host_def)

section \<open>Properties\<close>

text \<open>C27. Registration and lookup agree on the key. Whatever subdomain a tunnel was registered
  under, a request whose \<open>Host\<close> spells the resulting public host with any letter case, any
  surrounding white space, any number of root dots and any numeric port is looked up under exactly
  the storage key that the registration claimed, provided the normalised base domain has no
  brackets, colons or white space at its ends.\<close>

theorem registered_host_is_looked_up:
  assumes "public_host sub base_domain = Ok h" and "normalize_host base_domain = Ok base"
    and "plain_host base" and "to_ascii_lowercase s = h"
    and "padding a" and "padding b" and "port_suffix p"
  shows "normalize_host (a @ s @ replicate n CHR ''.'' @ p @ b) = Ok (as_storage_key (Host h))"
proof -
  have "plain_host h" using assms(1-3) by (rule public_host_plain)
  then show ?thesis
    using normalize_host_spelling [OF _ assms(4-7)] by simp
qed

theorem registered_host_is_looked_up_witness:
  "normalize_host ('' '' @ ''My-App.Tunnel.COM'' @ replicate 1 CHR ''.'' @ '':8080'' @ '' '') =
     Ok (as_storage_key (Host ''my-app.tunnel.com''))"
proof (rule registered_host_is_looked_up [where sub = "''my-app''" and base_domain = "''tunnel.com''"
      and base = "''tunnel.com''"])
  show "public_host ''my-app'' ''tunnel.com'' = Ok ''my-app.tunnel.com''" by code_simp
  show "normalize_host ''tunnel.com'' = Ok ''tunnel.com''" by code_simp
  show "plain_host ''tunnel.com''" by code_simp
  show "to_ascii_lowercase ''My-App.Tunnel.COM'' = ''my-app.tunnel.com''" by code_simp
  show "padding '' ''" "padding '' ''"
    unfolding padding_def by (rule exI [of _ "['' '']"], simp add: white_space_def)+
  show "port_suffix '':8080''" by code_simp
qed

text \<open>Every key that \<open>normalize_host\<close> produces is non-empty lowercase ASCII of at most 253
  bytes without a trailing root dot, and carries a colon only inside an IPv6 literal, so no host
  can ever collide with the \<open>tcp:PORT\<close> keys.\<close>

lemma normalize_host_canonical:
  assumes "normalize_host raw = Ok h"
  shows "canonical_host h \<and> h \<noteq> as_storage_key (TcpPort p)"
  using canonical_host_normalize [OF assms] storage_key_tcp_not_host by auto

text \<open>Two well-formed routing keys with the same storage key are the same key: one row of the
  routing table never stands for two tunnels' identities.\<close>

lemma as_storage_key_injective:
  assumes "key_ok k" and "key_ok k'" and "as_storage_key k = as_storage_key k'"
  shows "k = k'"
proof (cases k; cases k')
  fix p q
  assume k: "k = TcpPort p" "k' = TcpPort q"
  with assms(3) have "unat p = unat q" by simp
  then have "p = q" by (simp add: word_unat_eq_iff)
  with k show ?thesis by simp
qed (use assms storage_key_tcp_not_host in \<open>force+\<close>)

lemma as_storage_key_injective_witness:
  "TcpPort 41235 = TcpPort (41234 + 1)"
  by (rule as_storage_key_injective) simp_all

text \<open>\<open>public_host\<close> and \<open>subdomain_of\<close> are inverse: the label recovered from a public host is the
  trimmed, lowercased label that was registered, and the host is its own canonical form.\<close>

lemma public_host_subdomain_of_inverse:
  assumes "public_host sub base_domain = Ok h" and "normalize_host base_domain = Ok base"
    and "plain_host base"
  shows "subdomain_of h base_domain = Some (to_ascii_lowercase (trim sub)) \<and> normalize_host h = Ok h"
proof -
  let ?l = "to_ascii_lowercase (trim sub)"
  from assms(1,2) have l: "dns_label ?l" and h: "h = ?l @ ''.'' @ base"
    by (auto simp: public_host_Ok_iff)
  have "normalize_host h = Ok h"
    by (rule normalize_host_fixed [OF public_host_plain [OF assms]])
  then show ?thesis
    using assms(2) h dns_label_facts [OF l] by (simp add: subdomain_of_Some_iff)
qed

lemma public_host_subdomain_of_inverse_witness:
  "subdomain_of ''my-app.tunnel.com'' ''Tunnel.com.'' = Some (to_ascii_lowercase (trim '' My-App '')) \<and>
   normalize_host ''my-app.tunnel.com'' = Ok ''my-app.tunnel.com''"
proof (rule public_host_subdomain_of_inverse [where base = "''tunnel.com''"])
  show "public_host '' My-App '' ''Tunnel.com.'' = Ok ''my-app.tunnel.com''" by code_simp
  show "normalize_host ''Tunnel.com.'' = Ok ''tunnel.com''" by code_simp
  show "plain_host ''tunnel.com''" by code_simp
qed

text \<open>\<open>subdomain_of\<close> answers exactly for direct children: it returns a label if and only if the
  canonical host is that dot-free label, a dot, and the canonical base. A nested host, the base
  itself and a host that merely ends with the same text are never taken for one of our tunnels.\<close>

lemma subdomain_of_direct_children_only:
  "subdomain_of host base_domain = Some l \<longleftrightarrow>
     (\<exists>b. normalize_host base_domain = Ok b \<and> normalize_host host = Ok (l @ ''.'' @ b) \<and>
          l \<noteq> [] \<and> CHR ''.'' \<notin> set l)"
  by (rule subdomain_of_Some_iff)

text \<open>A user's subdomain request is accepted exactly when its trimmed, lowercased form is a
  DNS label (letters, digits and inner hyphens, at most 63 bytes, no punycode marker) that is not on
  the reserved list, and the accepted label is that form.\<close>

lemma validate_subdomain_accepts_exactly:
  "validate_subdomain label = Ok l \<longleftrightarrow>
     l = to_ascii_lowercase (trim label) \<and> dns_label l \<and> \<not> is_reserved_subdomain l"
  by (auto simp: validate_subdomain_def validate_subdomain_syntax_Ok_iff)

text \<open>Whatever the random source draws, a generated subdomain passes the full validation: it is
  a DNS label and is never one of the reserved words.\<close>

lemma random_subdomain_always_valid:
  assumes "length draws = GENERATED_SUBDOMAIN_LEN"
    and "set draws \<subseteq> {..<length SUBDOMAIN_ALPHABET}"
  shows "validate_subdomain (random_subdomain draws) = Ok (random_subdomain draws)"
proof -
  let ?l = "random_subdomain draws"
  have l: "dns_label ?l" and "length ?l = 12"
    using random_subdomain_label [OF assms] .
  then have "\<not> is_reserved_subdomain ?l" using reserved_lengths [of ?l] by auto
  then show ?thesis
    using l dns_label_facts [OF l]
    by (simp add: validate_subdomain_def validate_subdomain_syntax_Ok_iff)
qed

lemma random_subdomain_always_valid_witness:
  "validate_subdomain (random_subdomain (replicate 12 31)) = Ok (random_subdomain (replicate 12 31))"
  by (rule random_subdomain_always_valid)
     (simp_all add: GENERATED_SUBDOMAIN_LEN_def SUBDOMAIN_ALPHABET_def)

text \<open>Canonicalisation is not idempotent: a root dot that follows white space leaves a key with
  trailing white space, which a second pass maps to a different key.\<close>

lemma normalize_host_not_idempotent:
  "normalize_host ''a .'' = Ok ''a '' \<and> normalize_host ''a '' = Ok ''a''"
  by code_simp

end
