(* ===== verification/Auth.thy ===== *)
theory Auth
  imports Routing
begin

text \<open>
  \<open>crates/norupo-core/src/auth.rs\<close>: principals, their quotas, what they may claim, and the static
  token table that is the code's \<open>AuthProvider\<close>. The locale \<open>auth_provider\<close> states what the trait
  demands of every implementation; the static table is interpreted as one.
\<close>

section \<open>Model\<close>

record limits =
  max_tunnels :: u32
  max_concurrent_streams :: u32
  max_bytes_per_second :: u64

definition default_limits :: limits where
  "default_limits = \<lparr>max_tunnels = 8, max_concurrent_streams = 512, max_bytes_per_second = 0\<rparr>"

record principal =
  account_id :: string
  display_name :: string
  reserved_subdomains :: "string list"
  custom_domains :: "string list"
  principal_limits :: limits

definition may_claim_subdomain :: "principal \<Rightarrow> string \<Rightarrow> bool" where
  "may_claim_subdomain p subdomain \<longleftrightarrow>
     list_ex (\<lambda>s. eq_ignore_ascii_case s subdomain) (reserved_subdomains p)"

definition domain_allowed :: "string \<Rightarrow> string \<Rightarrow> bool" where
  "domain_allowed allowed domain =
     (case strip_prefix ''*.'' allowed of
        Some suffix \<Rightarrow>
          (case strip_suffix suffix domain of
             None \<Rightarrow> False
           | Some head \<Rightarrow> ends_with head ''.'' \<and> length head > 1)
      | None \<Rightarrow> eq_ignore_ascii_case allowed domain)"

definition may_use_custom_domain :: "principal \<Rightarrow> string \<Rightarrow> bool" where
  "may_use_custom_domain p domain \<longleftrightarrow> list_ex (\<lambda>allowed. domain_allowed allowed domain) (custom_domains p)"

record static_token_auth =
  tokens :: "string \<rightharpoonup> principal"
  allow_anonymous :: bool

definition static_token_auth_new :: "(string \<rightharpoonup> principal) \<Rightarrow> static_token_auth" where
  "static_token_auth_new toks = \<lparr>tokens = toks, allow_anonymous = False\<rparr>"

definition static_token_auth_anonymous :: static_token_auth where
  "static_token_auth_anonymous = \<lparr>tokens = Map.empty, allow_anonymous = True\<rparr>"

definition anonymous_principal :: principal where
  "anonymous_principal =
     \<lparr>account_id = ''anonymous'', display_name = ''anonymous'', reserved_subdomains = [],
      custom_domains = [], principal_limits = default_limits\<rparr>"

definition authenticate :: "static_token_auth \<Rightarrow> string \<Rightarrow> (principal, error) result" where
  "authenticate auth token =
     (case tokens auth token of
        Some p \<Rightarrow> Ok p
      | None \<Rightarrow> if allow_anonymous auth then Ok anonymous_principal
                else Err (Unauthorized ''unknown or revoked token''))"

section \<open>The provider interface\<close>

text \<open>What the trait's documentation asks of every provider: a refusal is an \<open>Unauthorized\<close>, and
  two refusals are indistinguishable, so the endpoint is no token oracle. Everything a client of
  the interface may conclude is proved from these two laws.\<close>

locale auth_provider =
  fixes provider_authenticate :: "'a \<Rightarrow> string \<Rightarrow> (principal, error) result"
  assumes refusal_unauthorized:
      "provider_authenticate a token = Err e \<Longrightarrow> error_code e = ''unauthorized''"
    and refusals_uniform:
      "provider_authenticate a t1 = Err e1 \<Longrightarrow> provider_authenticate a t2 = Err e2 \<Longrightarrow> e1 = e2"
begin

lemma refusal_not_retryable: "provider_authenticate a token = Err e \<Longrightarrow> \<not> is_retryable e"
  using refusal_unauthorized [of a token e] by (simp add: retryable_iff_code)

lemma refusal_text_uniform:
  "provider_authenticate a t1 = Err e1 \<Longrightarrow> provider_authenticate a t2 = Err e2 \<Longrightarrow>
     error_to_string e1 = error_to_string e2"
  using refusals_uniform by blast

end

interpretation static_auth: auth_provider authenticate
  by unfold_locales (auto simp: authenticate_def split: option.splits if_splits)

section \<open>Lemmas\<close>

lemma authenticate_Ok_iff:
  "authenticate auth token = Ok p \<longleftrightarrow>
     tokens auth token = Some p \<or>
     (tokens auth token = None \<and> allow_anonymous auth \<and> p = anonymous_principal)"
  by (auto simp: authenticate_def split: option.splits)

lemma domain_allowed_wildcard_iff:
  "domain_allowed (''*.'' @ suffix) domain \<longleftrightarrow> (\<exists>x. x \<noteq> [] \<and> domain = x @ ''.'' @ suffix)"
proof -
  have "strip_prefix ''*.'' (''*.'' @ suffix) = Some suffix" by simp
  then have "domain_allowed (''*.'' @ suffix) domain \<longleftrightarrow>
      (\<exists>head. domain = head @ suffix \<and> ends_with head ''.'' \<and> length head > 1)"
    by (auto simp: domain_allowed_def strip_suffix_Some_iff split: option.splits)
  also have "\<dots> \<longleftrightarrow> (\<exists>x. x \<noteq> [] \<and> domain = x @ ''.'' @ suffix)"
    by (auto simp: ends_with_iff)
  finally show ?thesis .
qed

lemma domain_allowed_exact:
  "strip_prefix ''*.'' allowed = None \<Longrightarrow>
     domain_allowed allowed domain \<longleftrightarrow> to_ascii_lowercase allowed = to_ascii_lowercase domain"
  by (simp add: domain_allowed_def eq_ignore_ascii_case_def)

lemma domain_allowed_cases:
  "domain_allowed allowed domain \<longleftrightarrow>
     (\<exists>suffix x. allowed = ''*.'' @ suffix \<and> x \<noteq> [] \<and> domain = x @ ''.'' @ suffix) \<or>
     (\<not> starts_with allowed ''*.'' \<and> to_ascii_lowercase allowed = to_ascii_lowercase domain)"
proof (cases "strip_prefix ''*.'' allowed")
  case None
  then show ?thesis
    by (auto simp: domain_allowed_exact starts_with_def strip_prefix_None_iff)
next
  case (Some suffix)
  then have a: "allowed = ''*.'' @ suffix" by (simp only: strip_prefix_Some_iff)
  show ?thesis unfolding a domain_allowed_wildcard_iff by (auto simp: starts_with_iff)
qed

section \<open>Properties\<close>

text \<open>A custom domain is granted exactly when some entry of the verified list covers it: a
  plain entry covers itself up to ASCII case, and a wildcard entry covers the hosts made of a
  non-empty prefix, a dot and the entry's suffix, byte for byte. The bare parent of a wildcard and
  a host that merely ends with the same text are therefore not covered by it.\<close>

lemma may_use_custom_domain_exactly:
  "may_use_custom_domain p domain \<longleftrightarrow>
     (\<exists>allowed \<in> set (custom_domains p).
        (\<exists>suffix x. allowed = ''*.'' @ suffix \<and> x \<noteq> [] \<and> domain = x @ ''.'' @ suffix) \<or>
        (\<not> starts_with allowed ''*.'' \<and> to_ascii_lowercase allowed = to_ascii_lowercase domain))"
  by (simp add: may_use_custom_domain_def list_ex_iff domain_allowed_cases)

text \<open>The static provider admits a token exactly when it is in the table, with that entry's
  principal, or when anonymous mode is on, as the unprivileged anonymous principal; every refusal
  is the same non-retryable error, whatever the token.\<close>

lemma authenticate_exactly:
  "(authenticate auth token = Ok p \<longleftrightarrow>
      tokens auth token = Some p \<or>
      (tokens auth token = None \<and> allow_anonymous auth \<and> p = anonymous_principal)) \<and>
   (authenticate auth t1 = Err e1 \<longrightarrow> authenticate auth t2 = Err e2 \<longrightarrow> e1 = e2 \<and> \<not> is_retryable e1)"
  using authenticate_Ok_iff static_auth.refusals_uniform static_auth.refusal_not_retryable by blast

lemma authenticate_exactly_witness:
  "authenticate (static_token_auth_new Map.empty) ''tok_bad'' =
     Err (Unauthorized ''unknown or revoked token'') \<and>
   \<not> is_retryable (Unauthorized ''unknown or revoked token'')"
proof -
  let ?a = "static_token_auth_new Map.empty"
  let ?e = "Unauthorized ''unknown or revoked token''"
  have "authenticate ?a ''tok_bad'' = Err ?e" "authenticate ?a ''tok_worse'' = Err ?e"
    by (simp_all add: authenticate_def static_token_auth_new_def)
  then show ?thesis
    using authenticate_exactly [of ?a "''t''" p "''tok_bad''" ?e "''tok_worse''" ?e] by blast
qed

end
