(* ===== verification/Session.thy ===== *)
theory Session
  imports Proto Tokio Auth
begin

text \<open>
  \<open>norupo-server/src/session.rs\<close>: one connected agent and the streams multiplexed over its connection,
  and the table of all sessions of a node.

  Every \<open>async fn\<close> is a task over the session, with one atomic step per access to a shared object
  (an atomic counter, a \<open>DashMap\<close> operation, a channel or semaphore operation), so that the steps of
  the ingress tasks, the control-plane read loop and the heartbeat interleave as they do in the
  server. A \<open>Stream\<close> sits behind an \<open>Arc\<close>: it lives in \<open>stream_heap\<close>, the table \<open>streams\<close> maps a stream
  id to its address, and a task that cloned the credit semaphore keeps the address. The queue
  towards the agent, the body queues, the response-head slots and the credit semaphores are Tokio's,
  and come in as the record \<open>runtime\<close>.
\<close>

section \<open>Model\<close>

definition MAX_CHUNK :: nat where
  "MAX_CHUNK = 64 * 1024"

definition STREAM_BUFFER_FRAMES :: nat where
  "STREAM_BUFFER_FRAMES = 16"

definition OUTBOUND_QUEUE :: nat where
  "OUTBOUND_QUEUE = 1024"

datatype chunk =
    ChunkData bytes
  | ChunkEnd "header list"
  | ChunkReset reset_code string

type_synonym outbound_item = "(server_frame, status) result"

record ('m, 'qo, 'qb, 'o) runtime =
  rt_sem :: "'m sem_ops"
  rt_out :: "('qo, outbound_item) chan_ops"
  rt_body :: "('qb, chunk) chan_ops"
  rt_once :: "('o, http_response_head) once_ops"

record ('m, 'qb, 'o) stream =
  head_tx :: bool
  head_slot :: 'o
  body :: 'qb
  send_credit :: 'm
  stream_closed :: bool

record stream_response =
  resp_stream_id :: u64
  resp_stream :: nat

record tunnel =
  tunnel_id :: string
  tunnel_routing_key :: string
  tunnel_public_url :: string

record ('m, 'qo, 'qb, 'o) session =
  session_id :: string
  session_node_id :: string
  session_principal :: principal
  outbound :: 'qo
  stream_heap :: "('m, 'qb, 'o) stream list"
  streams :: "u64 \<rightharpoonup> nat"
  tunnels :: "string \<rightharpoonup> tunnel"
  next_stream_id :: u64
  initial_window :: u32
  open_streams :: u64

datatype open_error = SessionGone | TooManyStreams u32

definition session_new ::
    "('m, 'qo, 'qb, 'o) runtime \<Rightarrow> string \<Rightarrow> string \<Rightarrow> principal \<Rightarrow> u32 \<Rightarrow> ('m, 'qo, 'qb, 'o) session" where
  "session_new R sid node p window =
     \<lparr>session_id = sid, session_node_id = node, session_principal = p,
      outbound = chan_new (rt_out R) OUTBOUND_QUEUE, stream_heap = [], streams = Map.empty,
      tunnels = Map.empty, next_stream_id = 1, initial_window = window, open_streams = 0\<rparr>"

definition session_send ::
    "('m, 'qo, 'qb, 'o) runtime \<Rightarrow> server_frame \<Rightarrow> (('m, 'qo, 'qb, 'o) session, bool) task" where
  "session_send R frame =
     await (\<lambda>s. case chan_send (rt_out R) (outbound s) (Ok frame) of
        Ready q \<Rightarrow> Some (s\<lparr>outbound := q\<rparr>, True)
      | Gone \<Rightarrow> Some (s, False)
      | NotReady \<Rightarrow> None)"

definition session_try_send ::
    "('m, 'qo, 'qb, 'o) runtime \<Rightarrow> server_frame \<Rightarrow> (('m, 'qo, 'qb, 'o) session, bool) task" where
  "session_try_send R frame =
     atomically (\<lambda>s. case chan_try_send (rt_out R) (outbound s) (Ok frame) of
        Some q \<Rightarrow> (s\<lparr>outbound := q\<rparr>, True)
      | None \<Rightarrow> (s, False))"

text \<open>Iterating over a \<open>DashMap\<close> visits its entries in some order: \<open>keys\<close> gives the order of a table.\<close>

definition session_tunnels ::
    "((string \<rightharpoonup> tunnel) \<Rightarrow> string list) \<Rightarrow> ('m, 'qo, 'qb, 'o) session \<Rightarrow> tunnel list" where
  "session_tunnels keys s = List.map_filter (tunnels s) (keys (tunnels s))"

definition session_tunnel_count :: "('m, 'qo, 'qb, 'o) session \<Rightarrow> nat" where
  "session_tunnel_count s = card (dom (tunnels s))"

definition insert_tunnel :: "tunnel \<Rightarrow> ('m, 'qo, 'qb, 'o) session \<Rightarrow> ('m, 'qo, 'qb, 'o) session" where
  "insert_tunnel t s = s\<lparr>tunnels := (tunnels s)(tunnel_id t \<mapsto> t)\<rparr>"

definition remove_tunnel ::
    "string \<Rightarrow> ('m, 'qo, 'qb, 'o) session \<Rightarrow> ('m, 'qo, 'qb, 'o) session \<times> tunnel option" where
  "remove_tunnel tid s = (s\<lparr>tunnels := (tunnels s)(tid := None)\<rparr>, tunnels s tid)"

definition open_stream_count :: "('m, 'qo, 'qb, 'o) session \<Rightarrow> u64" where
  "open_stream_count s = open_streams s"

text \<open>Writing one object of the heap.\<close>

definition set_stream ::
    "nat \<Rightarrow> (('m, 'qb, 'o) stream \<Rightarrow> ('m, 'qb, 'o) stream) \<Rightarrow>
     ('m, 'qo, 'qb, 'o) session \<Rightarrow> ('m, 'qo, 'qb, 'o) session" where
  "set_stream a f s = s\<lparr>stream_heap := (stream_heap s)[a := f (stream_heap s ! a)]\<rparr>"

text \<open>When the last handle of a stream goes, so do its two senders.\<close>

definition drop_stream_senders ::
    "('m, 'qo, 'qb, 'o) runtime \<Rightarrow> ('m, 'qb, 'o) stream \<Rightarrow> ('m, 'qb, 'o) stream" where
  "drop_stream_senders R st =
     st\<lparr>head_tx := False,
        head_slot := (if head_tx st then once_drop_tx (rt_once R) (head_slot st) else head_slot st),
        body := chan_drop_tx (rt_body R) (body st)\<rparr>"

definition close_stream ::
    "('m, 'qo, 'qb, 'o) runtime \<Rightarrow> u64 \<Rightarrow> (('m, 'qo, 'qb, 'o) session, unit) task" where
  "close_stream R sid =
     call (atomically (\<lambda>s. (s\<lparr>streams := (streams s)(sid := None)\<rparr>, streams s sid))) (\<lambda>removed.
       case removed of
         None \<Rightarrow> Return ()
       | Some a \<Rightarrow>
           call (update (set_stream a (\<lambda>st. st\<lparr>stream_closed := True\<rparr>))) (\<lambda>_.
           call (update (set_stream a (\<lambda>st. st\<lparr>send_credit := sem_close (rt_sem R) (send_credit st)\<rparr>))) (\<lambda>_.
           call (update (\<lambda>s. s\<lparr>open_streams := open_streams s - 1\<rparr>)) (\<lambda>_.
             update (set_stream a (drop_stream_senders R))))))"

text \<open>What dropping the two receivers of a \<open>StreamResponse\<close> does.\<close>

definition drop_head_receiver ::
    "('m, 'qo, 'qb, 'o) runtime \<Rightarrow> nat \<Rightarrow> (('m, 'qo, 'qb, 'o) session, unit) task" where
  "drop_head_receiver R st = update (set_stream st (\<lambda>x. x\<lparr>head_slot := once_drop_rx (rt_once R) (head_slot x)\<rparr>))"

definition drop_body_receiver ::
    "('m, 'qo, 'qb, 'o) runtime \<Rightarrow> nat \<Rightarrow> (('m, 'qo, 'qb, 'o) session, unit) task" where
  "drop_body_receiver R st = update (set_stream st (\<lambda>x. x\<lparr>body := chan_drop_rx (rt_body R) (body x)\<rparr>))"

definition fresh_stream ::
    "('m, 'qo, 'qb, 'o) runtime \<Rightarrow> u32 \<Rightarrow> ('m, 'qb, 'o) stream" where
  "fresh_stream R window =
     \<lparr>head_tx = True, head_slot = once_new (rt_once R), body = chan_new (rt_body R) STREAM_BUFFER_FRAMES,
      send_credit = sem_new (rt_sem R) (unat window), stream_closed = False\<rparr>"

definition at_stream_limit :: "('m, 'qo, 'qb, 'o) session \<Rightarrow> bool" where
  "at_stream_limit s \<longleftrightarrow>
     (let limit = max_concurrent_streams (principal_limits (session_principal s)) in
      0 < limit \<and> unat limit \<le> unat (open_streams s))"

definition open_http_stream ::
    "('m, 'qo, 'qb, 'o) runtime \<Rightarrow> string \<Rightarrow> http_request_head \<Rightarrow> string \<Rightarrow>
     (('m, 'qo, 'qb, 'o) session, (stream_response, open_error) result) task" where
  "open_http_stream R tid head remote_addr =
     call (read (\<lambda>s. (at_stream_limit s, max_concurrent_streams (principal_limits (session_principal s))))) (\<lambda>(full, limit).
     if full then Return (Err (TooManyStreams limit)) else
     call (atomically (\<lambda>s. (s\<lparr>next_stream_id := next_stream_id s + 1\<rparr>, next_stream_id s))) (\<lambda>sid.
     call (atomically (\<lambda>s. (s\<lparr>stream_heap := stream_heap s @ [fresh_stream R (initial_window s)],
                              streams := (streams s)(sid \<mapsto> length (stream_heap s))\<rparr>,
                            length (stream_heap s)))) (\<lambda>a.
     call (update (\<lambda>s. s\<lparr>open_streams := open_streams s + 1\<rparr>)) (\<lambda>_.
     call (read initial_window) (\<lambda>window.
     call (session_send R (Some (SOpen \<lparr>so_stream_id = sid, so_tunnel_id = tid,
             so_kind = stream_kind_i32 StreamHttp, so_http = Some head, so_remote_addr = remote_addr,
             so_initial_window = window\<rparr>))) (\<lambda>opened.
     if \<not> opened then
       call (close_stream R sid) (\<lambda>_.
       call (drop_body_receiver R a) (\<lambda>_.
       call (drop_head_receiver R a) (\<lambda>_. Return (Err SessionGone))))
     else Return (Ok \<lparr>resp_stream_id = sid, resp_stream = a\<rparr>)))))))"

text \<open>\<open>split_chunks\<close>: \<open>split_to\<close> takes the front of the payload off.\<close>

function split_loop :: "bytes \<Rightarrow> bytes list" where
  "split_loop payload =
     (if MAX_CHUNK < length payload then take MAX_CHUNK payload # split_loop (drop MAX_CHUNK payload)
      else [payload])"
  by pat_completeness auto
termination
  by (relation "measure length") (auto simp: MAX_CHUNK_def)

declare split_loop.simps [simp del]

definition split_chunks :: "bytes \<Rightarrow> bytes list" where
  "split_chunks payload = (if length payload \<le> MAX_CHUNK then [payload] else split_loop payload)"

definition acquire_credit ::
    "('m, 'qo, 'qb, 'o) runtime \<Rightarrow> nat \<Rightarrow> nat \<Rightarrow> (('m, 'qo, 'qb, 'o) session, bool) task" where
  "acquire_credit R a n =
     await (\<lambda>s. case sem_acquire (rt_sem R) (send_credit (stream_heap s ! a)) n of
        Ready m \<Rightarrow> Some (set_stream a (\<lambda>st. st\<lparr>send_credit := m\<rparr>) s, True)
      | Gone \<Rightarrow> Some (s, False)
      | NotReady \<Rightarrow> None)"

primrec send_chunks ::
    "('m, 'qo, 'qb, 'o) runtime \<Rightarrow> nat \<Rightarrow> u64 \<Rightarrow> bytes list \<Rightarrow> (('m, 'qo, 'qb, 'o) session, bool) task" where
  "send_chunks R a sid [] = Return True"
| "send_chunks R a sid (chunk # chunks) =
     call (acquire_credit R a (unat (u32_saturating (length chunk)))) (\<lambda>ok.
     if \<not> ok then Return False else
     call (session_send R (Some (SData \<lparr>sd_stream_id = sid, sd_payload = chunk\<rparr>))) (\<lambda>sent.
     if \<not> sent then Return False else send_chunks R a sid chunks))"

definition send_stream_data ::
    "('m, 'qo, 'qb, 'o) runtime \<Rightarrow> u64 \<Rightarrow> bytes \<Rightarrow> (('m, 'qo, 'qb, 'o) session, bool) task" where
  "send_stream_data R sid payload =
     call (read (\<lambda>s. streams s sid)) (\<lambda>stream.
       case stream of None \<Rightarrow> Return False | Some a \<Rightarrow> send_chunks R a sid (split_chunks payload))"

definition send_stream_end ::
    "('m, 'qo, 'qb, 'o) runtime \<Rightarrow> u64 \<Rightarrow> (('m, 'qo, 'qb, 'o) session, bool) task" where
  "send_stream_end R sid = session_send R (Some (SEnd \<lparr>se_stream_id = sid, se_trailers = []\<rparr>))"

definition grant_window ::
    "('m, 'qo, 'qb, 'o) runtime \<Rightarrow> u64 \<Rightarrow> u32 \<Rightarrow> (('m, 'qo, 'qb, 'o) session, bool) task" where
  "grant_window R sid increment =
     (if increment = 0 then Return True
      else session_send R (Some (SWindowUpdate \<lparr>wu_stream_id = sid, wu_increment = increment\<rparr>)))"

definition reset_stream ::
    "('m, 'qo, 'qb, 'o) runtime \<Rightarrow> u64 \<Rightarrow> reset_code \<Rightarrow> string \<Rightarrow> (('m, 'qo, 'qb, 'o) session, unit) task" where
  "reset_stream R sid code message =
     call (close_stream R sid) (\<lambda>_.
     call (session_send R (Some (SReset \<lparr>sr_stream_id = sid, sr_code = reset_code_i32 code, sr_message = message\<rparr>)))
       (\<lambda>_. Return ()))"

definition on_response_head ::
    "('m, 'qo, 'qb, 'o) runtime \<Rightarrow> http_response_head \<Rightarrow> (('m, 'qo, 'qb, 'o) session, unit) task" where
  "on_response_head R head =
     update (\<lambda>s. case streams s (rh_stream_id head) of
        None \<Rightarrow> s
      | Some a \<Rightarrow>
          if head_tx (stream_heap s ! a)
          then set_stream a (\<lambda>st. st\<lparr>head_tx := False, head_slot := once_send (rt_once R) (head_slot st) head\<rparr>) s
          else s)"

text \<open>\<open>stream_body_sender\<close> clones the sender of a stream that is still in the table and not closed.\<close>

definition stream_body_sender ::
    "('m, 'qo, 'qb, 'o) runtime \<Rightarrow> u64 \<Rightarrow> (('m, 'qo, 'qb, 'o) session, nat option) task" where
  "stream_body_sender R sid =
     atomically (\<lambda>s. case streams s sid of
        None \<Rightarrow> (s, None)
      | Some a \<Rightarrow>
          if stream_closed (stream_heap s ! a) then (s, None)
          else (set_stream a (\<lambda>st. st\<lparr>body := chan_clone_tx (rt_body R) (body st)\<rparr>) s, Some a))"

definition body_send ::
    "('m, 'qo, 'qb, 'o) runtime \<Rightarrow> nat \<Rightarrow> chunk \<Rightarrow> (('m, 'qo, 'qb, 'o) session, bool) task" where
  "body_send R a chunk =
     await (\<lambda>s. case chan_send (rt_body R) (body (stream_heap s ! a)) chunk of
        Ready q \<Rightarrow> Some (set_stream a (\<lambda>st. st\<lparr>body := q\<rparr>) s, True)
      | Gone \<Rightarrow> Some (s, False)
      | NotReady \<Rightarrow> None)"

definition drop_body_sender ::
    "('m, 'qo, 'qb, 'o) runtime \<Rightarrow> nat \<Rightarrow> (('m, 'qo, 'qb, 'o) session, unit) task" where
  "drop_body_sender R a = update (set_stream a (\<lambda>st. st\<lparr>body := chan_drop_tx (rt_body R) (body st)\<rparr>))"

definition on_stream_data ::
    "('m, 'qo, 'qb, 'o) runtime \<Rightarrow> u64 \<Rightarrow> bytes \<Rightarrow> (('m, 'qo, 'qb, 'o) session, nat) task" where
  "on_stream_data R sid payload =
     call (stream_body_sender R sid) (\<lambda>tx. case tx of
       None \<Rightarrow> Return 0
     | Some a \<Rightarrow>
         call (body_send R a (ChunkData payload)) (\<lambda>sent.
         if \<not> sent then call (close_stream R sid) (\<lambda>_. call (drop_body_sender R a) (\<lambda>_. Return 0))
         else call (drop_body_sender R a) (\<lambda>_. Return (length payload))))"

definition on_stream_end ::
    "('m, 'qo, 'qb, 'o) runtime \<Rightarrow> u64 \<Rightarrow> header list \<Rightarrow> (('m, 'qo, 'qb, 'o) session, unit) task" where
  "on_stream_end R sid trailers =
     call (stream_body_sender R sid) (\<lambda>tx.
     call (case tx of
         None \<Rightarrow> Return ()
       | Some a \<Rightarrow> call (body_send R a (ChunkEnd trailers)) (\<lambda>_. drop_body_sender R a)) (\<lambda>_.
       close_stream R sid))"

definition on_stream_reset ::
    "('m, 'qo, 'qb, 'o) runtime \<Rightarrow> u64 \<Rightarrow> reset_code \<Rightarrow> string \<Rightarrow> (('m, 'qo, 'qb, 'o) session, unit) task" where
  "on_stream_reset R sid code message =
     call (stream_body_sender R sid) (\<lambda>tx.
     call (case tx of
         None \<Rightarrow> Return ()
       | Some a \<Rightarrow> call (body_send R a (ChunkReset code message)) (\<lambda>_. drop_body_sender R a)) (\<lambda>_.
       close_stream R sid))"

definition on_window_update ::
    "('m, 'qo, 'qb, 'o) runtime \<Rightarrow> u64 \<Rightarrow> u32 \<Rightarrow> (('m, 'qo, 'qb, 'o) session, unit) task" where
  "on_window_update R sid increment =
     access ''a semaphore may not have more than MAX_PERMITS permits'' (\<lambda>s.
       case streams s sid of
         None \<Rightarrow> Some (s, ())
       | Some a \<Rightarrow>
           (case sem_add (rt_sem R) (send_credit (stream_heap s ! a)) (unat increment) of
              None \<Rightarrow> None
            | Some m \<Rightarrow> Some (set_stream a (\<lambda>st. st\<lparr>send_credit := m\<rparr>) s, ())))"

definition close_all_streams ::
    "('m, 'qo, 'qb, 'o) runtime \<Rightarrow> ((u64 \<rightharpoonup> nat) \<Rightarrow> u64 list) \<Rightarrow> (('m, 'qo, 'qb, 'o) session, unit) task" where
  "close_all_streams R keys =
     call (read (\<lambda>s. keys (streams s))) (for_each (close_stream R))"

section \<open>The session table\<close>

text \<open>Sessions sit behind an \<open>Arc\<close>: \<open>session_heap\<close> holds them, \<open>sessions\<close> maps a session id to an address,
  and a handler that got hold of a session keeps the address after the entry is gone.\<close>

record ('m, 'qo, 'qb, 'o) manager =
  session_heap :: "('m, 'qo, 'qb, 'o) session list"
  sessions :: "string \<rightharpoonup> nat"

definition manager_new :: "('m, 'qo, 'qb, 'o) manager" where
  "manager_new = \<lparr>session_heap = [], sessions = Map.empty\<rparr>"

definition manager_insert :: "nat \<Rightarrow> ('m, 'qo, 'qb, 'o) manager \<Rightarrow> ('m, 'qo, 'qb, 'o) manager" where
  "manager_insert a m = m\<lparr>sessions := (sessions m)(session_id (session_heap m ! a) \<mapsto> a)\<rparr>"

definition manager_get :: "string \<Rightarrow> ('m, 'qo, 'qb, 'o) manager \<Rightarrow> nat option" where
  "manager_get sid m = sessions m sid"

definition manager_remove ::
    "string \<Rightarrow> ('m, 'qo, 'qb, 'o) manager \<Rightarrow> ('m, 'qo, 'qb, 'o) manager \<times> nat option" where
  "manager_remove sid m = (m\<lparr>sessions := (sessions m)(sid := None)\<rparr>, sessions m sid)"

definition manager_len :: "('m, 'qo, 'qb, 'o) manager \<Rightarrow> nat" where
  "manager_len m = card (dom (sessions m))"

definition manager_is_empty :: "('m, 'qo, 'qb, 'o) manager \<Rightarrow> bool" where
  "manager_is_empty m \<longleftrightarrow> manager_len m = 0"

definition manager_tunnel_count ::
    "((string \<rightharpoonup> nat) \<Rightarrow> string list) \<Rightarrow> ('m, 'qo, 'qb, 'o) manager \<Rightarrow> nat" where
  "manager_tunnel_count keys m =
     sum_list (map (\<lambda>a. session_tunnel_count (session_heap m ! a)) (List.map_filter (sessions m) (keys (sessions m))))"

definition manager_snapshot ::
    "((string \<rightharpoonup> tunnel) \<Rightarrow> string list) \<Rightarrow> ('m, 'qo, 'qb, 'o) manager \<Rightarrow> (string \<rightharpoonup> tunnel list)" where
  "manager_snapshot tkeys m = (\<lambda>sid. map_option (\<lambda>a. session_tunnels tkeys (session_heap m ! a)) (sessions m sid))"

text \<open>The values that \<open>serde_json::json!\<close> builds.\<close>

datatype json = JString string | JNumber nat | JBool bool | JArray "json list" | JObject "(string \<times> json) list"

definition tunnel_json :: "tunnel \<Rightarrow> json" where
  "tunnel_json t = JObject [(''tunnel_id'', JString (tunnel_id t)), (''routing_key'', JString (tunnel_routing_key t)),
     (''public_url'', JString (tunnel_public_url t))]"

definition snapshot_json ::
    "((string \<rightharpoonup> nat) \<Rightarrow> string list) \<Rightarrow> ((string \<rightharpoonup> tunnel) \<Rightarrow> string list) \<Rightarrow> ('m, 'qo, 'qb, 'o) manager \<Rightarrow> json" where
  "snapshot_json keys tkeys m = JObject [(''sessions'', JArray (map (\<lambda>a.
     let s = session_heap m ! a in
     JObject [(''session_id'', JString (session_id s)),
       (''account_id'', JString (account_id (session_principal s))),
       (''open_streams'', JNumber (unat (open_stream_count s))),
       (''tunnels'', JArray (map tunnel_json (session_tunnels tkeys s)))])
     (List.map_filter (sessions m) (keys (sessions m)))))]"

section \<open>Chunking\<close>

lemma split_chunks_loop: "split_chunks payload = split_loop payload"
  by (simp add: split_chunks_def split_loop.simps [of payload])

lemma concat_split_loop: "concat (split_loop payload) = payload"
proof (induction payload rule: split_loop.induct)
  case (1 payload)
  then show ?case by (subst split_loop.simps) simp
qed

lemma split_loop_bounded: "c \<in> set (split_loop payload) \<Longrightarrow> length c \<le> MAX_CHUNK"
proof (induction payload rule: split_loop.induct)
  case (1 payload)
  from 1(2) show ?case
    by (subst (asm) split_loop.simps) (auto split: if_splits dest: 1(1))
qed

lemma split_loop_nonempty: "payload \<noteq> [] \<Longrightarrow> [] \<notin> set (split_loop payload)"
proof (induction payload rule: split_loop.induct)
  case (1 payload)
  then show ?case by (subst split_loop.simps) (auto simp: MAX_CHUNK_def)
qed

lemma split_loop_not_Nil [simp]: "split_loop payload \<noteq> []"
  by (subst split_loop.simps) simp

lemma butlast_split_loop: "c \<in> set (butlast (split_loop payload)) \<Longrightarrow> length c = MAX_CHUNK"
proof (induction payload rule: split_loop.induct)
  case (1 payload)
  from 1(2) show ?case
    by (subst (asm) split_loop.simps) (auto split: if_splits dest: 1(1))
qed

lemma length_split_loop:
  "payload \<noteq> [] \<Longrightarrow> length (split_loop payload) = (length payload + MAX_CHUNK - 1) div MAX_CHUNK"
proof (induction payload rule: split_loop.induct)
  case (1 payload)
  show ?case
  proof (cases "MAX_CHUNK < length payload")
    case True
    then have "(length payload + MAX_CHUNK - 1) div MAX_CHUNK =
        Suc ((length payload - MAX_CHUNK + MAX_CHUNK - 1) div MAX_CHUNK)"
      by (subst div_if) (auto simp: MAX_CHUNK_def)
    with True 1 show ?thesis by (subst split_loop.simps) simp
  next
    case False
    have "(length payload + MAX_CHUNK - 1) div MAX_CHUNK = 1"
      by (rule div_nat_eqI) (use False 1(2) in \<open>auto simp: MAX_CHUNK_def Suc_le_eq\<close>)
    with False show ?thesis by (subst split_loop.simps) simp
  qed
qed

lemma sum_split_chunks: "sum_list (map length (split_chunks payload)) = length payload"
  by (metis concat_split_loop length_concat split_chunks_loop)

lemma split_chunks_bounded: "c \<in> set (split_chunks payload) \<Longrightarrow> length c \<le> MAX_CHUNK"
  by (simp add: split_chunks_loop split_loop_bounded)

text \<open>A payload is cut into frames without losing, adding or reordering a byte: the chunks
  concatenate to the payload, every chunk fits a frame, all but the last are full, a non-empty
  payload makes no empty frame and as many frames as needed and no more.\<close>

lemma split_chunks_exact:
  "concat (split_chunks payload) = payload \<and>
   list_all (\<lambda>c. length c \<le> MAX_CHUNK) (split_chunks payload) \<and>
   list_all (\<lambda>c. length c = MAX_CHUNK) (butlast (split_chunks payload)) \<and>
   (if payload = [] then split_chunks payload = [[]]
    else [] \<notin> set (split_chunks payload) \<and>
      length (split_chunks payload) = (length payload + MAX_CHUNK - 1) div MAX_CHUNK)"
  unfolding split_chunks_loop list_all_iff
  using concat_split_loop split_loop_bounded butlast_split_loop split_loop_nonempty length_split_loop
  by (auto simp: split_loop.simps [of "[]"])

end
