(* ===== verification/Flow.thy ===== *)
theory Flow
  imports Async
begin

text \<open>
  Credit-based flow control, for any sender. A sender's state has a credit (bytes it may still send)
  and an amount of bytes it has put on its queue. \<open>metered\<close> follows one task of the sender while
  everything else in the system changes the state as it likes, and adds up the bytes the task puts on
  the queue and the credit that others give. \<open>solvent n t\<close> is the accounting argument: a task that has
  drawn \<open>n\<close> bytes of credit which it has not yet sent pays for every byte from credit it drew. The
  edge's uploads and the agent's downloads are both instances.
\<close>

inductive solvent ::
    "('s \<Rightarrow> bool) \<Rightarrow> ('s \<Rightarrow> nat) \<Rightarrow> ('s \<Rightarrow> nat) \<Rightarrow> nat \<Rightarrow> ('s, 'a) task \<Rightarrow> bool"
  for ok credit sent where
  Return: "solvent ok credit sent n (Return a)"
| Halt: "solvent ok credit sent n Halt"
| Panic: "solvent ok credit sent n (Panic e)"
| Step: "(\<And>s s' t. \<lbrakk>ok s; f s = Some (s', t)\<rbrakk> \<Longrightarrow>
      ok s' \<and> (\<exists>n'. (sent s' - sent s) + n' + credit s' \<le> n + credit s \<and> solvent ok credit sent n' t)) \<Longrightarrow>
    solvent ok credit sent n (Step f)"
| Spawn: "\<lbrakk>solvent ok credit sent 0 c; solvent ok credit sent n t\<rbrakk> \<Longrightarrow> solvent ok credit sent n (Spawn c t)"

inductive_cases solvent_StepE: "solvent ok credit sent n (Step f)"
inductive_cases solvent_SpawnE: "solvent ok credit sent n (Spawn c t)"

text \<open>One task and an arbitrary environment: the state, what is left of the task, the bytes it has
  sent, the credit the environment has given.\<close>

inductive metered ::
    "('s \<Rightarrow> bool) \<Rightarrow> ('s \<Rightarrow> nat) \<Rightarrow> ('s \<Rightarrow> nat) \<Rightarrow> 's \<Rightarrow> ('s, 'a) task \<Rightarrow>
     's \<Rightarrow> ('s, 'a) task \<Rightarrow> nat \<Rightarrow> nat \<Rightarrow> bool"
  for ok credit sent s0 t0 where
  start: "metered ok credit sent s0 t0 s0 t0 0 0"
| go: "\<lbrakk>metered ok credit sent s0 t0 s (Step f) x g; f s = Some (s', t)\<rbrakk> \<Longrightarrow>
    metered ok credit sent s0 t0 s' t (x + (sent s' - sent s)) g"
| fork: "metered ok credit sent s0 t0 s (Spawn c t) x g \<Longrightarrow> metered ok credit sent s0 t0 s t x g"
| env: "\<lbrakk>metered ok credit sent s0 t0 s t x g; ok s'\<rbrakk> \<Longrightarrow>
    metered ok credit sent s0 t0 s' t x (g + (credit s' - credit s))"

lemma solvent_mono:
  assumes "solvent ok credit sent n t" "n \<le> n'"
  shows "solvent ok credit sent n' t"
  using assms
proof (induction arbitrary: n' rule: solvent.induct)
  case (Step f n)
  show ?case
  proof (rule solvent.Step)
    fix s s' t
    assume "ok s" "f s = Some (s', t)"
    then obtain m where "ok s'" "(sent s' - sent s) + m + credit s' \<le> n + credit s" "solvent ok credit sent m t"
      using Step.IH by blast
    with Step.prems show "ok s' \<and> (\<exists>m. (sent s' - sent s) + m + credit s' \<le> n' + credit s \<and> solvent ok credit sent m t)"
      by (intro conjI exI [of _ m]) auto
  qed
qed (auto intro: solvent.intros)

lemma solvent_call:
  assumes "solvent ok credit sent n m" "\<And>x. solvent ok credit sent 0 (k x)"
  shows "solvent ok credit sent n (call m k)"
  using assms(1)
proof (induction rule: solvent.induct)
  case (Return n a)
  show ?case using solvent_mono [OF assms(2)] by simp
next
  case (Step f n)
  show ?case
    unfolding call.simps
  proof (rule solvent.Step)
    fix s s' t
    assume "ok s" "map_option (map_prod id (\<lambda>t. call t k)) (f s) = Some (s', t)"
    then obtain t' where "f s = Some (s', t')" "t = call t' k" by auto
    with Step.IH \<open>ok s\<close> show "ok s' \<and>
      (\<exists>m. (sent s' - sent s) + m + credit s' \<le> n + credit s \<and> solvent ok credit sent m t)"
      by blast
  qed
qed (auto intro: solvent.intros)

text \<open>The sender never sends more than the credit it had and was given.\<close>

lemma metered_solvent:
  assumes "metered ok credit sent s0 t0 s t x g" "ok s0" "solvent ok credit sent 0 t0"
  shows "x + credit s \<le> credit s0 + g"
proof -
  have "\<exists>n. ok s \<and> solvent ok credit sent n t \<and> x + n + credit s \<le> credit s0 + g"
    using assms
  proof (induction rule: metered.induct)
    case start
    then show ?case by force
  next
    case (go s f x g s' t)
    then obtain n where n: "ok s" "solvent ok credit sent n (Step f)" "x + n + credit s \<le> credit s0 + g"
      by blast
    then obtain n' where "ok s'" "(sent s' - sent s) + n' + credit s' \<le> n + credit s" "solvent ok credit sent n' t"
      using go.hyps(2) by (blast elim: solvent_StepE)
    with n(3) show ?case by (intro exI [of _ n']) auto
  next
    case (fork s c t x g)
    then show ?case by (blast elim: solvent_SpawnE)
  next
    case (env s t x g s')
    then obtain n where "solvent ok credit sent n t" "x + n + credit s \<le> credit s0 + g" by blast
    with env.hyps(2) show ?case by (intro exI [of _ n]) auto
  qed
  then show ?thesis by force
qed

text \<open>A task that runs through on its own is one such run, in which all it queued is counted.\<close>

lemma metered_run:
  assumes "metered ok credit sent s0 t0 s t x g" "run t s = Finished s' a"
  shows "\<exists>x'. x + sent s' \<le> x' + sent s \<and> metered ok credit sent s0 t0 s' (Return a) x' g"
  using assms
proof (induction t arbitrary: s x rule: task_induct)
  case (Step f)
  from Step.prems(2) obtain s1 t1 where s1: "f s = Some (s1, t1)" "run t1 s1 = Finished s' a"
    by (auto split: option.splits)
  from Step.IH [OF s1(1) metered.go [OF Step.prems(1) s1(1)] s1(2)] show ?case by force
next
  case (Spawn c t)
  then show ?case using metered.fork [of ok credit sent s0 t0 s c t x g] by auto
qed auto

end
