(* ===== verification/Session_Flow.thy ===== *)
theory Session_Flow
  imports Session Flow
begin

text \<open>
  Flow control of uploads through a session: the edge never sends an agent more body bytes than the
  agent made room for, a payload that fits is sent at once, and a sender without credit parks until
  credit arrives or the stream is closed.
\<close>

locale session_runtime =
  sem: semaphore "rt_sem R" sview + out: channel "rt_out R" oview +
  bod: channel "rt_body R" bview + one: oneshot "rt_once R" hview
  for R :: "('m, 'qo, 'qb, 'o) runtime" and sview :: "'m \<Rightarrow> sem_view"
    and oview :: "'qo \<Rightarrow> outbound_item chan_view" and bview :: "'qb \<Rightarrow> chunk chan_view"
    and hview :: "'o \<Rightarrow> http_response_head slot"

definition ref_runtime ::
    "(sem_view, outbound_item chan_view, chunk chan_view, http_response_head slot) runtime" where
  "ref_runtime = \<lparr>rt_sem = ref_sem, rt_out = ref_chan, rt_body = ref_chan, rt_once = ref_once\<rparr>"

interpretation ref_rt: session_runtime ref_runtime id id id id
  unfolding session_runtime_def ref_runtime_def
  by (simp add: ref_sem.semaphore_axioms ref_chan.channel_axioms ref_once.oneshot_axioms)

section \<open>Measures\<close>

definition stream_credit :: "('m \<Rightarrow> sem_view) \<Rightarrow> nat \<Rightarrow> ('m, 'qo, 'qb, 'o) session \<Rightarrow> nat" where
  "stream_credit sview a s = permits (sview (send_credit (stream_heap s ! a)))"

definition data_bytes :: "u64 \<Rightarrow> outbound_item \<Rightarrow> nat" where
  "data_bytes sid item = (case item of
     Ok (Some (SData d)) \<Rightarrow> if sd_stream_id d = sid then length (sd_payload d) else 0
   | _ \<Rightarrow> 0)"

definition queued_bytes :: "('qo \<Rightarrow> outbound_item chan_view) \<Rightarrow> u64 \<Rightarrow> ('m, 'qo, 'qb, 'o) session \<Rightarrow> nat" where
  "queued_bytes oview sid s = sum_list (map (data_bytes sid) (queued (oview (outbound s))))"

text \<open>The stream id names the object at \<open>a\<close>, or nothing once the stream has been closed.\<close>

definition bound_to :: "u64 \<Rightarrow> nat \<Rightarrow> ('m, 'qo, 'qb, 'o) session \<Rightarrow> bool" where
  "bound_to sid a s \<longleftrightarrow> a < length (stream_heap s) \<and> (\<forall>b. streams s sid = Some b \<longrightarrow> b = a)"

definition data_frame :: "u64 \<Rightarrow> bytes \<Rightarrow> outbound_item" where
  "data_frame sid c = Ok (Some (SData \<lparr>sd_stream_id = sid, sd_payload = c\<rparr>))"

text \<open>The queue towards the agent is open and has room for \<open>n\<close> more frames.\<close>

definition outbound_room ::
    "('qo \<Rightarrow> outbound_item chan_view) \<Rightarrow> nat \<Rightarrow> ('m, 'qo, 'qb, 'o) session \<Rightarrow> bool" where
  "outbound_room oview n s \<longleftrightarrow> receiver (oview (outbound s)) \<and>
     length (queued (oview (outbound s))) + n \<le> capacity (oview (outbound s))"

text \<open>A task parked on credit: closing the stream ends it with failure, and less credit than its chunk
  needs leaves it parked.\<close>

definition parked ::
    "('m \<Rightarrow> sem_view) \<Rightarrow> nat \<Rightarrow> (('m, 'qo, 'qb, 'o) session, bool) task \<Rightarrow> bool" where
  "parked sview a t \<longleftrightarrow>
     (\<forall>s. sem_closed (sview (send_credit (stream_heap s ! a))) \<longrightarrow> run t s = Finished s False) \<and>
     (\<exists>n > 0. \<forall>s. \<not> sem_closed (sview (send_credit (stream_heap s ! a))) \<longrightarrow>
        stream_credit sview a s < n \<longrightarrow> run t s = Blocked s t)"

lemma stream_heap_set_stream [simp]: "length (stream_heap (set_stream a f s)) = length (stream_heap s)"
  by (simp add: set_stream_def)

lemma set_stream_at [simp]:
  "a < length (stream_heap s) \<Longrightarrow> stream_heap (set_stream a f s) ! a = f (stream_heap s ! a)"
  by (simp add: set_stream_def)

lemma set_stream_other [simp]: "b \<noteq> a \<Longrightarrow> stream_heap (set_stream a f s) ! b = stream_heap s ! b"
  by (simp add: set_stream_def)

lemma set_stream_fields [simp]:
  "streams (set_stream a f s) = streams s" "outbound (set_stream a f s) = outbound s"
  "open_streams (set_stream a f s) = open_streams s" "tunnels (set_stream a f s) = tunnels s"
  "next_stream_id (set_stream a f s) = next_stream_id s" "initial_window (set_stream a f s) = initial_window s"
  "session_principal (set_stream a f s) = session_principal s" "session_id (set_stream a f s) = session_id s"
  "session_node_id (set_stream a f s) = session_node_id s"
  by (simp_all add: set_stream_def)

lemma data_bytes_frame [simp]: "data_bytes sid (data_frame sid c) = length c"
  by (simp add: data_bytes_def data_frame_def)

lemma unat_chunk_len: "length c \<le> MAX_CHUNK \<Longrightarrow> unat (u32_saturating (length c)) = length c"
  by (simp add: unat_u32_saturating MAX_CHUNK_def)

section \<open>The sender pays for every byte\<close>

context session_runtime
begin

abbreviation "credit \<equiv> stream_credit sview"
abbreviation "sent \<equiv> queued_bytes oview"

lemma solvent_session_send:
  "data_bytes sid (Ok frame) \<le> n \<Longrightarrow> solvent (bound_to sid a) (credit a) (sent sid) n (session_send R frame)"
  unfolding session_send_def await_def
proof (rule solvent.Step)
  fix s s' :: "('m, 'qo, 'qb, 'o) session" and t :: "(('m, 'qo, 'qb, 'o) session, bool) task"
  assume n: "data_bytes sid (Ok frame) \<le> n" and ok: "bound_to sid a s"
    and step: "map_option (map_prod id Return)
      (case chan_send (rt_out R) (outbound s) (Ok frame) of
        Ready q \<Rightarrow> Some (s\<lparr>outbound := q\<rparr>, True) | Gone \<Rightarrow> Some (s, False) | NotReady \<Rightarrow> None) = Some (s', t)"
  show "bound_to sid a s' \<and> (\<exists>n'. sent sid s' - sent sid s + n' + credit a s' \<le> n + credit a s \<and>
      solvent (bound_to sid a) (credit a) (sent sid) n' t)"
  proof (cases "chan_send (rt_out R) (outbound s) (Ok frame)")
    case (Ready q)
    with step have s': "s' = s\<lparr>outbound := q\<rparr>" "t = Return True" by auto
    have "sent sid s' = sent sid s + data_bytes sid (Ok frame)"
      using out.send_Ready [OF Ready] s' by (simp add: queued_bytes_def)
    with ok n s' show ?thesis
      by (auto simp: bound_to_def stream_credit_def intro!: exI [of _ 0] solvent.Return)
  next
    case Gone
    with step ok show ?thesis by (auto intro!: exI [of _ 0] solvent.Return)
  next
    case NotReady
    with step show ?thesis by simp
  qed
qed

lemma solvent_acquire:
  assumes "\<And>ok. solvent (bound_to sid a) (credit a) (sent sid) (if ok then n else 0) (k ok)"
  shows "solvent (bound_to sid a) (credit a) (sent sid) 0 (call (acquire_credit R a n) k)"
  unfolding acquire_credit_def await_def call.simps
proof (rule solvent.Step)
  fix s s' :: "('m, 'qo, 'qb, 'o) session" and t
  assume ok: "bound_to sid a s"
    and step: "map_option (map_prod id (\<lambda>t. call t k)) (map_option (map_prod id Return)
      (case sem_acquire (rt_sem R) (send_credit (stream_heap s ! a)) n of
        Ready m \<Rightarrow> Some (set_stream a (\<lambda>st. st\<lparr>send_credit := m\<rparr>) s, True)
      | Gone \<Rightarrow> Some (s, False) | NotReady \<Rightarrow> None)) = Some (s', t)"
  show "bound_to sid a s' \<and> (\<exists>n'. sent sid s' - sent sid s + n' + credit a s' \<le> 0 + credit a s \<and>
      solvent (bound_to sid a) (credit a) (sent sid) n' t)"
  proof (cases "sem_acquire (rt_sem R) (send_credit (stream_heap s ! a)) n")
    case (Ready m)
    with step have s': "s' = set_stream a (\<lambda>st. st\<lparr>send_credit := m\<rparr>) s" "t = k True" by auto
    have "credit a s' + n = credit a s" "sent sid s' = sent sid s" "bound_to sid a s'"
      using sem.acquire_Ready [OF Ready] ok s'
      by (auto simp: stream_credit_def queued_bytes_def bound_to_def)
    then show ?thesis using assms [of True] s'(2) by (intro conjI exI [of _ n]) auto
  next
    case Gone
    with step ok assms [of False] show ?thesis by (auto intro!: exI [of _ 0])
  next
    case NotReady
    with step show ?thesis by simp
  qed
qed

lemma solvent_send_chunks:
  "list_all (\<lambda>c. length c \<le> MAX_CHUNK) cs \<Longrightarrow>
   solvent (bound_to sid a) (credit a) (sent sid) 0 (send_chunks R a sid cs)"
proof (induction cs)
  case Nil
  show ?case by (simp add: solvent.Return)
next
  case (Cons c cs)
  then have "unat (u32_saturating (length c)) = length c" by (simp add: unat_chunk_len)
  with Cons show ?case
    using solvent_session_send [of sid "Some (SData \<lparr>sd_stream_id = sid, sd_payload = c\<rparr>)" "length c" a]
    by (auto simp: data_bytes_def intro!: solvent_acquire solvent_call solvent.Return)
qed

lemma solvent_send_stream_data:
  "solvent (bound_to sid a) (credit a) (sent sid) 0 (send_stream_data R sid payload)"
  unfolding send_stream_data_def read_def atomically_def call.simps
proof (rule solvent.Step)
  fix s s' :: "('m, 'qo, 'qb, 'o) session" and t
  assume ok: "bound_to sid a s"
    and step: "map_option (map_prod id (\<lambda>t. call t (\<lambda>stream. case stream of None \<Rightarrow> Return False
        | Some b \<Rightarrow> send_chunks R b sid (split_chunks payload))))
      (let (s', x) = (s, streams s sid) in Some (s', Return x)) = Some (s', t)"
  have "list_all (\<lambda>c. length c \<le> MAX_CHUNK) (split_chunks payload)"
    by (simp add: list_all_iff split_chunks_bounded)
  then have "solvent (bound_to sid a) (credit a) (sent sid) 0 t"
    using step ok solvent_send_chunks [of "split_chunks payload" sid a]
    by (auto simp: bound_to_def split: option.splits intro: solvent.Return)
  with step ok show "bound_to sid a s' \<and> (\<exists>n'. sent sid s' - sent sid s + n' + credit a s' \<le> 0 + credit a s \<and>
      solvent (bound_to sid a) (credit a) (sent sid) n' t)"
    by (auto intro!: exI [of _ 0])
qed

section \<open>Progress\<close>

lemma run_session_send_room:
  assumes "receiver (oview (outbound s))" "length (queued (oview (outbound s))) < capacity (oview (outbound s))"
  obtains q where "run (session_send R frame) s = Finished (s\<lparr>outbound := q\<rparr>) True"
    "oview q = (oview (outbound s))\<lparr>queued := queued (oview (outbound s)) @ [Ok frame]\<rparr>"
  using out.send_room [OF assms, of "Ok frame"] that by (auto simp: session_send_def)

lemma run_acquire_enough:
  assumes "a < length (stream_heap s)" "\<not> sem_closed (sview (send_credit (stream_heap s ! a)))"
    "n \<le> credit a s"
  obtains s' where "run (acquire_credit R a n) s = Finished s' True" "outbound s' = outbound s"
    "length (stream_heap s') = length (stream_heap s)" "streams s' = streams s" "credit a s' = credit a s - n"
    "\<not> sem_closed (sview (send_credit (stream_heap s' ! a)))"
proof -
  obtain m where m: "sem_acquire (rt_sem R) (send_credit (stream_heap s ! a)) n = Ready m"
    "sview m = (sview (send_credit (stream_heap s ! a)))\<lparr>permits := credit a s - n\<rparr>"
    using sem.acquire_takes [OF assms(2), of n] assms(3) by (auto simp: stream_credit_def)
  let ?s' = "set_stream a (\<lambda>st. st\<lparr>send_credit := m\<rparr>) s"
  have "run (acquire_credit R a n) s = Finished ?s' True" by (simp add: acquire_credit_def m)
  moreover have "credit a ?s' = credit a s - n"
    "\<not> sem_closed (sview (send_credit (stream_heap ?s' ! a)))"
    using assms(1,2) m(2) by (simp_all add: stream_credit_def)
  ultimately show ?thesis using that by simp
qed

lemma parked_acquire:
  assumes "0 < n" "k False = Return False"
  shows "parked sview a (call (acquire_credit R a n) k)"
  unfolding parked_def using assms
  by (auto simp: run_call acquire_credit_def sem.acquire_closed stream_credit_def sem.acquire_waits
      intro!: exI [of _ n])

text \<open>One chunk that the credit covers.\<close>

lemma run_send_chunk:
  assumes "a < length (stream_heap s)" "\<not> sem_closed (sview (send_credit (stream_heap s ! a)))"
    "outbound_room oview (Suc m) s" "length c \<le> MAX_CHUNK" "length c \<le> credit a s"
  obtains s' where "run (send_chunks R a sid (c # cs)) s = run (send_chunks R a sid cs) s'"
    "queued (oview (outbound s')) = queued (oview (outbound s)) @ [data_frame sid c]" "credit a s' = credit a s - length c"
    "streams s' = streams s" "length (stream_heap s') = length (stream_heap s)"
    "\<not> sem_closed (sview (send_credit (stream_heap s' ! a)))" "outbound_room oview m s'"
    "capacity (oview (outbound s')) = capacity (oview (outbound s))"
proof -
  have n: "unat (u32_saturating (length c)) = length c" using assms(4) by (simp add: unat_chunk_len)
  obtain s1 where s1: "run (acquire_credit R a (unat (u32_saturating (length c)))) s = Finished s1 True" "outbound s1 = outbound s"
    "length (stream_heap s1) = length (stream_heap s)" "streams s1 = streams s"
    "credit a s1 = credit a s - length c" "\<not> sem_closed (sview (send_credit (stream_heap s1 ! a)))"
    using run_acquire_enough [of a s "unat (u32_saturating (length c))"] assms(1,2,5) n by auto
  have room: "receiver (oview (outbound s1))" "length (queued (oview (outbound s1))) < capacity (oview (outbound s1))"
    using assms(3) s1(2) by (auto simp: outbound_room_def)
  obtain q where q: "run (session_send R (Some (SData \<lparr>sd_stream_id = sid, sd_payload = c\<rparr>))) s1 = Finished (s1\<lparr>outbound := q\<rparr>) True"
    "oview q = (oview (outbound s1))\<lparr>queued := queued (oview (outbound s1)) @ [data_frame sid c]\<rparr>"
    using run_session_send_room [OF room] unfolding data_frame_def by metis
  show ?thesis
    by (rule that [of "s1\<lparr>outbound := q\<rparr>"])
      (use s1 q assms(3) in \<open>auto simp: run_call stream_credit_def outbound_room_def\<close>)
qed

lemma run_send_chunks:
  assumes "a < length (stream_heap s)" "\<not> sem_closed (sview (send_credit (stream_heap s ! a)))"
    "outbound_room oview (length cs) s" "list_all (\<lambda>c. length c \<le> MAX_CHUNK) cs"
  shows "(sum_list (map length cs) \<le> credit a s \<longrightarrow>
      (\<exists>s'. run (send_chunks R a sid cs) s = Finished s' True \<and>
        queued (oview (outbound s')) = queued (oview (outbound s)) @ map (data_frame sid) cs \<and>
        credit a s' = credit a s - sum_list (map length cs) \<and> streams s' = streams s \<and>
        length (stream_heap s') = length (stream_heap s) \<and> \<not> sem_closed (sview (send_credit (stream_heap s' ! a))) \<and>
        receiver (oview (outbound s')) \<and> capacity (oview (outbound s')) = capacity (oview (outbound s)))) \<and>
    (credit a s < sum_list (map length cs) \<longrightarrow>
      (\<exists>s' t. run (send_chunks R a sid cs) s = Blocked s' t \<and> parked sview a t \<and> streams s' = streams s \<and>
        length (stream_heap s') = length (stream_heap s)))"
  using assms
proof (induction cs arbitrary: s)
  case Nil
  then show ?case by (simp add: outbound_room_def)
next
  case (Cons c cs)
  show ?case
  proof (cases "length c \<le> credit a s")
    case True
    have c: "outbound_room oview (Suc (length cs)) s" "length c \<le> MAX_CHUNK" using Cons.prems(3,4) by simp_all
    obtain s1 where s1: "run (send_chunks R a sid (c # cs)) s = run (send_chunks R a sid cs) s1"
      "queued (oview (outbound s1)) = queued (oview (outbound s)) @ [data_frame sid c]" "credit a s1 = credit a s - length c"
      "streams s1 = streams s" "length (stream_heap s1) = length (stream_heap s)"
      "\<not> sem_closed (sview (send_credit (stream_heap s1 ! a)))" "outbound_room oview (length cs) s1"
      "capacity (oview (outbound s1)) = capacity (oview (outbound s))"
      by (rule run_send_chunk [OF Cons.prems(1,2) c True])
    have "a < length (stream_heap s1)" "list_all (\<lambda>c. length c \<le> MAX_CHUNK) cs" using Cons.prems(1,4) s1(5) by simp_all
    from Cons.IH [OF this(1) s1(6,7) this(2)] show ?thesis using True unfolding s1(1) by (auto simp: s1(2-5,8))
  next
    case False
    let ?n = "unat (u32_saturating (length c))"
    have "?n = length c" using Cons.prems(4) by (simp add: unat_chunk_len)
    then have "0 < ?n" "credit a s < ?n" using False by auto
    then have "run (send_chunks R a sid (c # cs)) s = Blocked s (send_chunks R a sid (c # cs))"
      using Cons.prems(2) by (simp add: run_call acquire_credit_def stream_credit_def sem.acquire_waits)
    moreover have "parked sview a (send_chunks R a sid (c # cs))"
      using \<open>0 < ?n\<close> by (simp add: parked_acquire)
    ultimately show ?thesis using False by (intro conjI impI) auto
  qed
qed

end

section \<open>Properties\<close>

text \<open>Closing a stream that is in the table.\<close>

definition closed_state ::
    "('m, 'qo, 'qb, 'o) runtime \<Rightarrow> u64 \<Rightarrow> nat \<Rightarrow> ('m, 'qo, 'qb, 'o) session \<Rightarrow> ('m, 'qo, 'qb, 'o) session" where
  "closed_state R sid a s =
     (set_stream a (\<lambda>st. drop_stream_senders R (st\<lparr>stream_closed := True,
         send_credit := sem_close (rt_sem R) (send_credit st)\<rparr>)) s)
       \<lparr>streams := (streams s)(sid := None), open_streams := open_streams s - 1\<rparr>"

lemma run_close_stream:
  "run (close_stream R sid) s = Finished (case streams s sid of
     None \<Rightarrow> s\<lparr>streams := (streams s)(sid := None)\<rparr> | Some a \<Rightarrow> closed_state R sid a s) ()"
proof (cases "streams s sid")
  case None
  then show ?thesis by (simp add: close_stream_def run_call)
next
  case (Some a)
  then show ?thesis
    by (cases "a < length (stream_heap s)")
      (simp_all add: close_stream_def run_call closed_state_def set_stream_def list_update_beyond)
qed

context session_runtime
begin

lemma closed_state_closes:
  "a < length (stream_heap s) \<Longrightarrow> sem_closed (sview (send_credit (stream_heap (closed_state R sid a s) ! a)))"
  by (simp add: closed_state_def drop_stream_senders_def sem.sem_close_law)

end

text \<open>C17. Sending body bytes towards the agent, with room on the outgoing queue: if the stream's credit
  covers the payload the call returns true, has queued exactly the payload's chunks in order and has
  spent exactly their bytes of credit; if not, the call parks, and closing the stream makes it return
  false instead of leaving it parked forever.\<close>

theorem upload_sent_or_woken:
  assumes "session_runtime R sview oview bview hview" "streams s sid = Some a" "a < length (stream_heap s)"
    and "\<not> sem_closed (sview (send_credit (stream_heap s ! a)))"
    and "outbound_room oview (length (split_chunks payload)) s"
  shows "(length payload \<le> stream_credit sview a s \<longrightarrow>
      (\<exists>s'. run (send_stream_data R sid payload) s = Finished s' True \<and>
        queued (oview (outbound s')) = queued (oview (outbound s)) @ map (data_frame sid) (split_chunks payload) \<and>
        stream_credit sview a s' = stream_credit sview a s - length payload)) \<and>
    (stream_credit sview a s < length payload \<longrightarrow>
      (\<exists>s1 t s2. run (send_stream_data R sid payload) s = Blocked s1 t \<and>
        run (close_stream R sid) s1 = Finished s2 () \<and> run t s2 = Finished s2 False))"
proof -
  let ?cs = "split_chunks payload"
  have step: "run (send_stream_data R sid payload) s = run (send_chunks R a sid ?cs) s"
    by (simp add: send_stream_data_def run_call assms(2))
  have bounded: "list_all (\<lambda>c. length c \<le> MAX_CHUNK) ?cs" by (simp add: list_all_iff split_chunks_bounded)
  note sends = session_runtime.run_send_chunks [OF assms(1,3,4,5) bounded, of sid, unfolded sum_split_chunks]
  show ?thesis
  proof (intro conjI impI)
    assume "length payload \<le> stream_credit sview a s"
    then show "\<exists>s'. run (send_stream_data R sid payload) s = Finished s' True \<and>
        queued (oview (outbound s')) = queued (oview (outbound s)) @ map (data_frame sid) ?cs \<and>
        stream_credit sview a s' = stream_credit sview a s - length payload"
      using sends step by auto
  next
    assume "stream_credit sview a s < length payload"
    then obtain s1 t where s1: "run (send_chunks R a sid ?cs) s = Blocked s1 t" "parked sview a t"
      "streams s1 = streams s" "length (stream_heap s1) = length (stream_heap s)"
      using sends by auto
    let ?s2 = "closed_state R sid a s1"
    have "run (close_stream R sid) s1 = Finished ?s2 ()" using s1(3) assms(2) by (simp add: run_close_stream)
    moreover have "sem_closed (sview (send_credit (stream_heap ?s2 ! a)))"
      using session_runtime.closed_state_closes [OF assms(1)] s1(4) assms(3) by auto
    then have "run t ?s2 = Finished ?s2 False" using s1(2) by (simp add: parked_def)
    ultimately show "\<exists>s1 t s2. run (send_stream_data R sid payload) s = Blocked s1 t \<and>
        run (close_stream R sid) s1 = Finished s2 () \<and> run t s2 = Finished s2 False"
      using step s1(1) by auto
  qed
qed

text \<open>A session with one open stream, for the witnesses.\<close>

definition sample_principal :: "u32 \<Rightarrow> principal" where
  "sample_principal n = \<lparr>account_id = ''acct_1'', display_name = ''test'', reserved_subdomains = [],
     custom_domains = [], principal_limits = default_limits\<lparr>max_concurrent_streams := n\<rparr>\<rparr>"

definition sample_session ::
    "u32 \<Rightarrow> (sem_view, outbound_item chan_view, chunk chan_view, http_response_head slot) session" where
  "sample_session window = (session_new ref_runtime ''sess_1'' ''node_a'' (sample_principal 1) window)
     \<lparr>stream_heap := [fresh_stream ref_runtime window], streams := [1 \<mapsto> 0], next_stream_id := 2, open_streams := 1\<rparr>"

lemmas sample_session_simps = sample_session_def session_new_def fresh_stream_def ref_runtime_def ref_chan_def
  ref_sem_def ref_once_def OUTBOUND_QUEUE_def STREAM_BUFFER_FRAMES_def

theorem upload_sent_or_woken_witness:
  "(\<exists>s'. run (send_stream_data ref_runtime 1 ''abcd'') (sample_session 4) = Finished s' True) \<and>
   (\<exists>s1 t s2. run (send_stream_data ref_runtime 1 ''abcd'') (sample_session 2) = Blocked s1 t \<and>
      run (close_stream ref_runtime 1) s1 = Finished s2 () \<and> run t s2 = Finished s2 False)"
proof -
  have "split_chunks ''abcd'' = [''abcd'']" by (simp add: split_chunks_def MAX_CHUNK_def)
  then show ?thesis
    using upload_sent_or_woken [of ref_runtime id id id id "sample_session 4" 1 0 "''abcd''"]
      upload_sent_or_woken [of ref_runtime id id id id "sample_session 2" 1 0 "''abcd''"]
      ref_rt.session_runtime_axioms
    by (auto simp: sample_session_simps outbound_room_def stream_credit_def)
qed

end
