(* ===== verification/Session_Delivery.thy ===== *)
theory Session_Delivery
  imports Session_Flow
begin

text \<open>
  What happens to the frames an agent sends for a stream: a response head reaches the waiting request
  once, body bytes join the response body in order or push back when the client is slow, and frames
  for a stream that has been torn down change nothing.
\<close>

section \<open>Sending on the body queue\<close>

definition body_view :: "('qb \<Rightarrow> chunk chan_view) \<Rightarrow> nat \<Rightarrow> ('m, 'qo, 'qb, 'o) session \<Rightarrow> chunk chan_view" where
  "body_view bview a s = bview (body (stream_heap s ! a))"

text \<open>A stream that is in the table, open, and whose response has its sender.\<close>

definition stream_open_at :: "u64 \<Rightarrow> nat \<Rightarrow> ('m, 'qo, 'qb, 'o) session \<Rightarrow> bool" where
  "stream_open_at sid a s \<longleftrightarrow>
     streams s sid = Some a \<and> a < length (stream_heap s) \<and> \<not> stream_closed (stream_heap s ! a)"

context session_runtime
begin

abbreviation "bodyq \<equiv> body_view bview"

lemma run_stream_body_sender:
  "stream_open_at sid a s \<Longrightarrow>
     run (stream_body_sender R sid) s =
       Finished (set_stream a (\<lambda>st. st\<lparr>body := chan_clone_tx (rt_body R) (body st)\<rparr>) s) (Some a)"
  by (simp add: stream_body_sender_def stream_open_at_def)

lemma body_send_room:
  assumes "a < length (stream_heap s)" "receiver (bodyq a s)"
    "length (queued (bodyq a s)) < capacity (bodyq a s)"
  obtains q where "run (body_send R a c) s = Finished (set_stream a (\<lambda>st. st\<lparr>body := q\<rparr>) s) True"
    "bview q = (bodyq a s)\<lparr>queued := queued (bodyq a s) @ [c]\<rparr>"
  using bod.send_room [of "body (stream_heap s ! a)" c] assms that
  by (auto simp: body_send_def body_view_def)

lemma body_send_full:
  "receiver (bodyq a s) \<Longrightarrow> capacity (bodyq a s) \<le> length (queued (bodyq a s)) \<Longrightarrow>
   run (body_send R a c) s = Blocked s (body_send R a c)"
  by (simp add: body_send_def body_view_def bod.send_full)

lemma body_send_gone: "\<not> receiver (bodyq a s) \<Longrightarrow> run (body_send R a c) s = Finished s False"
  by (simp add: body_send_def body_view_def bod.send_gone)

lemma on_stream_data_room:
  assumes "stream_open_at sid a s" "receiver (bodyq a s)" "length (queued (bodyq a s)) < capacity (bodyq a s)"
  shows "\<exists>s'. run (on_stream_data R sid payload) s = Finished s' (length payload) \<and> streams s' = streams s \<and>
    bodyq a s' = (bodyq a s)\<lparr>queued := queued (bodyq a s) @ [ChunkData payload]\<rparr> \<and> stream_open_at sid a s' \<and>
    outbound s' = outbound s \<and> head_slot (stream_heap s' ! a) = head_slot (stream_heap s ! a) \<and>
    head_tx (stream_heap s' ! a) = head_tx (stream_heap s ! a)"
proof -
  let ?s1 = "set_stream a (\<lambda>st. st\<lparr>body := chan_clone_tx (rt_body R) (body st)\<rparr>) s"
  have a: "a < length (stream_heap s)" using assms(1) by (simp add: stream_open_at_def)
  then have v1: "bodyq a ?s1 = (bodyq a s)\<lparr>senders := senders (bodyq a s) + 1\<rparr>"
    by (simp add: body_view_def bod.clone_tx_law)
  obtain q where q: "run (body_send R a (ChunkData payload)) ?s1 = Finished (set_stream a (\<lambda>st. st\<lparr>body := q\<rparr>) ?s1) True"
    "bview q = (bodyq a ?s1)\<lparr>queued := queued (bodyq a ?s1) @ [ChunkData payload]\<rparr>"
    using body_send_room [of a ?s1 "ChunkData payload"] a assms(2,3) v1 by auto
  let ?s3 = "set_stream a (\<lambda>st. st\<lparr>body := chan_drop_tx (rt_body R) (body st)\<rparr>) (set_stream a (\<lambda>st. st\<lparr>body := q\<rparr>) ?s1)"
  have "run (on_stream_data R sid payload) s = Finished ?s3 (length payload)"
    by (simp add: on_stream_data_def run_call run_stream_body_sender [OF assms(1)] q(1) drop_body_sender_def)
  moreover have "bodyq a ?s3 = (bodyq a s)\<lparr>queued := queued (bodyq a s) @ [ChunkData payload]\<rparr>"
    using a v1 q(2) by (simp add: body_view_def bod.drop_tx_law)
  moreover have "stream_open_at sid a ?s3" using assms(1) by (simp add: stream_open_at_def)
  ultimately show ?thesis using a by (intro exI [of _ ?s3]) simp
qed

lemma on_stream_data_full:
  assumes "stream_open_at sid a s" "receiver (bodyq a s)" "capacity (bodyq a s) \<le> length (queued (bodyq a s))"
  shows "\<exists>s' t. run (on_stream_data R sid payload) s = Blocked s' t \<and> streams s' = streams s \<and>
    queued (bodyq a s') = queued (bodyq a s)"
proof -
  let ?s1 = "set_stream a (\<lambda>st. st\<lparr>body := chan_clone_tx (rt_body R) (body st)\<rparr>) s"
  have a: "a < length (stream_heap s)" using assms(1) by (simp add: stream_open_at_def)
  then have v1: "bodyq a ?s1 = (bodyq a s)\<lparr>senders := senders (bodyq a s) + 1\<rparr>"
    by (simp add: body_view_def bod.clone_tx_law)
  then have "run (body_send R a (ChunkData payload)) ?s1 = Blocked ?s1 (body_send R a (ChunkData payload))"
    using assms(2,3) by (intro body_send_full) simp_all
  then show ?thesis using v1
    by (simp add: on_stream_data_def run_call run_stream_body_sender [OF assms(1)])
qed

lemma on_stream_data_hung_up:
  assumes "stream_open_at sid a s" "\<not> receiver (bodyq a s)"
  shows "\<exists>s'. run (on_stream_data R sid payload) s = Finished s' 0 \<and> streams s' = (streams s)(sid := None) \<and>
    sem_closed (sview (send_credit (stream_heap s' ! a)))"
proof -
  let ?s1 = "set_stream a (\<lambda>st. st\<lparr>body := chan_clone_tx (rt_body R) (body st)\<rparr>) s"
  let ?s2 = "closed_state R sid a ?s1"
  let ?s3 = "set_stream a (\<lambda>st. st\<lparr>body := chan_drop_tx (rt_body R) (body st)\<rparr>) ?s2"
  have a: "a < length (stream_heap s)" "streams s sid = Some a" using assms(1) by (simp_all add: stream_open_at_def)
  have "\<not> receiver (bodyq a ?s1)" using a assms(2) by (simp add: body_view_def bod.clone_tx_law)
  then have "run (body_send R a (ChunkData payload)) ?s1 = Finished ?s1 False" by (rule body_send_gone)
  then have "run (on_stream_data R sid payload) s = Finished ?s3 0"
    using a(2) by (simp add: on_stream_data_def run_call run_stream_body_sender [OF assms(1)]
        run_close_stream drop_body_sender_def)
  moreover have len: "a < length (stream_heap ?s2)" using a by (simp add: closed_state_def)
  have "sem_closed (sview (send_credit (stream_heap ?s3 ! a)))"
    using closed_state_closes [of a ?s1 sid] a len by simp
  ultimately show ?thesis by (intro exI [of _ ?s3]) (simp add: closed_state_def)
qed

lemma on_response_head_once:
  assumes "stream_open_at (rh_stream_id h) a s" "head_tx (stream_heap s ! a)" "hview (head_slot (stream_heap s ! a)) = Waiting"
    "rh_stream_id h' = rh_stream_id h"
  shows "\<exists>s1. run (on_response_head R h) s = Finished s1 () \<and> hview (head_slot (stream_heap s1 ! a)) = Delivered h \<and>
    run (on_response_head R h') s1 = Finished s1 ()"
  using assms one.once_send_law [OF assms(3), of h]
  by (auto simp: on_response_head_def stream_open_at_def)

end

section \<open>Properties\<close>

text \<open>C28. Body bytes from the agent, on every branch: with room they join the end of the response body and
  the handler reports their length, which is the credit to give back; with a full body queue the
  handler waits and nothing is lost or reordered; with the public client gone the stream is torn
  down, its uploader is woken and no credit is given; for an unknown stream nothing changes and no
  credit is given.\<close>

theorem agent_data_delivered:
  assumes "session_runtime R sview oview bview hview" "stream_open_at sid a s" "streams s other = None"
  shows "(let q = body_view bview a s in
     if \<not> receiver q then
       \<exists>s'. run (on_stream_data R sid payload) s = Finished s' 0 \<and> streams s' = (streams s)(sid := None) \<and>
         sem_closed (sview (send_credit (stream_heap s' ! a)))
     else if capacity q \<le> length (queued q) then
       \<exists>s' t. run (on_stream_data R sid payload) s = Blocked s' t \<and> streams s' = streams s \<and>
         queued (body_view bview a s') = queued q
     else
       \<exists>s'. run (on_stream_data R sid payload) s = Finished s' (length payload) \<and> streams s' = streams s \<and>
         body_view bview a s' = q\<lparr>queued := queued q @ [ChunkData payload]\<rparr>) \<and>
   run (on_stream_data R other payload) s = Finished s 0"
  using session_runtime.on_stream_data_hung_up [OF assms(1,2), of payload]
    session_runtime.on_stream_data_full [OF assms(1,2), of payload]
    session_runtime.on_stream_data_room [OF assms(1,2), of payload] assms(3)
  by (auto simp: Let_def on_stream_data_def run_call stream_body_sender_def)

theorem agent_data_delivered_witness:
  "\<exists>s'. run (on_stream_data ref_runtime 1 ''hello'') (sample_session 4) = Finished s' 5 \<and>
     queued (body_view id 0 s') = [ChunkData ''hello'']"
  using agent_data_delivered [of ref_runtime id id id id 1 0 "sample_session 4" 2 "''hello''"]
    ref_rt.session_runtime_axioms
  by (auto simp: stream_open_at_def sample_session_simps body_view_def Let_def)

text \<open>A response head reaches the waiting request, and only the first one does: a second head for the
  same stream changes nothing.\<close>

lemma response_head_delivered_once:
  assumes "session_runtime R sview oview bview hview" "stream_open_at (rh_stream_id h) a s"
    and "head_tx (stream_heap s ! a)" "hview (head_slot (stream_heap s ! a)) = Waiting"
    and "rh_stream_id h' = rh_stream_id h"
  shows "\<exists>s1. run (on_response_head R h) s = Finished s1 () \<and>
    once_recv (rt_once R) (head_slot (stream_heap s1 ! a)) = Some (Some h) \<and>
    run (on_response_head R h') s1 = Finished s1 ()"
proof -
  have "oneshot (rt_once R) hview" using assms(1) by (simp add: session_runtime_def)
  then show ?thesis
    using session_runtime.on_response_head_once [OF assms] by (auto simp: oneshot.once_recv_law)
qed

lemma response_head_delivered_once_witness:
  "\<exists>s1. run (on_response_head ref_runtime \<lparr>rh_stream_id = 1, rh_status = 200, rh_headers = []\<rparr>) (sample_session 4) = Finished s1 () \<and>
     once_recv ref_once (head_slot (stream_heap s1 ! 0)) = Some (Some \<lparr>rh_stream_id = 1, rh_status = 200, rh_headers = []\<rparr>) \<and>
     run (on_response_head ref_runtime \<lparr>rh_stream_id = 1, rh_status = 500, rh_headers = []\<rparr>) s1 = Finished s1 ()"
  using response_head_delivered_once [of ref_runtime id id id id "\<lparr>rh_stream_id = 1, rh_status = 200, rh_headers = []\<rparr>" 0
      "sample_session 4" "\<lparr>rh_stream_id = 1, rh_status = 500, rh_headers = []\<rparr>"] ref_rt.session_runtime_axioms
  by (simp add: stream_open_at_def sample_session_simps)

text \<open>C30. Once a stream is closed its late frames are dropped: after \<open>close_stream\<close> every frame the agent may
  still send for it (head, data, end, reset, window update) leaves the session exactly as it is, and
  sending to it reports failure.\<close>

theorem late_frames_dropped:
  "\<exists>s'. run (close_stream R sid) s = Finished s' () \<and> streams s' sid = None \<and>
    run (on_response_head R \<lparr>rh_stream_id = sid, rh_status = st, rh_headers = hs\<rparr>) s' = Finished s' () \<and>
    run (on_stream_data R sid payload) s' = Finished s' 0 \<and>
    run (on_stream_end R sid hs) s' = Finished s' () \<and>
    run (on_stream_reset R sid code msg) s' = Finished s' () \<and>
    run (on_window_update R sid n) s' = Finished s' () \<and>
    run (send_stream_data R sid payload) s' = Finished s' False"
proof -
  obtain s' where s': "run (close_stream R sid) s = Finished s' ()" "streams s' sid = None"
    by (cases "streams s sid") (auto simp: run_close_stream closed_state_def)
  have "s'\<lparr>streams := (streams s')(sid := None)\<rparr> = s'" using s'(2) by (simp add: fun_upd_idem)
  with s' show ?thesis
    by (intro exI [of _ s'])
      (simp add: on_response_head_def on_stream_data_def on_stream_end_def on_stream_reset_def on_window_update_def
        send_stream_data_def stream_body_sender_def run_call run_close_stream)
qed

end
