(* ===== verification/Ledger.thy ===== *)
theory Ledger
  imports Async
begin

text \<open>
  Invariants of shared state that single steps break and whole operations restore. A task may hold
  resources, such as an identifier it has reserved, a counter update it still owes or bytes it may send,
  from a commutative monoid; the invariant \<open>J r s\<close> relates the state to the sum of what all tasks hold.
  \<open>accounts J r t Q\<close> is a triple of separation logic for tasks: a task that holds \<open>r\<close> accounts for every step it
  takes, whatever the others hold, and when it returns \<open>a\<close> it holds \<open>Q a\<close>. \<open>settled J r t\<close> says that it has given
  everything back by then. In every interleaving of settled tasks the invariant holds of the sum, so
  once they have all ended it holds of nothing: \<open>J 0 s\<close>.
\<close>

inductive accounts :: "('r :: comm_monoid_add \<Rightarrow> 's \<Rightarrow> bool) \<Rightarrow> 'r \<Rightarrow> ('s, 'a) task \<Rightarrow> ('a \<Rightarrow> 'r) \<Rightarrow> bool" for J where
  Return: "accounts J (Q a) (Return a) Q"
| Halt [intro, simp]: "accounts J 0 Halt Q"
| Panic [intro, simp]: "accounts J 0 (Panic e) Q"
| Step: "(\<And>s s' t F. \<lbrakk>J (r + F) s; f s = Some (s', t)\<rbrakk> \<Longrightarrow> \<exists>r'. J (r' + F) s' \<and> accounts J r' t Q) \<Longrightarrow>
    accounts J r (Step f) Q"
| Spawn: "\<lbrakk>accounts J r c Q; accounts J r' t Q\<rbrakk> \<Longrightarrow> accounts J (r + r') (Spawn c t) Q"
| Exchange: "\<lbrakk>\<And>F s. J (r + F) s \<Longrightarrow> J (r' + F) s; accounts J r' t Q\<rbrakk> \<Longrightarrow> accounts J r t Q"

abbreviation settled :: "('r :: comm_monoid_add \<Rightarrow> 's \<Rightarrow> bool) \<Rightarrow> 'r \<Rightarrow> ('s, 'a) task \<Rightarrow> bool" where
  "settled J r t \<equiv> accounts J r t (\<lambda>_. 0)"

lemma settled_Return [intro, simp]: "settled J 0 (Return a)"
  using accounts.Return [where Q = "\<lambda>_. 0"] .

lemma accounts_Return: "Q a = r \<Longrightarrow> accounts J r (Return a) Q"
  using accounts.Return by metis

text \<open>What a task that is about to take a step, or to spawn, or that has ended, holds.\<close>

lemma accounts_StepD:
  assumes "accounts J r (Step f) Q" "J (r + F) s" "f s = Some (s', t)"
  shows "\<exists>r'. J (r' + F) s' \<and> accounts J r' t Q"
  using assms by (induction r "Step f" Q rule: accounts.induct) blast+

lemma accounts_SpawnD:
  assumes "accounts J r (Spawn c t) Q" "J (r + F) s"
  shows "\<exists>r1 r2. J (r1 + r2 + F) s \<and> accounts J r1 c Q \<and> accounts J r2 t Q"
  using assms by (induction r "Spawn c t" Q rule: accounts.induct) blast+

definition ended :: "('s, 'a) task \<Rightarrow> bool" where
  "ended t \<longleftrightarrow> (case t of Return _ \<Rightarrow> True | Halt \<Rightarrow> True | Panic _ \<Rightarrow> True | _ \<Rightarrow> False)"

lemma settled_endedD:
  assumes "settled J r t" "ended t" "J (r + F) s"
  shows "J F s"
proof -
  have "J F s" if "accounts J r t Q" "\<forall>a. Q a = 0" for Q using that assms(2,3)
    by (induction rule: accounts.induct) (auto simp: ended_def)
  with assms(1) show ?thesis by simp
qed

section \<open>Rules\<close>

lemma accounts_call:
  assumes "accounts J r m P" "\<And>x. accounts J (P x) (k x) Q"
  shows "accounts J r (call m k) Q"
  using assms
proof (induction rule: accounts.induct)
  case (Step r f P)
  show ?case
    unfolding call.simps
  proof (rule accounts.Step)
    fix s s' t F
    assume "J (r + F) s" "map_option (map_prod id (\<lambda>t. call t k)) (f s) = Some (s', t)"
    then obtain t' where "f s = Some (s', t')" "t = call t' k" by auto
    with Step.IH [OF \<open>J (r + F) s\<close>] Step.prems show "\<exists>r'. J (r' + F) s' \<and> accounts J r' t Q" by blast
  qed
next
  case (Exchange r r' t P)
  show ?case by (rule accounts.Exchange [of J r r']) (use Exchange in auto)
qed (auto intro: accounts.Spawn)

lemma settled_call [intro]: "settled J r m \<Longrightarrow> (\<And>x. settled J 0 (k x)) \<Longrightarrow> settled J r (call m k)"
  by (rule accounts_call) auto

text \<open>The first step of a task, and how it goes on.\<close>

lemma accounts_atomically_then:
  assumes "\<And>s F. J (r + F) s \<Longrightarrow> \<exists>r'. J (r' + F) (fst (f s)) \<and> accounts J r' (k (snd (f s))) Q"
  shows "accounts J r (call (atomically f) k) Q"
  unfolding atomically_def call.simps
proof (rule accounts.Step)
  fix s s' t F
  assume J: "J (r + F) s"
    and "map_option (map_prod id (\<lambda>t. call t k)) (let (s', a) = f s in Some (s', Return a)) = Some (s', t)"
  then have "s' = fst (f s)" "t = k (snd (f s))" by (auto split: prod.splits)
  with assms [OF J] show "\<exists>r'. J (r' + F) s' \<and> accounts J r' t Q" by simp
qed

lemma accounts_update_then:
  "(\<And>s F. J (r + F) s \<Longrightarrow> J (r' + F) (f s)) \<Longrightarrow> accounts J r' (k ()) Q \<Longrightarrow> accounts J r (call (update f) k) Q"
  unfolding update_def by (rule accounts_atomically_then) auto

lemma accounts_read_then:
  "(\<And>s F. J (r + F) s \<Longrightarrow> \<exists>r'. J (r' + F) s \<and> accounts J r' (k (f s)) Q) \<Longrightarrow> accounts J r (call (read f) k) Q"
  unfolding read_def by (rule accounts_atomically_then) auto

lemma accounts_atomically:
  assumes "\<And>s F. J (r + F) s \<Longrightarrow> J (Q (snd (f s)) + F) (fst (f s))"
  shows "accounts J r (atomically f) Q"
proof -
  have "accounts J r (call (atomically f) Return) Q"
    by (rule accounts_atomically_then, rule exI [of _ "Q (snd (f s))" for s], rule conjI, erule assms) (rule accounts.Return)
  then show ?thesis by simp
qed

lemma accounts_update: "(\<And>s F. J (r + F) s \<Longrightarrow> J (Q () + F) (f s)) \<Longrightarrow> accounts J r (update f) Q"
  unfolding update_def by (rule accounts_atomically) auto

lemma accounts_await:
  assumes "\<And>s s' a F. J (r + F) s \<Longrightarrow> f s = Some (s', a) \<Longrightarrow> J (Q a + F) s'"
  shows "accounts J r (await f) Q"
  unfolding await_def by (rule accounts.Step) (use assms accounts.Return in fastforce)

lemma accounts_access:
  assumes "\<And>s s' a F. J (r + F) s \<Longrightarrow> f s = Some (s', a) \<Longrightarrow> J (Q a + F) s'" "\<And>s F. J (r + F) s \<Longrightarrow> f s = None \<Longrightarrow> J F s"
  shows "accounts J r (access e f) Q"
  unfolding access_def
proof (rule accounts.Step, goal_cases)
  case (1 s s' t F)
  show ?case
  proof (cases "f s")
    case None
    with 1 assms(2) show ?thesis by (auto intro: exI [of _ 0])
  next
    case (Some x)
    with 1 assms(1) [of F s "fst x" "snd x"] show ?thesis by (auto simp: case_prod_unfold intro: accounts.Return)
  qed
qed

lemma settled_update: "(\<And>s F. J (r + F) s \<Longrightarrow> J F (f s)) \<Longrightarrow> settled J r (update f)"
  by (rule accounts_update) simp

lemma settled_for_each [intro]: "(\<And>x. settled J 0 (body x)) \<Longrightarrow> settled J 0 (for_each body xs)"
  by (induction xs) auto

lemma settled_spawn [intro]: "settled J r c \<Longrightarrow> accounts J r' t Q \<Longrightarrow> accounts J (r + r') (spawn c t) Q"
  unfolding spawn_def by (rule accounts.Spawn) (auto intro: accounts_call)

text \<open>A task on a part of the state. The rest of the state may hold resources of its own, which the part sees as held
  by others.\<close>

lemma accounts_zoom:
  assumes "accounts J r t Q"
    and whole: "\<And>r w. J' r w \<longleftrightarrow> (\<exists>x. rest x w \<and> J (r + x) (get w))"
    and part: "\<And>x w s. rest x w \<Longrightarrow> rest x (put s w) \<and> get (put s w) = s"
  shows "accounts J' r (zoom get put t) Q"
  using assms(1)
proof (induction rule: accounts.induct)
  case (Step r f Q)
  show ?case
    unfolding zoom.simps
  proof (rule accounts.Step)
    fix w w' t F
    assume "J' (r + F) w" "map_option (map_prod (\<lambda>s. put s w) (zoom get put)) (f (get w)) = Some (w', t)"
    then obtain x s' t' where x: "rest x w" "J (r + (F + x)) (get w)" "f (get w) = Some (s', t')" "w' = put s' w" "t = zoom get put t'"
      by (auto simp: whole add.assoc)
    then obtain r' where "J (r' + (F + x)) s'" "accounts J' r' t Q" using Step.IH [OF x(2,3)] by blast
    with part [OF x(1), of s'] x(4) show "\<exists>r'. J' (r' + F) w' \<and> accounts J' r' t Q"
      by (auto simp: whole add.assoc)
  qed
next
  case (Exchange r r' t Q)
  show ?case
    by (rule accounts.Exchange [OF _ Exchange.IH]) (use Exchange.hyps(1) in \<open>auto simp: whole add.assoc\<close>)
qed (auto intro: accounts.intros)

section \<open>Tasks that change no account\<close>

definition neutral :: "('r :: comm_monoid_add \<Rightarrow> 's \<Rightarrow> bool) \<Rightarrow> ('s, 'a) task \<Rightarrow> bool" where
  "neutral J t \<longleftrightarrow> (\<forall>r. accounts J r t (\<lambda>_. r))"

named_theorems neutral_intros \<open>tasks that change no account\<close>

lemma neutralD: "neutral J t \<Longrightarrow> accounts J r t (\<lambda>_. r)"
  by (simp add: neutral_def)

lemma neutral_Return [neutral_intros]: "neutral J (Return a)"
  by (simp add: neutral_def accounts_Return)

lemma neutral_call [neutral_intros]: "neutral J m \<Longrightarrow> (\<And>x. neutral J (k x)) \<Longrightarrow> neutral J (call m k)"
  unfolding neutral_def by (blast intro: accounts_call)

lemma neutral_atomically: "(\<And>s M. J M s \<Longrightarrow> J M (fst (f s))) \<Longrightarrow> neutral J (atomically f)"
  by (simp add: neutral_def accounts_atomically)

lemma neutral_update: "(\<And>s M. J M s \<Longrightarrow> J M (f s)) \<Longrightarrow> neutral J (update f)"
  by (simp add: neutral_def accounts_update)

lemma neutral_read [neutral_intros]: "neutral J (read f)"
  unfolding read_def by (rule neutral_atomically) simp

lemma neutral_await: "(\<And>s s' a M. J M s \<Longrightarrow> f s = Some (s', a) \<Longrightarrow> J M s') \<Longrightarrow> neutral J (await f)"
  unfolding neutral_def by (blast intro: accounts_await)

lemma neutral_for_each [neutral_intros]: "(\<And>x. neutral J (body x)) \<Longrightarrow> neutral J (for_each body xs)"
  by (induction xs) (auto intro: neutral_intros)

lemma neutral_if [neutral_intros]: "neutral J m \<Longrightarrow> neutral J n \<Longrightarrow> neutral J (if b then m else n)"
  by simp

lemma neutral_option [neutral_intros]:
  "neutral J m \<Longrightarrow> (\<And>x. neutral J (n x)) \<Longrightarrow> neutral J (case v of None \<Rightarrow> m | Some x \<Rightarrow> n x)"
  by (cases v) auto

lemma settled_neutral: "neutral J t \<Longrightarrow> settled J 0 t"
  by (rule neutralD)

section \<open>Pools of settled tasks\<close>

definition holdings :: "('r :: comm_monoid_add \<Rightarrow> 's \<Rightarrow> bool) \<Rightarrow> 's \<Rightarrow> ('s, 'a) task list \<Rightarrow> 'r list \<Rightarrow> bool" where
  "holdings J s ts rs \<longleftrightarrow> length rs = length ts \<and> J (sum_list rs) s \<and> (\<forall>i < length ts. settled J (rs ! i) (ts ! i))"

lemma sum_list_at:
  fixes rs :: "'r :: comm_monoid_add list"
  assumes "i < length rs"
  shows "sum_list (rs[i := r]) = r + (sum_list (take i rs) + sum_list (drop (Suc i) rs))"
  using assms by (simp add: upd_conv_take_nth_drop add.left_commute)

lemma pool_step_holdings:
  assumes "pool_step (s, ts) (s', ts')" "holdings J s ts rs"
  shows "\<exists>rs'. holdings J s' ts' rs'"
  using assms(1)
proof (cases rule: pool_step.cases)
  case (go i f t)
  let ?F = "sum_list (take i rs) + sum_list (drop (Suc i) rs)"
  have i: "i < length rs" using go(2) assms(2) by (simp add: holdings_def)
  have "J (rs ! i + ?F) s" using assms(2) sum_list_at [OF i, of "rs ! i"] by (simp add: holdings_def)
  moreover have "settled J (rs ! i) (Step f)" using go assms(2) by (auto simp: holdings_def)
  ultimately obtain r' where "J (r' + ?F) s'" "settled J r' t" using accounts_StepD go(4) by metis
  then have "holdings J s' ts' (rs[i := r'])"
    using go assms(2) i sum_list_at [OF i, of r'] by (auto simp: holdings_def nth_list_update)
  then show ?thesis ..
next
  case (fork i c t)
  let ?F = "sum_list (take i rs) + sum_list (drop (Suc i) rs)"
  have i: "i < length rs" using fork(3) assms(2) by (simp add: holdings_def)
  have "J (rs ! i + ?F) s" using assms(2) sum_list_at [OF i, of "rs ! i"] by (simp add: holdings_def)
  moreover have "settled J (rs ! i) (Spawn c t)" using fork assms(2) by (auto simp: holdings_def)
  ultimately obtain r1 r2 where r: "J (r1 + r2 + ?F) s" "settled J r1 c" "settled J r2 t" using accounts_SpawnD by metis
  then have "J (sum_list (rs[i := r2] @ [r1])) s" using sum_list_at [OF i, of r2] by (simp add: ac_simps)
  with r have "holdings J s' ts' (rs[i := r2] @ [r1])"
    using fork assms(2) by (auto simp: holdings_def nth_append nth_list_update less_Suc_eq)
  then show ?thesis ..
qed

lemma pool_holdings:
  assumes "pool_step\<^sup>*\<^sup>* (s, ts) (s', ts')" "holdings J s ts rs"
  shows "\<exists>rs'. holdings J s' ts' rs'"
  using assms(1)
proof (induction "(s', ts')" arbitrary: s' ts' rule: rtranclp_induct)
  case base
  show ?case using assms(2) by blast
next
  case (step y)
  obtain s1 ts1 where "y = (s1, ts1)" by force
  with step show ?case using pool_step_holdings [of s1 ts1 s' ts' J] by blast
qed

text \<open>Once every task has ended the invariant holds with nothing outstanding.\<close>

lemma ended_give_back:
  assumes "length rs = length ts" "\<forall>i < length ts. settled J (rs ! i) (ts ! i) \<and> ended (ts ! i)" "J (sum_list rs + F) s"
  shows "J F s"
  using assms
proof (induction rs ts rule: list_induct2)
  case (Cons r rs t ts)
  have "settled J r t" "ended t" using Cons.prems(1) by force+
  then have "J (sum_list rs + F) s" using settled_endedD [of J r t "sum_list rs + F" s] Cons.prems(2) by (simp add: add.assoc)
  then show ?case using Cons.IH Cons.prems(1) by force
qed simp

lemma pool_ends:
  assumes "pool_step\<^sup>*\<^sup>* (s, ts) (s', ts')" "holdings J s ts rs" "\<forall>t \<in> set ts'. ended t"
  shows "J 0 s'"
proof -
  obtain rs' where "holdings J s' ts' rs'" using pool_holdings [OF assms(1,2)] by blast
  then show ?thesis using ended_give_back [of rs' ts' J 0 s'] assms(3) by (simp add: holdings_def)
qed

end
