(* ===== verification/Session_Streams.thy ===== *)
theory Session_Streams
  imports Session_Flow Ledger "HOL-Library.Multiset"
begin

text \<open>
  The stream table of a session under concurrency: the counter of open streams is exact once all
  operations have ended, however they interleave, and the limit check can be outrun.
\<close>

section \<open>The operations of a session\<close>

datatype session_op =
    OpenStream string http_request_head string
  | SendData u64 bytes
  | SendEnd u64
  | GrantWindow u64 u32
  | ResetStream u64 reset_code string
  | CloseStream u64
  | CloseAll "(u64 \<rightharpoonup> nat) \<Rightarrow> u64 list"
  | OnResponseHead http_response_head
  | OnStreamData u64 bytes
  | OnStreamEnd u64 "header list"
  | OnStreamReset u64 reset_code string
  | OnWindowUpdate u64 u32

primrec op_task ::
    "('m, 'qo, 'qb, 'o) runtime \<Rightarrow> session_op \<Rightarrow> (('m, 'qo, 'qb, 'o) session, unit) task" where
  "op_task R (OpenStream tid head addr) = call (open_http_stream R tid head addr) (\<lambda>_. Return ())"
| "op_task R (SendData sid payload) = call (send_stream_data R sid payload) (\<lambda>_. Return ())"
| "op_task R (SendEnd sid) = call (send_stream_end R sid) (\<lambda>_. Return ())"
| "op_task R (GrantWindow sid n) = call (grant_window R sid n) (\<lambda>_. Return ())"
| "op_task R (ResetStream sid code msg) = reset_stream R sid code msg"
| "op_task R (CloseStream sid) = close_stream R sid"
| "op_task R (CloseAll keys) = close_all_streams R keys"
| "op_task R (OnResponseHead head) = on_response_head R head"
| "op_task R (OnStreamData sid payload) = call (on_stream_data R sid payload) (\<lambda>_. Return ())"
| "op_task R (OnStreamEnd sid trailers) = on_stream_end R sid trailers"
| "op_task R (OnStreamReset sid code msg) = on_stream_reset R sid code msg"
| "op_task R (OnWindowUpdate sid n) = on_window_update R sid n"

section \<open>What an operation may hold\<close>

text \<open>A ticket stands for a stream id an operation may still take, \<open>Reserved\<close> for one it has taken,
  \<open>Uncounted\<close> for an entry that is in the table and not yet in the counter, \<open>Overcounted\<close> for one that
  has left the table and is still in the counter.\<close>

datatype token = Ticket | Reserved u64 | Uncounted | Overcounted

definition stream_ledger :: "token multiset \<Rightarrow> ('m, 'qo, 'qb, 'o) session \<Rightarrow> bool" where
  "stream_ledger M s \<longleftrightarrow>
     finite (dom (streams s)) \<and>
     open_streams s + of_nat (count M Uncounted) = of_nat (card (dom (streams s))) + of_nat (count M Overcounted) \<and>
     (\<forall>sid \<in> dom (streams s). unat sid < unat (next_stream_id s)) \<and>
     (\<forall>sid. count M (Reserved sid) \<le> 1) \<and>
     (\<forall>sid. Reserved sid \<in># M \<longrightarrow> streams s sid = None \<and> unat sid < unat (next_stream_id s)) \<and>
     unat (next_stream_id s) + count M Ticket < 2 ^ 64"

text \<open>Steps that touch neither the table nor the counters.\<close>

lemma stream_ledger_frame:
  "streams s' = streams s \<Longrightarrow> open_streams s' = open_streams s \<Longrightarrow> next_stream_id s' = next_stream_id s \<Longrightarrow>
   stream_ledger M s' = stream_ledger M s"
  by (simp add: stream_ledger_def)

lemma stream_ledger_remove:
  assumes "stream_ledger F s" "streams s sid = Some a"
  shows "stream_ledger ({#Overcounted#} + F) (s\<lparr>streams := (streams s)(sid := None)\<rparr>)"
proof -
  have fin: "finite (dom (streams s))" using assms(1) by (simp add: stream_ledger_def)
  then have "card (dom (streams s)) = Suc (card (dom (streams s) - {sid}))"
    using assms(2) by (metis card_Suc_Diff1 domI)
  then show ?thesis using assms(1)
    by (auto simp: stream_ledger_def algebra_simps)
qed

lemma stream_ledger_uncount:
  "stream_ledger ({#Overcounted#} + F) s \<Longrightarrow> stream_ledger F (s\<lparr>open_streams := open_streams s - 1\<rparr>)"
  by (auto simp: stream_ledger_def algebra_simps)

lemma stream_ledger_count:
  "stream_ledger ({#Uncounted#} + F) s \<Longrightarrow> stream_ledger F (s\<lparr>open_streams := open_streams s + 1\<rparr>)"
  by (auto simp: stream_ledger_def algebra_simps)

lemma stream_ledger_reserve:
  assumes "stream_ledger ({#Ticket#} + F) s"
  shows "stream_ledger ({#Reserved (next_stream_id s)#} + F) (s\<lparr>next_stream_id := next_stream_id s + 1\<rparr>)"
proof -
  have "unat (next_stream_id s) + 1 < 2 ^ 64" using assms by (auto simp: stream_ledger_def)
  then have "unat (next_stream_id s + 1) = unat (next_stream_id s) + 1"
    by (simp add: unat_word_ariths)
  moreover have "streams s (next_stream_id s) = None"
    using assms by (auto simp: stream_ledger_def dom_def)
  moreover have "Reserved (next_stream_id s) \<notin># F" using assms by (auto simp: stream_ledger_def)
  ultimately show ?thesis
    using assms by (auto simp: stream_ledger_def not_in_iff less_Suc_eq)
qed

lemma stream_ledger_insert:
  assumes "stream_ledger ({#Reserved sid#} + F) s"
  shows "stream_ledger ({#Uncounted#} + F) (s\<lparr>stream_heap := h, streams := (streams s)(sid \<mapsto> a)\<rparr>)"
proof -
  have none: "streams s sid = None" and fin: "finite (dom (streams s))" and "Reserved sid \<notin># F"
    using assms by (auto simp: stream_ledger_def not_in_iff dest: spec [of _ sid])
  have "card (dom ((streams s)(sid \<mapsto> a))) = Suc (card (dom (streams s)))"
    by (rule card_dom_insert_new [OF fin none])
  moreover have "count F (Reserved x) \<le> 1" for x
    using assms unfolding stream_ledger_def by (metis count_union le_add2 le_trans)
  ultimately show ?thesis using assms \<open>Reserved sid \<notin># F\<close>
    by (auto simp: stream_ledger_def algebra_simps split: if_splits)
qed

lemma stream_ledger_drop: "stream_ledger (add_mset Ticket F) s \<Longrightarrow> stream_ledger F s"
  by (auto simp: stream_ledger_def)

section \<open>Every operation settles its account\<close>

lemma neutral_set_stream [neutral_intros]: "neutral stream_ledger (update (set_stream a f))"
  by (rule neutral_update) (simp add: stream_ledger_frame [where s = s and s' = "set_stream a f s" for s])

lemma neutral_session_send [neutral_intros]: "neutral stream_ledger (session_send R frame)"
  unfolding session_send_def
  by (rule neutral_await) (auto simp: stream_ledger_def split: poll.splits)

lemma neutral_close_stream [neutral_intros]: "neutral stream_ledger (close_stream R sid)"
  unfolding neutral_def close_stream_def
proof (intro allI accounts_atomically_then, goal_cases)
  case (1 r s F)
  have rest: "accounts stream_ledger ({#Overcounted#} + r)
     (call (update (set_stream a (\<lambda>st. st\<lparr>stream_closed := True\<rparr>))) (\<lambda>_.
      call (update (set_stream a (\<lambda>st. st\<lparr>send_credit := sem_close (rt_sem R) (send_credit st)\<rparr>))) (\<lambda>_.
      call (update (\<lambda>s. s\<lparr>open_streams := open_streams s - 1\<rparr>)) (\<lambda>_.
        update (set_stream a (drop_stream_senders R)))))) (\<lambda>_. r)" for a
    by (intro accounts_call [OF neutralD [OF neutral_set_stream]] accounts_update_then [where r' = r] neutralD neutral_set_stream)
      (simp add: stream_ledger_uncount)
  show ?case
  proof (cases "streams s sid")
    case None
    then have "s\<lparr>streams := (streams s)(sid := None)\<rparr> = s" by (simp add: fun_upd_idem)
    with None 1 show ?thesis by (auto intro!: exI [of _ r] accounts_Return)
  next
    case (Some a)
    with 1 rest show ?thesis
      using stream_ledger_remove [of "r + F" s sid a] by (auto intro!: exI [of _ "{#Overcounted#} + r"])
  qed
qed

text \<open>Opening a stream: taking a number, entering the table, counting, telling the agent.\<close>

lemma settled_opened:
  "settled stream_ledger 0 (call (read initial_window) (\<lambda>window. call (session_send R (frame window)) (\<lambda>opened.
     if \<not> opened then
       call (close_stream R sid) (\<lambda>_. call (drop_body_receiver R a) (\<lambda>_. call (drop_head_receiver R a) (\<lambda>_. Return gone)))
     else Return resp)))"
  unfolding drop_body_receiver_def drop_head_receiver_def
  by (rule settled_neutral) (auto intro!: neutral_intros)

lemma settled_inserted:
  assumes "\<And>a. settled stream_ledger 0 (k a)"
  shows "settled stream_ledger {#Reserved sid#}
    (call (atomically (\<lambda>s. (s\<lparr>stream_heap := stream_heap s @ [fresh_stream R (initial_window s)],
                              streams := (streams s)(sid \<mapsto> length (stream_heap s))\<rparr>,
                            length (stream_heap s)))) (\<lambda>a.
     call (update (\<lambda>s. s\<lparr>open_streams := open_streams s + 1\<rparr>)) (\<lambda>_. k a)))"
  by (rule accounts_atomically_then, rule exI [of _ "{#Uncounted#}"])
    (auto intro!: stream_ledger_insert [simplified] accounts_update_then [where r' = 0] assms stream_ledger_count)

lemma settled_reserved:
  assumes "\<And>sid. settled stream_ledger {#Reserved sid#} (k sid)"
  shows "settled stream_ledger {#Ticket#} (call (atomically (\<lambda>s. (s\<lparr>next_stream_id := next_stream_id s + 1\<rparr>, next_stream_id s))) k)"
proof (rule accounts_atomically_then, goal_cases)
  case (1 s F)
  show ?case by (rule exI [of _ "{#Reserved (next_stream_id s)#}"]) (use 1 assms stream_ledger_reserve in auto)
qed

lemma settled_open_http_stream: "settled stream_ledger {#Ticket#} (open_http_stream R tid head addr)"
  unfolding open_http_stream_def
proof (rule accounts_read_then, goal_cases)
  case (1 s F)
  show ?case
  proof (cases "at_stream_limit s")
    case True
    with 1 show ?thesis by (auto intro!: exI [of _ 0] dest: stream_ledger_drop)
  next
    case False
    show ?thesis
      unfolding prod.case using 1 False
      by (intro exI [of _ "{#Ticket#}"]) (auto intro!: settled_reserved settled_inserted settled_opened)
  qed
qed

lemma neutral_acquire_credit [neutral_intros]: "neutral stream_ledger (acquire_credit R a n)"
  unfolding acquire_credit_def
  by (rule neutral_await) (auto simp: stream_ledger_def split: poll.splits)

lemma neutral_send_chunks [neutral_intros]: "neutral stream_ledger (send_chunks R a sid cs)"
  by (induction cs) (auto intro!: neutral_intros)

lemma neutral_body_ops [neutral_intros]:
  "neutral stream_ledger (stream_body_sender R sid)" "neutral stream_ledger (body_send R a c)"
  "neutral stream_ledger (drop_body_sender R a)" "neutral stream_ledger (on_response_head R head)"
proof -
  show "neutral stream_ledger (stream_body_sender R sid)"
    unfolding stream_body_sender_def
    by (rule neutral_atomically) (auto simp: stream_ledger_def split: option.splits)
  show "neutral stream_ledger (body_send R a c)"
    unfolding body_send_def by (rule neutral_await) (auto simp: stream_ledger_def split: poll.splits)
  show "neutral stream_ledger (drop_body_sender R a)"
    unfolding drop_body_sender_def by (rule neutral_set_stream)
  show "neutral stream_ledger (on_response_head R head)"
    unfolding on_response_head_def
    by (rule neutral_update) (auto simp: stream_ledger_def split: option.splits)
qed

lemma settled_on_window_update: "settled stream_ledger 0 (on_window_update R sid n)"
  unfolding on_window_update_def
  by (rule accounts_access) (auto simp: stream_ledger_def split: option.splits)

lemma settled_option:
  "settled J r m \<Longrightarrow> (\<And>x. settled J r (n x)) \<Longrightarrow> settled J r (case v of None \<Rightarrow> m | Some x \<Rightarrow> n x)"
  by (cases v) auto

lemmas settled_intros = settled_call settled_option settled_for_each settled_on_window_update
  settled_open_http_stream settled_neutral neutral_intros

definition ticket_of :: "session_op \<Rightarrow> token multiset" where
  "ticket_of op = (case op of OpenStream _ _ _ \<Rightarrow> {#Ticket#} | _ \<Rightarrow> 0)"

lemma settled_op_task: "settled stream_ledger (ticket_of op) (op_task R op)"
  by (cases op)
    (auto simp: ticket_of_def send_stream_data_def send_stream_end_def grant_window_def reset_stream_def
      close_all_streams_def on_stream_data_def on_stream_end_def on_stream_reset_def
      intro!: settled_intros)

section \<open>Properties\<close>

lemma count_tickets: "count (sum_list (map ticket_of ops)) x \<le> (if x = Ticket then length ops else 0)"
  by (induction ops) (auto simp: ticket_of_def split: session_op.splits)

lemma stream_ledger_start:
  assumes "stream_ledger 0 s" "unat (next_stream_id s) + length ops < 2 ^ 64"
  shows "holdings stream_ledger s (map (op_task R) ops) (map ticket_of ops)"
proof -
  let ?M = "sum_list (map ticket_of ops)"
  have none: "count ?M x = 0" if "x \<noteq> Ticket" for x using count_tickets [of ops x] that by simp
  then have "Reserved sid \<notin># ?M" for sid by (metis not_in_iff token.distinct(1))
  moreover have "count ?M Ticket \<le> length ops" using count_tickets [of ops Ticket] by simp
  ultimately have "stream_ledger ?M s"
    using assms none unfolding stream_ledger_def by (intro conjI) auto
  then show ?thesis by (simp add: holdings_def settled_op_task)
qed

text \<open>C8. However the operations of a session interleave, once all of them have ended the counter of
  open streams is exactly the number of entries of the stream table. The operations are any number of
  stream openings, body sends, window grants, resets, closings, whole-session teardowns and frames
  from the agent, and the counter may be off, even below zero, in between.\<close>

theorem open_streams_exact:
  assumes "finite (dom (streams s))" "open_streams s = of_nat (card (dom (streams s)))"
    and "\<forall>sid \<in> dom (streams s). unat sid < unat (next_stream_id s)"
    and "unat (next_stream_id s) + length ops < 2 ^ 64"
    and "pool_step\<^sup>*\<^sup>* (s, map (op_task R) ops) (s', ts)" "\<forall>t \<in> set ts. ended t"
  shows "open_streams s' = of_nat (card (dom (streams s'))) \<and> finite (dom (streams s'))"
proof -
  have "stream_ledger 0 s" using assms(1-4) by (simp add: stream_ledger_def)
  then have "holdings stream_ledger s (map (op_task R) ops) (map ticket_of ops)"
    using stream_ledger_start assms(4) by blast
  from pool_ends [OF assms(5) this assms(6)] show ?thesis by (simp add: stream_ledger_def)
qed

theorem open_streams_exact_witness:
  "\<exists>s ts. pool_step\<^sup>*\<^sup>* (sample_session 4, map (op_task ref_runtime) [CloseStream 1, CloseStream 1]) (s, ts) \<and>
     open_streams s = of_nat (card (dom (streams s)))"
proof -
  have "ends_in [0, 1, 0, 0, 0, 0] (sample_session 4)
      (map (op_task ref_runtime) [CloseStream 1, CloseStream 1]) (\<lambda>s ts. list_all ended ts)"
    by (simp add: ends_in_def close_stream_def sample_session_simps set_stream_def ended_def)
  then obtain s ts where end_state: "pool_step\<^sup>*\<^sup>* (sample_session 4,
      map (op_task ref_runtime) [CloseStream 1, CloseStream 1]) (s, ts)" "\<forall>t \<in> set ts. ended t"
    by (rule ends_inE) (simp add: list_all_iff)
  with open_streams_exact [of "sample_session 4" "[CloseStream 1, CloseStream 1]" ref_runtime s ts]
  have "open_streams s = of_nat (card (dom (streams s)))" by (simp add: sample_session_simps)
  with end_state(1) show ?thesis by blast
qed

definition sample_head :: http_request_head where
  "sample_head = \<lparr>rq_method = ''GET'', rq_path = ''/'', rq_authority = ''api.tunnel.com'', rq_headers = [],
     rq_version = ''HTTP/1.1'', rq_upgrade = []\<rparr>"

section \<open>The limit on concurrent streams\<close>

text \<open>What an opening still has to do once it has passed the check of the limit.\<close>

definition opening_rest ::
    "('m, 'qo, 'qb, 'o) runtime \<Rightarrow> string \<times> http_request_head \<times> string \<Rightarrow>
     (('m, 'qo, 'qb, 'o) session, (stream_response, open_error) result) task" where
  "opening_rest R req = (case req of (tid, head, remote_addr) \<Rightarrow>
     call (atomically (\<lambda>s. (s\<lparr>next_stream_id := next_stream_id s + 1\<rparr>, next_stream_id s))) (\<lambda>sid.
     call (atomically (\<lambda>s. (s\<lparr>stream_heap := stream_heap s @ [fresh_stream R (initial_window s)],
                              streams := (streams s)(sid \<mapsto> length (stream_heap s))\<rparr>,
                            length (stream_heap s)))) (\<lambda>a.
     call (update (\<lambda>s. s\<lparr>open_streams := open_streams s + 1\<rparr>)) (\<lambda>_.
     call (read initial_window) (\<lambda>window.
     call (session_send R (Some (SOpen \<lparr>so_stream_id = sid, so_tunnel_id = tid,
             so_kind = stream_kind_i32 StreamHttp, so_http = Some head, so_remote_addr = remote_addr,
             so_initial_window = window\<rparr>))) (\<lambda>opened.
     if \<not> opened then
       call (close_stream R sid) (\<lambda>_.
       call (drop_body_receiver R a) (\<lambda>_.
       call (drop_head_receiver R a) (\<lambda>_. Return (Err SessionGone))))
     else Return (Ok \<lparr>resp_stream_id = sid, resp_stream = a\<rparr>)))))))"

abbreviation http_opening where
  "http_opening R req \<equiv> case req of (tid, head, addr) \<Rightarrow> open_http_stream R tid head addr"

lemma opening_checks:
  "http_opening R req = call (read (\<lambda>s. (at_stream_limit s, max_concurrent_streams (principal_limits (session_principal s)))))
     (\<lambda>(full, limit). if full then Return (Err (TooManyStreams limit)) else opening_rest R req)"
  by (cases req) (simp only: open_http_stream_def opening_rest_def prod.case)

lemma pool_at:
  assumes "task_step t s = Some (s', t', [])" "pool_step\<^sup>*\<^sup>* (s', us @ t' # vs) z"
  shows "pool_step\<^sup>*\<^sup>* (s, us @ t # vs) z"
  using task_step_pool [of "length us" "us @ t # vs" s s' t' "[]"] assms by (simp add: converse_rtranclp_into_rtranclp)

text \<open>Openings that are asked for together can all pass the check before any of them is counted.\<close>

lemma openings_pass:
  assumes "\<not> at_stream_limit s"
  shows "pool_step\<^sup>*\<^sup>* (s, us @ map (http_opening R) reqs) (s, us @ map (opening_rest R) reqs)"
proof (induction reqs arbitrary: us)
  case (Cons req reqs)
  have "pool_step\<^sup>*\<^sup>* (s, us @ opening_rest R req # map (http_opening R) reqs) (s, us @ map (opening_rest R) (req # reqs))"
    using Cons.IH [of "us @ [opening_rest R req]"] by simp
  then show ?case
    unfolding list.map opening_checks by (rule pool_at [rotated]) (simp add: assms)
qed simp

context session_runtime
begin

lemma opening_completes:
  assumes "outbound_room oview (Suc n) s"
  shows "\<exists>s'. (\<forall>us vs. pool_step\<^sup>*\<^sup>* (s, us @ opening_rest R req # vs)
        (s', us @ Return (Ok \<lparr>resp_stream_id = next_stream_id s, resp_stream = length (stream_heap s)\<rparr>) # vs)) \<and>
    run (opening_rest R req) s = Finished s' (Ok \<lparr>resp_stream_id = next_stream_id s, resp_stream = length (stream_heap s)\<rparr>) \<and>
    next_stream_id s' = next_stream_id s + 1 \<and> streams s' = (streams s)(next_stream_id s \<mapsto> length (stream_heap s)) \<and>
    open_streams s' = open_streams s + 1 \<and> session_principal s' = session_principal s \<and> outbound_room oview n s'"
proof -
  obtain tid head addr where req: "req = (tid, head, addr)" by (cases req)
  let ?s1 = "s\<lparr>next_stream_id := next_stream_id s + 1, stream_heap := stream_heap s @ [fresh_stream R (initial_window s)],
    streams := (streams s)(next_stream_id s \<mapsto> length (stream_heap s)), open_streams := open_streams s + 1\<rparr>"
  let ?frame = "Some (SOpen \<lparr>so_stream_id = next_stream_id s, so_tunnel_id = tid,
      so_kind = 1, so_http = Some head, so_remote_addr = addr, so_initial_window = initial_window s\<rparr>)"
  have "receiver (oview (outbound ?s1))" "length (queued (oview (outbound ?s1))) < capacity (oview (outbound ?s1))"
    using assms by (simp_all add: outbound_room_def)
  then obtain q where q: "chan_send (rt_out R) (outbound s) (Ok ?frame) = Ready q"
    "oview q = (oview (outbound s))\<lparr>queued := queued (oview (outbound s)) @ [Ok ?frame]\<rparr>"
    using out.send_room [of "outbound s" "Ok ?frame"] by auto
  have pool: "pool_step\<^sup>*\<^sup>* (s, us @ opening_rest R req # vs)
      (?s1\<lparr>outbound := q\<rparr>, us @ Return (Ok \<lparr>resp_stream_id = next_stream_id s, resp_stream = length (stream_heap s)\<rparr>) # vs)" for us vs
    unfolding opening_rest_def req prod.case
    by (rule pool_at, simp, rule pool_at, simp, rule pool_at, simp, rule pool_at, simp, rule pool_at, simp add: session_send_def q(1)) simp
  have "run (opening_rest R req) s =
      Finished (?s1\<lparr>outbound := q\<rparr>) (Ok \<lparr>resp_stream_id = next_stream_id s, resp_stream = length (stream_heap s)\<rparr>)"
    by (simp add: opening_rest_def req run_call session_send_def q(1))
  with pool assms q(2) show ?thesis by (intro exI [of _ "?s1\<lparr>outbound := q\<rparr>"]) (simp add: outbound_room_def)
qed

lemma openings_complete:
  assumes "outbound_room oview (length reqs) s"
  shows "\<exists>s' rs. pool_step\<^sup>*\<^sup>* (s, us @ map (opening_rest R) reqs) (s', us @ map (\<lambda>r. Return (Ok r)) rs) \<and> length rs = length reqs \<and>
    map resp_stream_id rs = map (\<lambda>i. next_stream_id s + of_nat i) [0..<length reqs] \<and>
    dom (streams s') = dom (streams s) \<union> set (map resp_stream_id rs) \<and> open_streams s' = open_streams s + of_nat (length reqs)"
  using assms
proof (induction reqs arbitrary: s us)
  case (Cons req reqs)
  let ?r = "\<lparr>resp_stream_id = next_stream_id s, resp_stream = length (stream_heap s)\<rparr>"
  obtain s1 where s1: "\<forall>us vs. pool_step\<^sup>*\<^sup>* (s, us @ opening_rest R req # vs) (s1, us @ Return (Ok ?r) # vs)"
    "next_stream_id s1 = next_stream_id s + 1" "streams s1 = (streams s)(next_stream_id s \<mapsto> length (stream_heap s))"
    "open_streams s1 = open_streams s + 1" "outbound_room oview (length reqs) s1"
    using opening_completes [of "length reqs" s req] Cons.prems by auto
  obtain s' rs where rs: "pool_step\<^sup>*\<^sup>* (s1, (us @ [Return (Ok ?r)]) @ map (opening_rest R) reqs) (s', (us @ [Return (Ok ?r)]) @ map (\<lambda>r. Return (Ok r)) rs)"
    "length rs = length reqs" "map resp_stream_id rs = map (\<lambda>i. next_stream_id s1 + of_nat i) [0..<length reqs]"
    "dom (streams s') = dom (streams s1) \<union> set (map resp_stream_id rs)" "open_streams s' = open_streams s1 + of_nat (length reqs)"
    using Cons.IH [OF s1(5), of "us @ [Return (Ok ?r)]"] by blast
  have "pool_step\<^sup>*\<^sup>* (s, us @ map (opening_rest R) (req # reqs)) (s', us @ map (\<lambda>r. Return (Ok r)) (?r # rs))"
    using rtranclp_trans [OF s1(1) [rule_format, of us "map (opening_rest R) reqs"]] rs(1) by simp
  moreover have "map resp_stream_id (?r # rs) = map (\<lambda>i. next_stream_id s + of_nat i) [0..<length (req # reqs)]"
    using rs(3) s1(2) by (simp add: upt_conv_Cons map_Suc_upt [symmetric] comp_def algebra_simps del: upt_Suc)
  moreover have "dom (streams s') = dom (streams s) \<union> set (map resp_stream_id (?r # rs))" by (auto simp: rs(4) s1(3))
  moreover have "open_streams s' = open_streams s + of_nat (length (req # reqs))" "length (?r # rs) = length (req # reqs)"
    using rs(2,5) s1(4) by simp_all
  ultimately show ?case by blast
qed auto

end

text \<open>C39. The limit on concurrent streams bounds nothing when requests arrive together, because it is checked before the stream
  is counted. From any session below its limit, and for any number of openings that its queue has room for, there is an interleaving
  after which every one of them has succeeded with a stream of its own in the table, however far beyond the limit the counter then is. One after
  the other the limit holds: after the opening that reaches it the next one is refused and changes nothing.\<close>

theorem stream_limit_outrun:
  fixes s :: "('m, 'qo, 'qb, 'o) session"
  assumes runtime: "session_runtime R sview oview bview hview"
    and "\<not> at_stream_limit s" "outbound_room oview (length reqs) s" "unat (open_streams s) + length reqs < 2 ^ 64"
  shows "(\<exists>s' rs. pool_step\<^sup>*\<^sup>* (s, map (\<lambda>(tid, head, addr). open_http_stream R tid head addr) reqs) (s', map (\<lambda>r. Return (Ok r)) rs) \<and>
      length rs = length reqs \<and> distinct (map resp_stream_id rs) \<and> set (map resp_stream_id rs) \<subseteq> dom (streams s') \<and>
      unat (open_streams s') = unat (open_streams s) + length reqs) \<and>
    (let limit = max_concurrent_streams (principal_limits (session_principal s)) in
     reqs \<noteq> [] \<longrightarrow> unat (open_streams s) + 1 = unat limit \<longrightarrow>
     (\<exists>s1 r. run (open_http_stream R tid head addr) s = Finished s1 (Ok r) \<and> unat (open_streams s1) = unat limit \<and>
        run (open_http_stream R tid' head' addr') s1 = Finished s1 (Err (TooManyStreams limit))))"
proof -
  let ?n = "length reqs" and ?limit = "max_concurrent_streams (principal_limits (session_principal s))"
  have count: "unat (open_streams s + of_nat k) = unat (open_streams s) + k" if "k \<le> ?n" for k
    using that assms(4) by (simp add: unat_word_ariths unat_of_nat take_bit_eq_mod)
  have "distinct (map (\<lambda>i. next_stream_id s + of_nat i) [0..<?n])"
    using assms(4) by (auto simp: distinct_map inj_on_def word_of_nat_eq_iff take_bit_eq_mod)
  moreover obtain s' rs where "pool_step\<^sup>*\<^sup>* (s, [] @ map (opening_rest R) reqs) (s', [] @ map (\<lambda>r. Return (Ok r)) rs)" "length rs = ?n"
    "map resp_stream_id rs = map (\<lambda>i. next_stream_id s + of_nat i) [0..<?n]"
    "dom (streams s') = dom (streams s) \<union> set (map resp_stream_id rs)" "open_streams s' = open_streams s + of_nat ?n"
    using session_runtime.openings_complete [OF runtime assms(3), of "[]"] by blast
  moreover from this have "pool_step\<^sup>*\<^sup>* (s, map (http_opening R) reqs) (s', map (\<lambda>r. Return (Ok r)) rs)"
    using openings_pass [OF assms(2), of "[]" R reqs] by (simp add: rtranclp_trans)
  ultimately have together: "\<exists>s' rs. pool_step\<^sup>*\<^sup>* (s, map (http_opening R) reqs) (s', map (\<lambda>r. Return (Ok r)) rs) \<and>
      length rs = ?n \<and> distinct (map resp_stream_id rs) \<and> set (map resp_stream_id rs) \<subseteq> dom (streams s') \<and>
      unat (open_streams s') = unat (open_streams s) + ?n"
    using count [of ?n] by (intro exI [of _ s'] exI [of _ rs]) simp
  have apart: "\<exists>s1 r. run (open_http_stream R tid head addr) s = Finished s1 (Ok r) \<and> unat (open_streams s1) = unat ?limit \<and>
      run (open_http_stream R tid' head' addr') s1 = Finished s1 (Err (TooManyStreams ?limit))"
    if "reqs \<noteq> []" "unat (open_streams s) + 1 = unat ?limit"
  proof -
    have n: "0 < ?n" using that(1) by simp
    obtain s1 r where s1: "run (opening_rest R (tid, head, addr)) s = Finished s1 (Ok r)" "open_streams s1 = open_streams s + 1"
      "session_principal s1 = session_principal s"
      using session_runtime.opening_completes [OF runtime, of "?n - 1" s "(tid, head, addr)"] assms(3) n by auto
    have "unat (open_streams s1) = unat ?limit" using count [of 1] that(2) n s1(2) by simp
    moreover from this have "at_stream_limit s1" using that(2) s1(3) by (auto simp: at_stream_limit_def Let_def word_gt_0)
    ultimately show ?thesis
      using opening_checks [of R "(tid, head, addr)"] opening_checks [of R "(tid', head', addr')"] s1 assms(2)
      by (intro exI [of _ s1] exI [of _ r]) (simp add: run_call)
  qed
  show ?thesis using together apart by (simp add: Let_def)
qed

theorem stream_limit_outrun_witness:
  "let s = session_new ref_runtime ''sess_1'' ''node_a'' (sample_principal 1) 65536 in
   max_concurrent_streams (principal_limits (session_principal s)) = 1 \<and>
   (\<exists>s' rs. pool_step\<^sup>*\<^sup>* (s, [open_http_stream ref_runtime ''tun_1'' sample_head ''192.0.2.1:1'',
       open_http_stream ref_runtime ''tun_1'' sample_head ''192.0.2.1:2'']) (s', map (\<lambda>r. Return (Ok r)) rs) \<and>
     length rs = 2 \<and> unat (open_streams s') = 2) \<and>
   (\<exists>s1 r. run (open_http_stream ref_runtime ''tun_1'' sample_head ''192.0.2.1:1'') s = Finished s1 (Ok r) \<and>
     run (open_http_stream ref_runtime ''tun_1'' sample_head ''192.0.2.1:2'') s1 = Finished s1 (Err (TooManyStreams 1)))"
proof -
  let ?s = "session_new ref_runtime ''sess_1'' ''node_a'' (sample_principal 1) 65536"
  let ?reqs = "[(''tun_1'', sample_head, ''192.0.2.1:1''), (''tun_1'', sample_head, ''192.0.2.1:2'')]"
  have "\<not> at_stream_limit ?s" "outbound_room id (length ?reqs) ?s" "unat (open_streams ?s) + length ?reqs < 2 ^ 64"
    "max_concurrent_streams (principal_limits (session_principal ?s)) = 1" "unat (open_streams ?s) + 1 = unat (1 :: u32)" "unat (open_streams ?s) = 0"
    by (simp_all add: at_stream_limit_def sample_session_simps sample_principal_def outbound_room_def)
  with stream_limit_outrun [OF ref_rt.session_runtime_axioms this(1-3), of "''tun_1''" sample_head "''192.0.2.1:1''" "''tun_1''" sample_head "''192.0.2.1:2''"]
  show ?thesis by (auto simp: Let_def numeral_2_eq_2)
qed

end
