(* ===== verification/Registry.thy ===== *)
theory Registry
  imports Auth
begin

text \<open>
  \<open>crates/norupo-core/src/registry.rs\<close>, all but the Redis backend: route records and their
  tab-separated encoding, the outcome of a claim, the \<open>Registry\<close> trait as the locale \<open>registry\<close>,
  and the in-memory table. Time is a natural number of milliseconds handed in by the caller: an
  operation that reads the clock twice takes both readings. The memory table's mutex makes each
  operation one atomic step.
\<close>

section \<open>Model\<close>

record route_record =
  rr_key :: string
  rr_node_id :: string
  rr_node_addr :: string
  rr_session :: string
  rr_tunnel :: string
  rr_account :: string

definition encode :: "route_record \<Rightarrow> string" where
  "encode r =
     rr_key r @ tab_char # rr_node_id r @ tab_char # rr_node_addr r @ tab_char #
     rr_session r @ tab_char # rr_tunnel r @ tab_char # rr_account r"

definition next_field :: "string \<Rightarrow> string list \<Rightarrow> (string \<times> string list, error) result" where
  "next_field field parts =
     (case parts of
        [] \<Rightarrow> Err (RegistryUnavailable (''record missing field `'' @ field @ ''`''))
      | x # rest \<Rightarrow> Ok (x, rest))"

definition decode :: "string \<Rightarrow> (route_record, error) result" where
  "decode raw =
     bind_result (next_field ''routing_key'' (split_on tab_char raw)) (\<lambda>(k, ps).
     bind_result (next_field ''node_id'' ps) (\<lambda>(n, ps).
     bind_result (next_field ''node_addr'' ps) (\<lambda>(a, ps).
     bind_result (next_field ''session_id'' ps) (\<lambda>(s, ps).
     bind_result (next_field ''tunnel_id'' ps) (\<lambda>(t, ps).
     bind_result (next_field ''account_id'' ps) (\<lambda>(c, ps).
       Ok \<lparr>rr_key = k, rr_node_id = n, rr_node_addr = a, rr_session = s, rr_tunnel = t,
           rr_account = c\<rparr>))))))"

datatype claim = Acquired | Taken route_record

type_synonym mem_table = "string \<rightharpoonup> (route_record \<times> nat)"

definition mem_new :: mem_table where
  "mem_new = Map.empty"

definition evict_expired :: "nat \<Rightarrow> mem_table \<Rightarrow> mem_table" where
  "evict_expired now m =
     (\<lambda>k. case m k of None \<Rightarrow> None | Some (r, expires_at) \<Rightarrow>
        if expires_at > now then Some (r, expires_at) else None)"

definition mem_claim ::
    "nat \<Rightarrow> nat \<Rightarrow> mem_table \<Rightarrow> route_record \<Rightarrow> nat \<Rightarrow> mem_table \<times> (claim, error) result" where
  "mem_claim now now' table record ttl =
     (let m = evict_expired now table in
      case m (rr_key record) of
        Some (existing, _) \<Rightarrow>
          if rr_session existing \<noteq> rr_session record then (m, Ok (Taken existing))
          else (m(rr_key record \<mapsto> (record, now' + ttl)), Ok Acquired)
      | None \<Rightarrow> (m(rr_key record \<mapsto> (record, now' + ttl)), Ok Acquired))"

definition mem_lookup ::
    "nat \<Rightarrow> mem_table \<Rightarrow> string \<Rightarrow> mem_table \<times> (route_record option, error) result" where
  "mem_lookup now table routing_key =
     (let m = evict_expired now table in (m, Ok (map_option fst (m routing_key))))"

definition mem_renew ::
    "nat \<Rightarrow> nat \<Rightarrow> mem_table \<Rightarrow> string \<Rightarrow> string \<Rightarrow> nat \<Rightarrow> mem_table \<times> (bool, error) result" where
  "mem_renew now now' table routing_key session_id ttl =
     (let m = evict_expired now table in
      case m routing_key of
        Some (record, _) \<Rightarrow>
          if rr_session record = session_id
          then (m(routing_key \<mapsto> (record, now' + ttl)), Ok True) else (m, Ok False)
      | None \<Rightarrow> (m, Ok False))"

definition mem_release ::
    "mem_table \<Rightarrow> string \<Rightarrow> string \<Rightarrow> mem_table \<times> (unit, error) result" where
  "mem_release table routing_key session_id =
     (case table routing_key of
        Some (record, _) \<Rightarrow>
          if rr_session record = session_id then (table(routing_key := None), Ok ())
          else (table, Ok ())
      | None \<Rightarrow> (table, Ok ()))"

section \<open>The routing-table contract\<close>

text \<open>A lease is a record with the time it expires; at time \<open>t\<close> the table answers for the leases that
  expire after \<open>t\<close>.\<close>

type_synonym 'v leased = "'v \<times> nat"

type_synonym lease = "route_record leased"

definition live ::
    "('s \<Rightarrow> string \<Rightarrow> 'v leased option) \<Rightarrow> 's \<Rightarrow> nat \<Rightarrow> string \<Rightarrow> 'v leased option" where
  "live leases s t k = (case leases s k of None \<Rightarrow> None | Some (r, e) \<Rightarrow> if t < e then Some (r, e) else None)"

definition valid_until :: "'v leased \<Rightarrow> nat \<Rightarrow> 'v leased option" where
  "valid_until l u = (if u < snd l then Some l else None)"

text \<open>The operations of the trait, as data, with the two clock readings they are given; and a
  history as a list of them. A history is timed when its readings never go backwards.\<close>

datatype reg_op =
    OpClaim route_record nat
  | OpLookup string
  | OpRenew string string nat
  | OpRelease string string

type_synonym timed_op = "(nat \<times> nat) \<times> reg_op"

fun timed_from :: "nat \<Rightarrow> timed_op list \<Rightarrow> nat \<Rightarrow> bool" where
  "timed_from t [] u = (t \<le> u)"
| "timed_from t (((a, b), _) # ops) u = (t \<le> a \<and> a \<le> b \<and> timed_from b ops u)"

text \<open>An operation is foreign to a key and a session when it is not that session's own claim,
  renewal or release of the key.\<close>

fun foreign :: "string \<Rightarrow> string \<Rightarrow> reg_op \<Rightarrow> bool" where
  "foreign k sid (OpClaim r _) = (rr_key r \<noteq> k \<or> rr_session r \<noteq> sid)"
| "foreign k sid (OpLookup _) = True"
| "foreign k sid (OpRenew k' sid' _) = (k' \<noteq> k \<or> sid' \<noteq> sid)"
| "foreign k sid (OpRelease k' sid') = (k' \<noteq> k \<or> sid' \<noteq> sid)"

text \<open>A history keeps a session's lease when every operation on the key is foreign or one of the
  session's renewals, and the next operation always comes before the guaranteed expiry \<open>e\<close>, which
  a renewal at \<open>a\<close> moves to \<open>a + ttl\<close>.\<close>

fun keeps_lease :: "string \<Rightarrow> string \<Rightarrow> nat \<Rightarrow> timed_op list \<Rightarrow> nat \<Rightarrow> bool" where
  "keeps_lease k sid e [] u = (u < e)"
| "keeps_lease k sid e (((a, b), OpRenew k' sid' ttl) # ops) u =
     (a < e \<and> keeps_lease k sid (if k' = k \<and> sid' = sid then a + ttl else e) ops u)"
| "keeps_lease k sid e (((a, b), op) # ops) u = (a < e \<and> foreign k sid op \<and> keeps_lease k sid e ops u)"

locale registry =
  fixes reg_claim :: "nat \<Rightarrow> nat \<Rightarrow> 's \<Rightarrow> route_record \<Rightarrow> nat \<Rightarrow> 's \<times> (claim, error) result"
    and reg_lookup :: "nat \<Rightarrow> 's \<Rightarrow> string \<Rightarrow> 's \<times> (route_record option, error) result"
    and reg_renew :: "nat \<Rightarrow> nat \<Rightarrow> 's \<Rightarrow> string \<Rightarrow> string \<Rightarrow> nat \<Rightarrow> 's \<times> (bool, error) result"
    and reg_release :: "nat \<Rightarrow> 's \<Rightarrow> string \<Rightarrow> string \<Rightarrow> 's \<times> (unit, error) result"
    and leases :: "'s \<Rightarrow> string \<Rightarrow> lease option"
    and wf :: "'s \<Rightarrow> bool"
    and storable :: "route_record \<Rightarrow> bool"
    and ttl_ok :: "nat \<Rightarrow> bool"
  assumes claim_taken:
      "\<lbrakk>wf s; storable r; t \<le> t'; ttl_ok ttl; live leases s t (rr_key r) = Some (r0, e0);
        rr_session r0 \<noteq> rr_session r\<rbrakk> \<Longrightarrow>
       \<exists>s'. reg_claim t t' s r ttl = (s', Ok (Taken r0)) \<and> wf s' \<and>
            (\<forall>u \<ge> t. live leases s' u = live leases s u)"
    and claim_acquired:
      "\<lbrakk>wf s; storable r; t \<le> t'; ttl_ok ttl;
        \<And>r0 e0. live leases s t (rr_key r) = Some (r0, e0) \<Longrightarrow> rr_session r0 = rr_session r\<rbrakk> \<Longrightarrow>
       \<exists>s' e. reg_claim t t' s r ttl = (s', Ok Acquired) \<and> wf s' \<and> t + ttl \<le> e \<and> e \<le> t' + ttl + 1 \<and>
            (\<forall>u \<ge> t. live leases s' u = (live leases s u)(rr_key r := valid_until (r, e) u))"
    and lookup_live:
      "wf s \<Longrightarrow> \<exists>s'. reg_lookup t s k = (s', Ok (map_option fst (live leases s t k))) \<and> wf s' \<and>
            (\<forall>u \<ge> t. live leases s' u = live leases s u)"
    and renew_owner:
      "\<lbrakk>wf s; t \<le> t'; ttl_ok ttl; live leases s t k = Some (r, e0); rr_session r = sid\<rbrakk> \<Longrightarrow>
       \<exists>s' e. reg_renew t t' s k sid ttl = (s', Ok True) \<and> wf s' \<and> t + ttl \<le> e \<and> e \<le> t' + ttl + 1 \<and>
            (\<forall>u \<ge> t. live leases s' u = (live leases s u)(k := valid_until (r, e) u))"
    and renew_other:
      "\<lbrakk>wf s; t \<le> t'; ttl_ok ttl;
        \<And>r e. live leases s t k = Some (r, e) \<Longrightarrow> rr_session r \<noteq> sid\<rbrakk> \<Longrightarrow>
       \<exists>s'. reg_renew t t' s k sid ttl = (s', Ok False) \<and> wf s' \<and>
            (\<forall>u \<ge> t. live leases s' u = live leases s u)"
    and release_owner:
      "\<lbrakk>wf s; live leases s t k = Some (r, e); rr_session r = sid\<rbrakk> \<Longrightarrow>
       \<exists>s'. reg_release t s k sid = (s', Ok ()) \<and> wf s' \<and>
            (\<forall>u \<ge> t. live leases s' u = (live leases s u)(k := None))"
    and release_other:
      "\<lbrakk>wf s; \<And>r e. live leases s t k = Some (r, e) \<Longrightarrow> rr_session r \<noteq> sid\<rbrakk> \<Longrightarrow>
       \<exists>s'. reg_release t s k sid = (s', Ok ()) \<and> wf s' \<and>
            (\<forall>u \<ge> t. live leases s' u = live leases s u)"

text \<open>One operation of a history on a table that offers these four operations, and the history.\<close>

fun reg_apply ::
  "(nat \<Rightarrow> nat \<Rightarrow> 's \<Rightarrow> route_record \<Rightarrow> nat \<Rightarrow> 's \<times> (claim, error) result) \<Rightarrow>
   (nat \<Rightarrow> 's \<Rightarrow> string \<Rightarrow> 's \<times> (route_record option, error) result) \<Rightarrow>
   (nat \<Rightarrow> nat \<Rightarrow> 's \<Rightarrow> string \<Rightarrow> string \<Rightarrow> nat \<Rightarrow> 's \<times> (bool, error) result) \<Rightarrow>
   (nat \<Rightarrow> 's \<Rightarrow> string \<Rightarrow> string \<Rightarrow> 's \<times> (unit, error) result) \<Rightarrow> timed_op \<Rightarrow> 's \<Rightarrow> 's" where
  "reg_apply cl lo rn rl ((t, t'), OpClaim r ttl) s = fst (cl t t' s r ttl)"
| "reg_apply cl lo rn rl ((t, t'), OpLookup k) s = fst (lo t s k)"
| "reg_apply cl lo rn rl ((t, t'), OpRenew k sid ttl) s = fst (rn t t' s k sid ttl)"
| "reg_apply cl lo rn rl ((t, t'), OpRelease k sid) s = fst (rl t s k sid)"

fun op_storable :: "(route_record \<Rightarrow> bool) \<Rightarrow> (nat \<Rightarrow> bool) \<Rightarrow> reg_op \<Rightarrow> bool" where
  "op_storable ok ttl_ok (OpClaim r ttl) = (ok r \<and> ttl_ok ttl)"
| "op_storable ok ttl_ok (OpRenew _ _ ttl) = ttl_ok ttl"
| "op_storable ok ttl_ok _ = True"

abbreviation (input) mem_apply :: "timed_op \<Rightarrow> mem_table \<Rightarrow> mem_table" where
  "mem_apply \<equiv> reg_apply mem_claim mem_lookup mem_renew (\<lambda>t. mem_release)"

section \<open>What every table guarantees\<close>

context registry
begin

abbreviation live_lease :: "'s \<Rightarrow> nat \<Rightarrow> string \<Rightarrow> lease option" where
  "live_lease \<equiv> live leases"

abbreviation apply_op :: "timed_op \<Rightarrow> 's \<Rightarrow> 's" where
  "apply_op \<equiv> reg_apply reg_claim reg_lookup reg_renew reg_release"

text \<open>One foreign operation leaves a live lease as it is, and keeps the table well-formed.\<close>

lemma apply_foreign:
  assumes "wf s" "t \<le> t'" "op_storable storable ttl_ok op" "live_lease s t k = Some (r, e)"
    "foreign k (rr_session r) op"
  shows "wf (apply_op ((t, t'), op) s) \<and>
    (\<forall>u \<ge> t. live_lease (apply_op ((t, t'), op) s) u k = live_lease s u k)"
proof (cases op)
  case (OpClaim r' ttl)
  show ?thesis
  proof (cases "\<exists>r0 e0. live_lease s t (rr_key r') = Some (r0, e0) \<and> rr_session r0 \<noteq> rr_session r'")
    case True
    then show ?thesis using claim_taken [of s r' t t' ttl] assms OpClaim by fastforce
  next
    case False
    with assms OpClaim have "rr_key r' \<noteq> k" by auto
    then show ?thesis using claim_acquired [of s r' t t' ttl] False assms OpClaim by fastforce
  qed
next
  case (OpLookup k')
  then show ?thesis using lookup_live [of s t k'] assms by fastforce
next
  case (OpRenew k' sid ttl)
  show ?thesis
  proof (cases "\<exists>r0 e0. live_lease s t k' = Some (r0, e0) \<and> rr_session r0 = sid")
    case True
    with assms OpRenew have "k' \<noteq> k" by auto
    with True show ?thesis using renew_owner [of s t t' ttl k'] assms OpRenew by fastforce
  next
    case False
    then show ?thesis using renew_other [of s t t' ttl k' sid] assms OpRenew by fastforce
  qed
next
  case (OpRelease k' sid)
  show ?thesis
  proof (cases "\<exists>r0 e0. live_lease s t k' = Some (r0, e0) \<and> rr_session r0 = sid")
    case True
    with assms OpRelease have "k' \<noteq> k" by auto
    with True show ?thesis using release_owner [of s t k'] assms OpRelease by fastforce
  next
    case False
    then show ?thesis using release_other [of s t k' sid] assms OpRelease by fastforce
  qed
qed

text \<open>A renewal in time moves the expiry and keeps the record.\<close>

lemma apply_renewal:
  assumes "wf s" "a \<le> b" "ttl_ok ttl" "live_lease s a k = Some (r, e1)"
  shows "\<exists>e2 \<ge> a + ttl. wf (apply_op ((a, b), OpRenew k (rr_session r) ttl) s) \<and>
    (\<forall>v \<ge> a. live_lease (apply_op ((a, b), OpRenew k (rr_session r) ttl) s) v k = valid_until (r, e2) v)"
  using renew_owner [OF assms refl] by auto

lemma keeps_lease_step:
  assumes "keeps_lease k sid e (((a, b), op) # ops) u"
  obtains (renewal) ttl where "a < e" "op = OpRenew k sid ttl" "keeps_lease k sid (a + ttl) ops u"
    | (other) "a < e" "foreign k sid op" "keeps_lease k sid e ops u"
  using assms by (cases op) (auto split: if_splits)

text \<open>As long as the owner renews in time, nobody can take the key away or change its record.\<close>

lemma history_kept:
  assumes "wf s" "e \<le> e1" "\<forall>v \<ge> t. live_lease s v k = valid_until (r, e1) v" "timed_from t ops u"
    "keeps_lease k (rr_session r) e ops u" "\<forall>op \<in> set ops. op_storable storable ttl_ok (snd op)"
  shows "wf (fold apply_op ops s) \<and>
    (\<exists>e2 > u. \<forall>v \<ge> u. live_lease (fold apply_op ops s) v k = valid_until (r, e2) v)"
  using assms
proof (induction ops arbitrary: s t e e1)
  case Nil
  then have "u < e1" "\<forall>v \<ge> u. live_lease s v k = valid_until (r, e1) v" by auto
  with Nil.prems(1) show ?case by auto
next
  case (Cons op ops)
  obtain a b o' where op: "op = ((a, b), o')" by (metis surj_pair)
  with Cons.prems(4) have ab: "t \<le> a" "a \<le> b" "timed_from b ops u" by auto
  have alive: "live_lease s a k = Some (r, e1)" if "a < e"
    using that ab(1) Cons.prems(2,3) by (auto simp: valid_until_def)
  from Cons.prems(5) op have "keeps_lease k (rr_session r) e (((a, b), o') # ops) u" by simp
  then show ?case
  proof (cases rule: keeps_lease_step)
    case (renewal ttl)
    then obtain e2 where "a + ttl \<le> e2" "wf (apply_op op s)"
      "\<forall>v \<ge> a. live_lease (apply_op op s) v k = valid_until (r, e2) v"
      using apply_renewal [OF Cons.prems(1) ab(2) _ alive, of ttl] Cons.prems(6) op by auto
    then show ?thesis
      using Cons.IH [of "apply_op op s" "a + ttl" e2 b] renewal(3) ab Cons.prems(6) by simp
  next
    case other
    then have "wf (apply_op op s) \<and> (\<forall>v \<ge> a. live_lease (apply_op op s) v k = live_lease s v k)"
      unfolding op using Cons.prems(1,6) ab op alive by (intro apply_foreign) auto
    then show ?thesis
      using Cons.IH [of "apply_op op s" e e1 b] other(3) ab Cons.prems(2,3,6) by simp
  qed
qed

text \<open>An acquired claim holds the key from then on, until its lease runs out.\<close>

lemma acquired_lease:
  assumes "wf s" "storable r" "snd (reg_claim t t' s r ttl) = Ok Acquired" "t \<le> t'" "ttl_ok ttl"
  shows "wf (fst (reg_claim t t' s r ttl)) \<and> (\<exists>e \<ge> t + ttl.
    \<forall>v \<ge> t. live_lease (fst (reg_claim t t' s r ttl)) v (rr_key r) = valid_until (r, e) v)"
proof -
  have free: "live_lease s t (rr_key r) = Some (r0, e0) \<Longrightarrow> rr_session r0 = rr_session r" for r0 e0
    using claim_taken [OF assms(1,2,4,5)] assms(3) by fastforce
  have "\<exists>s' e. reg_claim t t' s r ttl = (s', Ok Acquired) \<and> wf s' \<and> t + ttl \<le> e \<and> e \<le> t' + ttl + 1 \<and>
      (\<forall>u \<ge> t. live leases s' u = (live leases s u)(rr_key r := valid_until (r, e) u))"
    by (rule claim_acquired [OF assms(1,2,4,5)]) (rule free)
  then show ?thesis by auto
qed

text \<open>From the moment a claim is acquired, the key answers with that record and refuses every other
  session, for as long as the history keeps the lease.\<close>

lemma acquired_is_exclusive:
  assumes "wf s" "storable r" "snd (reg_claim t t' s r ttl) = Ok Acquired" "t \<le> t'" "ttl_ok ttl"
    "timed_from t' ops u" "keeps_lease (rr_key r) (rr_session r) (t + ttl) ops u"
    "\<forall>op \<in> set ops. op_storable storable ttl_ok (snd op)"
    "storable r'" "rr_key r' = rr_key r" "rr_session r' \<noteq> rr_session r" "u \<le> u'" "ttl_ok ttl'"
  shows "snd (reg_lookup u (fold apply_op ops (fst (reg_claim t t' s r ttl))) (rr_key r)) = Ok (Some r) \<and>
    snd (reg_claim u u' (fold apply_op ops (fst (reg_claim t t' s r ttl))) r' ttl') = Ok (Taken r)"
proof -
  let ?s1 = "fst (reg_claim t t' s r ttl)"
  let ?s2 = "fold apply_op ops ?s1"
  obtain e where s1: "wf ?s1" "t + ttl \<le> e" "\<forall>v \<ge> t. live_lease ?s1 v (rr_key r) = valid_until (r, e) v"
    using acquired_lease [OF assms(1-5)] by auto
  have "\<forall>v \<ge> t'. live_lease ?s1 v (rr_key r) = valid_until (r, e) v" using s1(3) assms(4) by auto
  then obtain e2 where s2: "wf ?s2" "e2 > u" "\<forall>v \<ge> u. live_lease ?s2 v (rr_key r) = valid_until (r, e2) v"
    using history_kept [OF s1(1,2) _ assms(6-8)] by auto
  then have alive: "live_lease ?s2 u (rr_key r) = Some (r, e2)" by (simp add: valid_until_def)
  then show ?thesis
    using lookup_live [OF s2(1), of u "rr_key r"] claim_taken [OF s2(1) assms(9,12,13)] assms(10,11)
    by fastforce
qed

text \<open>Once the lease has run out, anyone may take the key.\<close>

lemma expired_is_free:
  assumes "wf s" "\<And>r0 e0. leases s (rr_key r) = Some (r0, e0) \<Longrightarrow> e0 \<le> t" "storable r" "t \<le> t'"
    "ttl_ok ttl"
  shows "snd (reg_lookup t s (rr_key r)) = Ok None \<and> snd (reg_claim t t' s r ttl) = Ok Acquired"
proof -
  have none: "live_lease s t (rr_key r) = None"
    using assms(2) by (fastforce simp: live_def split: option.splits)
  have "\<exists>s' e. reg_claim t t' s r ttl = (s', Ok Acquired) \<and> wf s' \<and> t + ttl \<le> e \<and> e \<le> t' + ttl + 1 \<and>
      (\<forall>u \<ge> t. live leases s' u = (live leases s u)(rr_key r := valid_until (r, e) u))"
    by (rule claim_acquired [OF assms(1,3,4,5)]) (simp add: none)
  moreover have "snd (reg_lookup t s (rr_key r)) = Ok None"
    using lookup_live [OF assms(1), of t "rr_key r"] none by auto
  ultimately show ?thesis by auto
qed

end

section \<open>A table inside another\<close>

text \<open>The contract at one state: what an operation yields is its result and the table valid from then on. A
  table whose states are the image of another's under a map that its operations respect has the same laws there.\<close>

definition yields ::
    "('s \<Rightarrow> string \<Rightarrow> lease option) \<Rightarrow> ('s \<Rightarrow> bool) \<Rightarrow> nat \<Rightarrow> 's \<times> 'x \<Rightarrow> 'x \<Rightarrow> (nat \<Rightarrow> string \<Rightarrow> lease option) \<Rightarrow> bool" where
  "yields leases good t out res table \<longleftrightarrow>
     snd out = res \<and> good (fst out) \<and> (\<forall>u \<ge> t. live leases (fst out) u = table u)"

lemma ex_yields:
  "(\<exists>s'. out = (s', res) \<and> good s' \<and> (\<forall>u \<ge> t. live leases s' u = table u)) \<longleftrightarrow> yields leases good t out res table"
  by (cases out) (auto simp: yields_def)

lemma ex_yields_until:
  "(\<exists>s' e. out = (s', res) \<and> good s' \<and> l \<le> e \<and> e \<le> h \<and> (\<forall>u \<ge> t. live leases s' u = table e u)) \<longleftrightarrow>
     (\<exists>e. l \<le> e \<and> e \<le> h \<and> yields leases good t out res (table e))"
  by (cases out) (auto simp: yields_def)

definition laws_at ::
  "(nat \<Rightarrow> nat \<Rightarrow> 's \<Rightarrow> route_record \<Rightarrow> nat \<Rightarrow> 's \<times> (claim, error) result) \<Rightarrow>
   (nat \<Rightarrow> 's \<Rightarrow> string \<Rightarrow> 's \<times> (route_record option, error) result) \<Rightarrow>
   (nat \<Rightarrow> nat \<Rightarrow> 's \<Rightarrow> string \<Rightarrow> string \<Rightarrow> nat \<Rightarrow> 's \<times> (bool, error) result) \<Rightarrow>
   (nat \<Rightarrow> 's \<Rightarrow> string \<Rightarrow> string \<Rightarrow> 's \<times> (unit, error) result) \<Rightarrow>
   ('s \<Rightarrow> string \<Rightarrow> lease option) \<Rightarrow> ('s \<Rightarrow> bool) \<Rightarrow> (route_record \<Rightarrow> bool) \<Rightarrow> (nat \<Rightarrow> bool) \<Rightarrow> 's \<Rightarrow> bool" where
  "laws_at claim lookup renew release leases good storable ttl_ok s \<longleftrightarrow>
     (\<forall>r t t' ttl r0 e0. storable r \<longrightarrow> t \<le> t' \<longrightarrow> ttl_ok ttl \<longrightarrow> live leases s t (rr_key r) = Some (r0, e0) \<longrightarrow>
        rr_session r0 \<noteq> rr_session r \<longrightarrow> yields leases good t (claim t t' s r ttl) (Ok (Taken r0)) (live leases s)) \<and>
     (\<forall>r t t' ttl. storable r \<longrightarrow> t \<le> t' \<longrightarrow> ttl_ok ttl \<longrightarrow>
        (\<forall>r0 e0. live leases s t (rr_key r) = Some (r0, e0) \<longrightarrow> rr_session r0 = rr_session r) \<longrightarrow>
        (\<exists>e. t + ttl \<le> e \<and> e \<le> t' + ttl + 1 \<and> yields leases good t (claim t t' s r ttl) (Ok Acquired)
           (\<lambda>u. (live leases s u)(rr_key r := valid_until (r, e) u)))) \<and>
     (\<forall>t k. yields leases good t (lookup t s k) (Ok (map_option fst (live leases s t k))) (live leases s)) \<and>
     (\<forall>t t' ttl k r e0 sid. t \<le> t' \<longrightarrow> ttl_ok ttl \<longrightarrow> live leases s t k = Some (r, e0) \<longrightarrow> rr_session r = sid \<longrightarrow>
        (\<exists>e. t + ttl \<le> e \<and> e \<le> t' + ttl + 1 \<and> yields leases good t (renew t t' s k sid ttl) (Ok True)
           (\<lambda>u. (live leases s u)(k := valid_until (r, e) u)))) \<and>
     (\<forall>t t' ttl k sid. t \<le> t' \<longrightarrow> ttl_ok ttl \<longrightarrow> (\<forall>r e. live leases s t k = Some (r, e) \<longrightarrow> rr_session r \<noteq> sid) \<longrightarrow>
        yields leases good t (renew t t' s k sid ttl) (Ok False) (live leases s)) \<and>
     (\<forall>t k r e sid. live leases s t k = Some (r, e) \<longrightarrow> rr_session r = sid \<longrightarrow>
        yields leases good t (release t s k sid) (Ok ()) (\<lambda>u. (live leases s u)(k := None))) \<and>
     (\<forall>t k sid. (\<forall>r e. live leases s t k = Some (r, e) \<longrightarrow> rr_session r \<noteq> sid) \<longrightarrow>
        yields leases good t (release t s k sid) (Ok ()) (live leases s))"

context registry
begin

lemma laws: "wf s \<Longrightarrow> laws_at reg_claim reg_lookup reg_renew reg_release leases wf storable ttl_ok s"
  unfolding laws_at_def
  by (intro conjI allI impI;
      (rule claim_taken [unfolded ex_yields] claim_acquired [unfolded ex_yields_until] lookup_live [unfolded ex_yields]
         renew_owner [unfolded ex_yields_until] renew_other [unfolded ex_yields]
         release_owner [unfolded ex_yields] release_other [unfolded ex_yields]; (assumption | blast)))

end

lemma registryI:
  assumes laws: "\<And>s. good s \<Longrightarrow> laws_at claim lookup renew release leases good storable ttl_ok s"
  shows "registry claim lookup renew release leases good storable ttl_ok"
  unfolding registry_def ex_yields ex_yields_until
  by (intro conjI allI impI; drule laws; unfold laws_at_def; elim conjE; (hypsubst)?; simp)

lemma live_embed: "(\<And>x. leases (f x) = leases\<^sub>i x) \<Longrightarrow> live leases (f s) = live leases\<^sub>i s"
  by (simp add: live_def fun_eq_iff)

lemma yields_embed:
  assumes "\<And>x. leases (f x) = leases\<^sub>i x" "\<And>x. good (f x) = good\<^sub>i x"
  shows "yields leases good t (map_prod f id out) res table = yields leases\<^sub>i good\<^sub>i t out res table"
  by (simp add: yields_def live_embed [of leases f, OF assms(1)] assms(2))

lemma laws_at_embed:
  assumes "\<And>x. leases (f x) = leases\<^sub>i x" "\<And>x. good (f x) = good\<^sub>i x"
    and "\<And>t t' r ttl. claim t t' (f s) r ttl = map_prod f id (claim\<^sub>i t t' s r ttl)"
      "\<And>t k. lookup t (f s) k = map_prod f id (lookup\<^sub>i t s k)"
      "\<And>t t' k sid ttl. renew t t' (f s) k sid ttl = map_prod f id (renew\<^sub>i t t' s k sid ttl)"
      "\<And>t k sid. release t (f s) k sid = map_prod f id (release\<^sub>i t s k sid)"
  shows "laws_at claim lookup renew release leases good storable ttl_ok (f s) =
    laws_at claim\<^sub>i lookup\<^sub>i renew\<^sub>i release\<^sub>i leases\<^sub>i good\<^sub>i storable ttl_ok s"
  unfolding laws_at_def assms(3-) live_embed [of leases f, OF assms(1)] yields_embed [of leases f leases\<^sub>i good, OF assms(1,2)] ..

lemma laws_at_mono:
  "laws_at claim lookup renew release leases good (\<lambda>_. True) (\<lambda>_. True) s \<Longrightarrow>
   laws_at claim lookup renew release leases good storable ttl_ok s"
  by (simp add: laws_at_def)

section \<open>The memory table meets the contract\<close>

lemma live_evict_expired:
  "t \<le> u \<Longrightarrow> live id (evict_expired t m) u = live id m u"
  by (auto simp: live_def evict_expired_def fun_eq_iff split: option.splits if_splits)

lemma evict_expired_live: "evict_expired t m k = live id m t k"
  by (auto simp: live_def evict_expired_def split: option.splits if_splits)

lemma live_update: "live id (m(k \<mapsto> l)) u = (live id m u)(k := valid_until l u)"
  by (auto simp: live_def valid_until_def fun_eq_iff split: option.splits prod.splits)

lemma live_remove: "live id (m(k := None)) u = (live id m u)(k := None)"
  by (auto simp: live_def fun_eq_iff)

lemmas mem_table_simps = evict_expired_live live_evict_expired live_update live_remove

lemma mem_claim_cases:
  "mem_claim t t' m r ttl =
     (case live id m t (rr_key r) of
        Some (r0, _) \<Rightarrow>
          if rr_session r0 = rr_session r
          then ((evict_expired t m)(rr_key r \<mapsto> (r, t' + ttl)), Ok Acquired)
          else (evict_expired t m, Ok (Taken r0))
      | None \<Rightarrow> ((evict_expired t m)(rr_key r \<mapsto> (r, t' + ttl)), Ok Acquired))"
  by (auto simp: mem_claim_def mem_table_simps Let_def split: option.splits)

lemma mem_renew_cases:
  "mem_renew t t' m k sid ttl =
     (case live id m t k of
        Some (r, _) \<Rightarrow>
          if rr_session r = sid then ((evict_expired t m)(k \<mapsto> (r, t' + ttl)), Ok True)
          else (evict_expired t m, Ok False)
      | None \<Rightarrow> (evict_expired t m, Ok False))"
  by (auto simp: mem_renew_def mem_table_simps Let_def split: option.splits)

lemma mem_release_owner:
  assumes "live id m t k = Some (r, e)" "rr_session r = sid"
  shows "mem_release m k sid = (m(k := None), Ok ())"
proof -
  have "m k = Some (r, e)" using assms(1) by (auto simp: live_def split: option.splits if_splits)
  with assms(2) show ?thesis by (simp add: mem_release_def)
qed

lemma mem_release_other:
  assumes "\<And>r e. live id m t k = Some (r, e) \<Longrightarrow> rr_session r \<noteq> sid"
  shows "\<exists>m'. mem_release m k sid = (m', Ok ()) \<and> (\<forall>u \<ge> t. live id m' u = live id m u)"
proof (cases "m k")
  case None
  then show ?thesis by (simp add: mem_release_def)
next
  case (Some p)
  obtain r e where p: "p = (r, e)" by force
  have "e \<le> t \<or> rr_session r \<noteq> sid"
    using assms Some p by (fastforce simp: live_def split: if_splits)
  moreover have "e \<le> t \<Longrightarrow> t \<le> u \<Longrightarrow> (live id m u)(k := None) = live id m u" for u
    using Some p by (auto simp: live_def fun_eq_iff)
  ultimately show ?thesis
    using Some p by (auto simp: mem_release_def live_remove)
qed

interpretation mem: registry mem_claim mem_lookup mem_renew "\<lambda>t. mem_release" id "\<lambda>_. True" "\<lambda>_. True" "\<lambda>_. True"
proof (unfold_locales, goal_cases)
  case (1 s r t t' ttl r0 e0)
  then show ?case by (simp add: mem_claim_cases mem_table_simps)
next
  case (2 s r t t' ttl)
  then have "mem_claim t t' s r ttl = ((evict_expired t s)(rr_key r \<mapsto> (r, t' + ttl)), Ok Acquired)"
    by (cases "live id s t (rr_key r)") (auto simp: mem_claim_cases)
  then show ?case using 2(3) by (auto intro: exI [of _ "t' + ttl"] simp: mem_table_simps)
next
  case (3 s t k)
  show ?case by (auto simp: mem_lookup_def mem_table_simps Let_def split: option.splits)
next
  case (4 s t t' ttl k r e0 sid)
  then have "mem_renew t t' s k sid ttl = ((evict_expired t s)(k \<mapsto> (r, t' + ttl)), Ok True)"
    by (simp add: mem_renew_cases)
  then show ?case using 4(2) by (auto intro: exI [of _ "t' + ttl"] simp: mem_table_simps)
next
  case (5 s t t' ttl k sid)
  then show ?case
    by (cases "live id s t k") (auto simp: mem_renew_cases mem_table_simps)
next
  case (6 s t k r e sid)
  then show ?case using mem_release_owner [of s t k r e sid] by (simp add: live_remove)
next
  case (7 s t k sid)
  then show ?case using mem_release_other [of s t k sid] by simp
qed

lemma op_storable_always [simp]: "op_storable (\<lambda>_. True) (\<lambda>_. True) op"
  by (cases op) auto

section \<open>The record encoding\<close>

definition tab_free :: "route_record \<Rightarrow> bool" where
  "tab_free r \<longleftrightarrow>
     tab_char \<notin> set (rr_key r) \<and> tab_char \<notin> set (rr_node_id r) \<and> tab_char \<notin> set (rr_node_addr r) \<and>
     tab_char \<notin> set (rr_session r) \<and> tab_char \<notin> set (rr_tunnel r) \<and> tab_char \<notin> set (rr_account r)"

lemma split_on_encode:
  "tab_free r \<Longrightarrow> split_on tab_char (encode r) =
     [rr_key r, rr_node_id r, rr_node_addr r, rr_session r, rr_tunnel r, rr_account r]"
  by (simp add: tab_free_def encode_def split_on_append split_on_no_delim)

lemma decode_fields:
  "split_on tab_char raw = k # n # a # s # t # c # rest \<Longrightarrow>
     decode raw = Ok \<lparr>rr_key = k, rr_node_id = n, rr_node_addr = a, rr_session = s, rr_tunnel = t,
       rr_account = c\<rparr>"
  by (simp add: decode_def next_field_def)

lemma decode_encode: "tab_free r \<Longrightarrow> decode (encode r) = Ok r"
  using decode_fields [of "encode r"] by (simp add: split_on_encode)

lemma encode_nonempty [simp]: "encode r \<noteq> []"
  by (simp add: encode_def)

section \<open>Properties\<close>

text \<open>C34. A route record survives the trip through the table's text form whenever none of its six
  fields contains a tab, and text with fewer than six fields is refused as a backend fault, never
  read as a routing decision.\<close>

theorem route_record_roundtrip:
  "(tab_free r \<longrightarrow> decode (encode r) = Ok r) \<and>
   (length (split_on tab_char raw) < 6 \<longrightarrow> (\<exists>e. decode raw = Err (RegistryUnavailable e)))"
proof -
  have "length (split_on tab_char raw) < 6 \<Longrightarrow> \<exists>e. decode raw = Err (RegistryUnavailable e)"
    by (auto simp: decode_def next_field_def split: list.splits)
  then show ?thesis using decode_encode by blast
qed

theorem route_record_roundtrip_witness:
  "decode (encode \<lparr>rr_key = ''api.tunnel.com'', rr_node_id = ''node_a'', rr_node_addr = ''10.0.0.1:7100'',
      rr_session = ''sess_1'', rr_tunnel = ''tun_1'', rr_account = ''acct_1''\<rparr>) =
    Ok \<lparr>rr_key = ''api.tunnel.com'', rr_node_id = ''node_a'', rr_node_addr = ''10.0.0.1:7100'',
      rr_session = ''sess_1'', rr_tunnel = ''tun_1'', rr_account = ''acct_1''\<rparr> \<and>
   (\<exists>e. decode ''api.tunnel.com'' = Err (RegistryUnavailable e))"
proof -
  let ?r = "\<lparr>rr_key = ''api.tunnel.com'', rr_node_id = ''node_a'', rr_node_addr = ''10.0.0.1:7100'',
      rr_session = ''sess_1'', rr_tunnel = ''tun_1'', rr_account = ''acct_1''\<rparr>"
  have "tab_free ?r" by (simp add: tab_free_def)
  moreover have "length (split_on tab_char ''api.tunnel.com'') < 6" by code_simp
  ultimately show ?thesis using route_record_roundtrip by blast
qed

text \<open>Ownership of a key is exclusive and cannot be taken away. Once a session's claim is
  acquired in the memory table, then after any history in which the session renews before its
  lease runs out, and in which all other sessions claim, look up, renew and release whatever they
  like, a lookup still answers with that record and any other session's claim is refused with the
  owner's record.\<close>

lemma memory_claim_exclusive:
  assumes "snd (mem_claim t t' m r ttl) = Ok Acquired" "t \<le> t'"
    and "timed_from t' ops u" "keeps_lease (rr_key r) (rr_session r) (t + ttl) ops u"
    and "rr_key r' = rr_key r" "rr_session r' \<noteq> rr_session r" "u \<le> u'"
  shows "snd (mem_lookup u (fold mem_apply ops (fst (mem_claim t t' m r ttl))) (rr_key r)) = Ok (Some r) \<and>
    snd (mem_claim u u' (fold mem_apply ops (fst (mem_claim t t' m r ttl))) r' ttl') = Ok (Taken r)"
  using mem.acquired_is_exclusive [OF _ _ assms(1,2) _ assms(3,4) _ _ assms(5-7)] by simp

definition example_record :: "string \<Rightarrow> route_record" where
  "example_record sid =
     \<lparr>rr_key = ''api.tunnel.com'', rr_node_id = ''node_a'', rr_node_addr = ''10.0.0.1:7100'',
      rr_session = sid, rr_tunnel = ''tun_1'', rr_account = ''acct_1''\<rparr>"

text \<open>A dead node's routes free themselves: once the lease of an acquired claim has run out, and
  the session did not renew, the key looks up as unclaimed and any session can acquire it.\<close>

lemma memory_claim_expires:
  assumes "snd (mem_claim t t' m r ttl) = Ok Acquired" and "t' + ttl \<le> u"
    and "rr_key r' = rr_key r" "u \<le> u'"
  shows "snd (mem_lookup u (fst (mem_claim t t' m r ttl)) (rr_key r)) = Ok None \<and>
    snd (mem_claim u u' (fst (mem_claim t t' m r ttl)) r' ttl') = Ok Acquired"
proof -
  have "fst (mem_claim t t' m r ttl) (rr_key r) = Some (r, t' + ttl)"
    using assms(1) by (auto simp: mem_claim_def Let_def split: option.splits if_splits prod.splits)
  then show ?thesis
    using mem.expired_is_free [of "fst (mem_claim t t' m r ttl)" r' u u' ttl'] assms(2-4) by auto
qed

lemma memory_claim_expires_witness:
  "snd (mem_lookup 46 (fst (mem_claim 0 1 mem_new (example_record ''sess_1'') 45)) ''api.tunnel.com'') =
     Ok None \<and>
   snd (mem_claim 46 46 (fst (mem_claim 0 1 mem_new (example_record ''sess_1'') 45))
      (example_record ''sess_2'') 45) = Ok Acquired"
  using memory_claim_expires [of 0 1 mem_new "example_record ''sess_1''" 45 46 "example_record ''sess_2''" 46 45]
  by (simp add: example_record_def mem_new_def mem_claim_def evict_expired_def)

end
