(* ===== verification/Redis.thy ===== *)
theory Redis
  imports Registry
begin

text \<open>
  The Redis-backed routing table of \<open>norupo-core/src/registry.rs\<close> (module \<open>redis_registry\<close>).

  Redis itself is not part of the repository: its four commands are a parameter, the record
  \<open>redis_ops\<close>, and what the table relies on is the locale \<open>redis_server\<close>, which states the documented
  behaviour of GET, SET with PX, PEXPIRE and DEL at a given server time. The three Lua scripts and
  the methods of \<open>RedisRegistry\<close> are definitions over those commands. A request may be lost before it
  reaches the server or its reply may be lost afterwards; both are \<open>link\<close> values, and both surface as
  \<open>RegistryUnavailable\<close>. The locale is shown to meet the routing-table contract \<open>registry\<close>, and a
  plain expiring store meets the locale.
\<close>

section \<open>The server's commands\<close>

record 'r redis_ops =
  redis_get :: "nat \<Rightarrow> 'r \<Rightarrow> string \<Rightarrow> string option"
  redis_set_px :: "nat \<Rightarrow> 'r \<Rightarrow> string \<Rightarrow> string \<Rightarrow> nat \<Rightarrow> 'r \<times> (unit, string) result"
  redis_pexpire :: "nat \<Rightarrow> 'r \<Rightarrow> string \<Rightarrow> nat \<Rightarrow> 'r \<times> (unit, string) result"
  redis_del :: "nat \<Rightarrow> 'r \<Rightarrow> string \<Rightarrow> 'r"

text \<open>The way to the server: it answers, the request never arrives, or the reply is lost after the
  server has run the script. The text is the client library's error.\<close>

datatype link = Up | LostRequest string | LostReply string

section \<open>The scripts\<close>

text \<open>The Lua pattern captures the fourth tab-separated field, and nothing when there are fewer.\<close>

definition lua_owner :: "string \<Rightarrow> string option" where
  "lua_owner current = (case split_on tab_char current of _ # _ # _ # owner # _ \<Rightarrow> Some owner | _ \<Rightarrow> None)"

definition claim_script ::
    "'r redis_ops \<Rightarrow> nat \<Rightarrow> 'r \<Rightarrow> string \<Rightarrow> string \<Rightarrow> nat \<Rightarrow> string \<Rightarrow> 'r \<times> (string, string) result" where
  "claim_script ops now db key record ttl sid =
     (case redis_get ops now db key of
        Some current \<Rightarrow>
          if lua_owner current \<noteq> Some sid then (db, Ok current)
          else (let (db', res) = redis_set_px ops now db key record ttl in
                (db', bind_result res (\<lambda>_. Ok [])))
      | None \<Rightarrow>
          (let (db', res) = redis_set_px ops now db key record ttl in
           (db', bind_result res (\<lambda>_. Ok []))))"

definition renew_script ::
    "'r redis_ops \<Rightarrow> nat \<Rightarrow> 'r \<Rightarrow> string \<Rightarrow> nat \<Rightarrow> string \<Rightarrow> 'r \<times> (int, string) result" where
  "renew_script ops now db key ttl sid =
     (case redis_get ops now db key of
        None \<Rightarrow> (db, Ok 0)
      | Some current \<Rightarrow>
          if lua_owner current \<noteq> Some sid then (db, Ok 0)
          else (let (db', res) = redis_pexpire ops now db key ttl in
                (db', bind_result res (\<lambda>_. Ok 1))))"

definition release_script ::
    "'r redis_ops \<Rightarrow> nat \<Rightarrow> 'r \<Rightarrow> string \<Rightarrow> string \<Rightarrow> 'r \<times> (int, string) result" where
  "release_script ops now db key sid =
     (case redis_get ops now db key of
        None \<Rightarrow> (db, Ok 0)
      | Some current \<Rightarrow>
          if lua_owner current \<noteq> Some sid then (db, Ok 0)
          else (redis_del ops now db key, Ok 1))"

section \<open>The table\<close>

definition redis_key :: "string \<Rightarrow> string \<Rightarrow> string" where
  "redis_key prefix routing_key = prefix @ ''route:'' @ routing_key"

definition unavailable :: "string \<Rightarrow> string \<Rightarrow> error" where
  "unavailable op e = RegistryUnavailable (''redis '' @ op @ '' failed: '' @ e)"

text \<open>One round trip: the script's effect and answer as the way to the server allows them.\<close>

fun invoke_async :: "link \<Rightarrow> 'r \<Rightarrow> 'r \<times> ('a, string) result \<Rightarrow> 'r \<times> ('a, string) result" where
  "invoke_async Up db reply = reply"
| "invoke_async (LostRequest e) db reply = (db, Err e)"
| "invoke_async (LostReply e) db reply = (fst reply, Err e)"

definition redis_claim ::
    "'r redis_ops \<Rightarrow> string \<Rightarrow> link \<Rightarrow> nat \<Rightarrow> 'r \<Rightarrow> route_record \<Rightarrow> nat \<Rightarrow> 'r \<times> (claim, error) result" where
  "redis_claim ops prefix link now db record ttl =
     (let (db', reply) = invoke_async link db
            (claim_script ops now db (redis_key prefix (rr_key record)) (encode record)
               (unat (u64_saturating ttl)) (rr_session record)) in
      (db', bind_result (map_err (unavailable ''claim'') reply) (\<lambda>current.
         if current = [] then Ok Acquired
         else bind_result (decode current) (\<lambda>owner. Ok (Taken owner)))))"

definition redis_lookup ::
    "'r redis_ops \<Rightarrow> string \<Rightarrow> link \<Rightarrow> nat \<Rightarrow> 'r \<Rightarrow> string \<Rightarrow> 'r \<times> (route_record option, error) result" where
  "redis_lookup ops prefix link now db routing_key =
     (let (db', reply) = invoke_async link db (db, Ok (redis_get ops now db (redis_key prefix routing_key))) in
      (db', bind_result (map_err (unavailable ''lookup'') reply) (\<lambda>raw.
         case raw of None \<Rightarrow> Ok None | Some v \<Rightarrow> bind_result (decode v) (\<lambda>r. Ok (Some r)))))"

definition redis_renew ::
    "'r redis_ops \<Rightarrow> string \<Rightarrow> link \<Rightarrow> nat \<Rightarrow> 'r \<Rightarrow> string \<Rightarrow> string \<Rightarrow> nat \<Rightarrow> 'r \<times> (bool, error) result" where
  "redis_renew ops prefix link now db routing_key sid ttl =
     (let (db', reply) = invoke_async link db
            (renew_script ops now db (redis_key prefix routing_key) (unat (u64_saturating ttl)) sid) in
      (db', bind_result (map_err (unavailable ''renew'') reply) (\<lambda>renewed. Ok (renewed = 1))))"

definition redis_release ::
    "'r redis_ops \<Rightarrow> string \<Rightarrow> link \<Rightarrow> nat \<Rightarrow> 'r \<Rightarrow> string \<Rightarrow> string \<Rightarrow> 'r \<times> (unit, error) result" where
  "redis_release ops prefix link now db routing_key sid =
     (let (db', reply) = invoke_async link db
            (release_script ops now db (redis_key prefix routing_key) sid) in
      (db', bind_result (map_err (unavailable ''release'') reply) (\<lambda>_. Ok ())))"

text \<open>One operation of a history, with the state of the way to the server at that moment.\<close>

definition redis_apply :: "'r redis_ops \<Rightarrow> string \<Rightarrow> link \<Rightarrow> timed_op \<Rightarrow> 'r \<Rightarrow> 'r" where
  "redis_apply ops prefix link =
     reg_apply (\<lambda>t t'. redis_claim ops prefix link t) (redis_lookup ops prefix link)
       (\<lambda>t t'. redis_renew ops prefix link t) (redis_release ops prefix link)"

definition reaches :: "link \<Rightarrow> bool" where
  "reaches l \<longleftrightarrow> (case l of LostRequest _ \<Rightarrow> False | _ \<Rightarrow> True)"

section \<open>What the table relies on\<close>

text \<open>Redis keeps, for each key, a value and the time at which it expires. PX and PEXPIRE take a
  positive number of milliseconds; a script's number is a double, so the laws are stated for values
  it represents exactly.\<close>

definition px_ok :: "nat \<Rightarrow> bool" where
  "px_ok ms \<longleftrightarrow> 0 < ms \<and> ms < 2 ^ 53"

text \<open>A command on key \<open>k\<close> writes no other key, and leaves there at most the value \<open>v\<close>.\<close>

definition writes_only ::
    "('r \<Rightarrow> string \<Rightarrow> string leased option) \<Rightarrow> 'r \<Rightarrow> 'r \<Rightarrow> string \<Rightarrow> string \<Rightarrow> bool" where
  "writes_only entries db db' k v \<longleftrightarrow>
     (\<forall>k' x. entries db' k' = Some x \<longrightarrow>
        (k' = k \<and> fst x = v) \<or> (\<exists>y. entries db k' = Some y \<and> fst y = fst x))"

locale redis_server =
  fixes ops :: "'r redis_ops"
    and entries :: "'r \<Rightarrow> string \<Rightarrow> string leased option"
  assumes get_law: "redis_get ops t db k = map_option fst (live entries db t k)"
    and set_px_law: "px_ok ms \<Longrightarrow>
      \<exists>db' e. redis_set_px ops t db k v ms = (db', Ok ()) \<and> t + ms \<le> e \<and> e \<le> t + ms + 1 \<and>
        writes_only entries db db' k v \<and>
        (\<forall>u \<ge> t. live entries db' u = (live entries db u)(k := valid_until (v, e) u))"
    and pexpire_law: "\<lbrakk>px_ok ms; live entries db t k = Some (v, e0)\<rbrakk> \<Longrightarrow>
      \<exists>db' e. redis_pexpire ops t db k ms = (db', Ok ()) \<and> t + ms \<le> e \<and> e \<le> t + ms + 1 \<and>
        writes_only entries db db' k v \<and>
        (\<forall>u \<ge> t. live entries db' u = (live entries db u)(k := valid_until (v, e) u))"
    and del_law: "live entries db t k = Some (v, e0) \<Longrightarrow>
      writes_only entries db (redis_del ops t db k) k v \<and>
      (\<forall>u \<ge> t. live entries (redis_del ops t db k) u = (live entries db u)(k := None))"

section \<open>The table meets the routing-table contract\<close>

text \<open>The leases of the table are its decodable entries; it is well-formed when every entry under its
  prefix is the text of a record without tabs.\<close>

definition redis_leases ::
    "('r \<Rightarrow> string \<Rightarrow> string leased option) \<Rightarrow> string \<Rightarrow> 'r \<Rightarrow> string \<Rightarrow> lease option" where
  "redis_leases entries prefix db k =
     (case entries db (redis_key prefix k) of
        Some (v, e) \<Rightarrow> (case decode v of Ok r \<Rightarrow> Some (r, e) | Err _ \<Rightarrow> None)
      | None \<Rightarrow> None)"

definition redis_wf :: "('r \<Rightarrow> string \<Rightarrow> string leased option) \<Rightarrow> string \<Rightarrow> 'r \<Rightarrow> bool" where
  "redis_wf entries prefix db \<longleftrightarrow>
     (\<forall>k v e. entries db (redis_key prefix k) = Some (v, e) \<longrightarrow> (\<exists>r. tab_free r \<and> v = encode r))"

lemma redis_key_inject [simp]: "redis_key prefix k = redis_key prefix k' \<longleftrightarrow> k = k'"
  by (simp add: redis_key_def)

lemma lua_owner_encode: "tab_free r \<Longrightarrow> lua_owner (encode r) = Some (rr_session r)"
  by (simp add: lua_owner_def split_on_encode)

lemma u64_saturating_px: "px_ok ttl \<Longrightarrow> unat (u64_saturating ttl) = ttl"
  by (simp add: px_ok_def unat_u64_saturating)

lemma redis_wf_writes:
  assumes "redis_wf entries prefix db" "writes_only entries db db' (redis_key prefix k) (encode r)" "tab_free r"
  shows "redis_wf entries prefix db'"
  unfolding redis_wf_def
proof (intro allI impI)
  fix k' v e
  assume "entries db' (redis_key prefix k') = Some (v, e)"
  with assms(2) consider "v = encode r" | y where "entries db (redis_key prefix k') = Some y" "fst y = v"
    unfolding writes_only_def by force
  then show "\<exists>r. tab_free r \<and> v = encode r"
  proof cases
    case 1
    with assms(3) show ?thesis by blast
  next
    case (2 y)
    with assms(1) show ?thesis unfolding redis_wf_def by (cases y) auto
  qed
qed

text \<open>At any time a live entry of a well-formed table is a live lease, and the other way round.\<close>

lemma live_redis_leases:
  assumes "redis_wf entries prefix db"
  shows "live (redis_leases entries prefix) db t k =
    (case live entries db t (redis_key prefix k) of
       Some (v, e) \<Rightarrow> (case decode v of Ok r \<Rightarrow> Some (r, e) | Err _ \<Rightarrow> None) | None \<Rightarrow> None)"
  by (auto simp: live_def redis_leases_def split: option.splits result.splits)

lemma live_entry:
  assumes "redis_wf entries prefix db" "live entries db t (redis_key prefix k) = Some (v, e)"
  obtains r where "tab_free r" "v = encode r" "live (redis_leases entries prefix) db t k = Some (r, e)"
proof -
  have "entries db (redis_key prefix k) = Some (v, e)"
    using assms(2) by (auto simp: live_def split: option.splits if_splits)
  then obtain r where r: "tab_free r" "v = encode r" using assms(1) unfolding redis_wf_def by blast
  with assms show ?thesis using that by (simp add: live_redis_leases decode_encode)
qed

lemma live_lease:
  assumes "redis_wf entries prefix db" "live (redis_leases entries prefix) db t k = Some (r, e)"
  shows "live entries db t (redis_key prefix k) = Some (encode r, e)" "tab_free r"
proof -
  obtain v e' where v: "live entries db t (redis_key prefix k) = Some (v, e')"
    using assms by (auto simp: live_redis_leases split: option.splits)
  then obtain r' where "tab_free r'" "v = encode r'" "live (redis_leases entries prefix) db t k = Some (r', e')"
    using live_entry [OF assms(1)] by blast
  with v assms(2) show "live entries db t (redis_key prefix k) = Some (encode r, e)" "tab_free r" by auto
qed

lemma live_leases_update:
  assumes "live entries db' u = (live entries db u)(redis_key prefix k := x)"
    "redis_wf entries prefix db" "redis_wf entries prefix db'"
  shows "live (redis_leases entries prefix) db' u =
    (live (redis_leases entries prefix) db u)(k := (case x of
       Some (v, e) \<Rightarrow> (case decode v of Ok r \<Rightarrow> Some (r, e) | Err _ \<Rightarrow> None) | None \<Rightarrow> None))"
  using assms(1) by (auto simp: fun_eq_iff live_redis_leases [OF assms(2)] live_redis_leases [OF assms(3)])

lemma decode_valid_until:
  "tab_free r \<Longrightarrow> (case valid_until (encode r, e) u of
      Some (v, e) \<Rightarrow> (case decode v of Ok r \<Rightarrow> Some (r, e) | Err _ \<Rightarrow> None) | None \<Rightarrow> None) = valid_until (r, e) u"
  by (simp add: valid_until_def decode_encode)

lemmas script_simps = claim_script_def renew_script_def release_script_def redis_claim_def redis_lookup_def
  redis_renew_def redis_release_def lua_owner_encode u64_saturating_px decode_encode Let_def

locale redis_table = redis_server ops entries
  for ops :: "'r redis_ops" and entries :: "'r \<Rightarrow> string \<Rightarrow> string leased option" +
  fixes prefix :: string
begin

abbreviation leases :: "'r \<Rightarrow> string \<Rightarrow> lease option" where
  "leases \<equiv> redis_leases entries prefix"

abbreviation wf :: "'r \<Rightarrow> bool" where
  "wf \<equiv> redis_wf entries prefix"

lemma get_live_lease:
  "\<lbrakk>wf db; live leases db t k = Some (r, e)\<rbrakk> \<Longrightarrow> redis_get ops t db (redis_key prefix k) = Some (encode r)"
  by (simp add: get_law live_lease)

lemma get_no_lease:
  assumes "wf db" "live leases db t k = None"
  shows "redis_get ops t db (redis_key prefix k) = None"
proof (rule ccontr)
  assume "redis_get ops t db (redis_key prefix k) \<noteq> None"
  then obtain v e where "live entries db t (redis_key prefix k) = Some (v, e)" by (auto simp: get_law)
  with assms show False using live_entry [OF assms(1)] by force
qed

lemma set_record:
  assumes "wf db" "tab_free r" "px_ok ttl"
  obtains db' e where "redis_set_px ops t db (redis_key prefix k) (encode r) ttl = (db', Ok ())"
    "wf db'" "t + ttl \<le> e" "e \<le> t + ttl + 1"
    "\<forall>u \<ge> t. live leases db' u = (live leases db u)(k := valid_until (r, e) u)"
proof -
  obtain db' e where set: "redis_set_px ops t db (redis_key prefix k) (encode r) ttl = (db', Ok ())"
    "t + ttl \<le> e" "e \<le> t + ttl + 1" "writes_only entries db db' (redis_key prefix k) (encode r)"
    "\<forall>u \<ge> t. live entries db' u = (live entries db u)(redis_key prefix k := valid_until (encode r, e) u)"
    using set_px_law [OF assms(3)] by blast
  have wf': "wf db'" using redis_wf_writes [OF assms(1) set(4) assms(2)] .
  have "\<forall>u \<ge> t. live leases db' u = (live leases db u)(k := valid_until (r, e) u)"
    using set(5) live_leases_update [OF _ assms(1) wf'] decode_valid_until [OF assms(2)] by auto
  with set(1-3) wf' show ?thesis using that by blast
qed

lemma expire_record:
  assumes "wf db" "px_ok ttl" "live leases db t k = Some (r, e0)"
  obtains db' e where "redis_pexpire ops t db (redis_key prefix k) ttl = (db', Ok ())"
    "wf db'" "t + ttl \<le> e" "e \<le> t + ttl + 1"
    "\<forall>u \<ge> t. live leases db' u = (live leases db u)(k := valid_until (r, e) u)"
proof -
  note r = live_lease [OF assms(1,3)]
  obtain db' e where ex: "redis_pexpire ops t db (redis_key prefix k) ttl = (db', Ok ())"
    "t + ttl \<le> e" "e \<le> t + ttl + 1" "writes_only entries db db' (redis_key prefix k) (encode r)"
    "\<forall>u \<ge> t. live entries db' u = (live entries db u)(redis_key prefix k := valid_until (encode r, e) u)"
    using pexpire_law [OF assms(2) r(1)] by blast
  have wf': "wf db'" using redis_wf_writes [OF assms(1) ex(4) r(2)] .
  have "\<forall>u \<ge> t. live leases db' u = (live leases db u)(k := valid_until (r, e) u)"
    using ex(5) live_leases_update [OF _ assms(1) wf'] decode_valid_until [OF r(2)] by auto
  with ex(1-3) wf' show ?thesis using that by blast
qed

lemma delete_record:
  assumes "wf db" "live leases db t k = Some (r, e0)"
  shows "wf (redis_del ops t db (redis_key prefix k)) \<and>
    (\<forall>u \<ge> t. live leases (redis_del ops t db (redis_key prefix k)) u = (live leases db u)(k := None))"
proof -
  let ?db' = "redis_del ops t db (redis_key prefix k)"
  note r = live_lease [OF assms]
  note del = del_law [OF r(1)]
  have wf': "wf ?db'" using redis_wf_writes [OF assms(1) _ r(2)] del by blast
  moreover have "\<forall>u \<ge> t. live leases ?db' u = (live leases db u)(k := None)"
    using del live_leases_update [OF _ assms(1) wf', where x = None] by auto
  ultimately show ?thesis ..
qed

text \<open>What the table answers, by the lease it holds.\<close>

lemma claim_of_other:
  "\<lbrakk>wf db; live leases db t (rr_key r) = Some (r0, e0); rr_session r0 \<noteq> rr_session r\<rbrakk> \<Longrightarrow>
     redis_claim ops prefix Up t db r ttl = (db, Ok (Taken r0))"
  using live_lease [of entries prefix db t "rr_key r" r0 e0]
  by (simp add: script_simps get_live_lease)

lemma claim_of_free:
  assumes "wf db" "\<And>r0 e0. live leases db t (rr_key r) = Some (r0, e0) \<Longrightarrow> rr_session r0 = rr_session r"
    "px_ok ttl" "redis_set_px ops t db (redis_key prefix (rr_key r)) (encode r) ttl = (db', Ok ())"
  shows "redis_claim ops prefix Up t db r ttl = (db', Ok Acquired)"
proof (cases "live leases db t (rr_key r)")
  case None
  with assms(1,3,4) show ?thesis by (simp add: script_simps get_no_lease)
next
  case (Some l)
  with assms show ?thesis using live_lease(2) [OF assms(1)]
    by (cases l) (auto simp: script_simps get_live_lease)
qed

lemma lookup_of:
  "wf db \<Longrightarrow> redis_lookup ops prefix Up t db k = (db, Ok (map_option fst (live leases db t k)))"
  using live_lease(2) [of entries prefix db t k]
  by (cases "live leases db t k") (auto simp: script_simps get_no_lease get_live_lease)

lemma renew_of_owner:
  assumes "wf db" "live leases db t k = Some (r, e0)" "px_ok ttl"
    "redis_pexpire ops t db (redis_key prefix k) ttl = (db', Ok ())"
  shows "redis_renew ops prefix Up t db k (rr_session r) ttl = (db', Ok True)"
  using assms live_lease(2) [OF assms(1,2)] by (simp add: script_simps get_live_lease)

lemma renew_of_other:
  assumes "wf db" "\<And>r e. live leases db t k = Some (r, e) \<Longrightarrow> rr_session r \<noteq> sid"
  shows "redis_renew ops prefix Up t db k sid ttl = (db, Ok False)"
  using assms live_lease(2) [OF assms(1)]
  by (cases "live leases db t k") (auto simp: script_simps get_no_lease get_live_lease)

lemma release_of_owner:
  assumes "wf db" "live leases db t k = Some (r, e0)"
  shows "redis_release ops prefix Up t db k (rr_session r) = (redis_del ops t db (redis_key prefix k), Ok ())"
  using assms live_lease(2) [OF assms] by (simp add: script_simps get_live_lease)

lemma release_of_other:
  assumes "wf db" "\<And>r e. live leases db t k = Some (r, e) \<Longrightarrow> rr_session r \<noteq> sid"
  shows "redis_release ops prefix Up t db k sid = (db, Ok ())"
  using assms live_lease(2) [OF assms(1)]
  by (cases "live leases db t k") (auto simp: script_simps get_no_lease get_live_lease)

end

sublocale redis_table \<subseteq> table: registry "\<lambda>t t'. redis_claim ops prefix Up t" "redis_lookup ops prefix Up"
  "\<lambda>t t'. redis_renew ops prefix Up t" "redis_release ops prefix Up" leases wf tab_free px_ok
proof (unfold_locales, goal_cases)
  case (1 s r t t' ttl r0 e0)
  then show ?case using claim_of_other by simp
next
  case (2 s r t t' ttl)
  obtain db' e where set: "redis_set_px ops t s (redis_key prefix (rr_key r)) (encode r) ttl = (db', Ok ())"
    "wf db'" "t + ttl \<le> e" "e \<le> t + ttl + 1"
    "\<forall>u \<ge> t. live leases db' u = (live leases s u)(rr_key r := valid_until (r, e) u)"
    using set_record [OF 2(1,2,4)] .
  then have "redis_claim ops prefix Up t s r ttl = (db', Ok Acquired)"
    using claim_of_free 2 by blast
  with set 2(3) show ?case by (intro exI [of _ db'] exI [of _ e]) simp
next
  case (3 s t k)
  then show ?case by (simp add: lookup_of)
next
  case (4 s t t' ttl k r e0 sid)
  obtain db' e where ex: "redis_pexpire ops t s (redis_key prefix k) ttl = (db', Ok ())"
    "wf db'" "t + ttl \<le> e" "e \<le> t + ttl + 1"
    "\<forall>u \<ge> t. live leases db' u = (live leases s u)(k := valid_until (r, e) u)"
    using expire_record [OF 4(1,3,4)] .
  then have "redis_renew ops prefix Up t s k sid ttl = (db', Ok True)"
    using renew_of_owner [OF 4(1,4,3)] 4(5) by blast
  with ex 4(2) show ?case by (intro exI [of _ db'] exI [of _ e]) simp
next
  case (5 s t t' ttl k sid)
  then show ?case using renew_of_other [of s t k sid] by simp
next
  case (6 s t k r e sid)
  then show ?case using delete_record [of s t k r e] release_of_owner [of s t k r e] by simp
next
  case (7 s t k sid)
  then show ?case using release_of_other [of s t k sid] by simp
qed

context redis_table
begin

lemmas lease_of_claim = table.acquired_lease
lemmas exclusive_claim = table.acquired_is_exclusive
lemmas free_claim = table.claim_acquired

end

section \<open>Histories with lost requests and lost replies\<close>

text \<open>What reached the server of a history of operations, each with the state of its link.\<close>

definition reached :: "(link \<times> timed_op) list \<Rightarrow> timed_op list" where
  "reached h = map snd (filter (\<lambda>(l, _). reaches l) h)"

lemma invoke_async_state: "fst (invoke_async l db reply) = (if reaches l then fst reply else db)"
  by (cases l) (simp_all add: reaches_def)

lemma redis_apply_link:
  "redis_apply ops prefix l op db = (if reaches l then redis_apply ops prefix Up op db else db)"
proof -
  obtain t t' o' where op: "op = ((t, t'), o')" by (metis surj_pair)
  show ?thesis
    unfolding redis_apply_def op
    by (cases o') (auto simp: redis_claim_def redis_lookup_def redis_renew_def redis_release_def
        invoke_async_state case_prod_unfold Let_def)
qed

lemma fold_reached:
  "fold (\<lambda>(l, op). redis_apply ops prefix l op) h db = fold (redis_apply ops prefix Up) (reached h) db"
proof (induction h arbitrary: db)
  case Nil
  then show ?case by (simp add: reached_def)
next
  case (Cons x h)
  obtain l op where "x = (l, op)" by (metis surj_pair)
  with Cons show ?case using redis_apply_link [of ops prefix l op db] by (simp add: reached_def)
qed

section \<open>A store that meets the server's laws\<close>

type_synonym store = "string \<rightharpoonup> string leased"

definition ref_get :: "nat \<Rightarrow> store \<Rightarrow> string \<Rightarrow> string option" where
  "ref_get t db k = map_option fst (live id db t k)"

definition ref_store :: "store redis_ops" where
  "ref_store = \<lparr>redis_get = ref_get,
     redis_set_px = (\<lambda>t db k v ms. if px_ok ms then (db(k \<mapsto> (v, t + ms)), Ok ()) else (db, Err ''ERR invalid expire time'')),
     redis_pexpire = (\<lambda>t db k ms. case live id db t k of
        Some (v, _) \<Rightarrow> if px_ok ms then (db(k \<mapsto> (v, t + ms)), Ok ()) else (db, Err ''ERR invalid expire time'')
      | None \<Rightarrow> (db, Ok ())),
     redis_del = (\<lambda>t db k. db(k := None))\<rparr>"

interpretation ref: redis_server ref_store id
proof (unfold_locales, goal_cases)
  case (1 t db k)
  show ?case by (simp add: ref_store_def ref_get_def)
next
  case (2 ms t db k v)
  then show ?case
    by (auto intro!: exI [of _ "t + ms"] simp: ref_store_def live_update writes_only_def)
next
  case (3 ms db t k v e0)
  then show ?case
    by (auto intro!: exI [of _ "t + ms"] simp: ref_store_def live_update writes_only_def)
next
  case (4 db t k v e0)
  show ?case by (auto simp: ref_store_def live_remove writes_only_def)
qed

text \<open>The table on this store, under the default prefix.\<close>

interpretation ref_table: redis_table ref_store id "''norupo:''"
  by unfold_locales

section \<open>Properties\<close>

text \<open>C3. Ownership is exclusive across the cluster, whatever the network does. Once a session's claim
  is acquired in the shared table, then after any history of claims, lookups, renewals and releases
  by all nodes, with requests and replies lost anywhere, in which the owner's renewals reach the
  server before its lease runs out, a lookup still answers with the owner's record and any other
  session's claim is refused with it.\<close>

theorem redis_claim_exclusive:
  assumes "redis_server ops entries" "redis_wf entries prefix db" "tab_free r" "px_ok ttl"
    and "snd (redis_claim ops prefix Up t db r ttl) = Ok Acquired"
    and "timed_from t (reached h) u" "keeps_lease (rr_key r) (rr_session r) (t + ttl) (reached h) u"
    and "\<forall>op \<in> set (reached h). op_storable tab_free px_ok (snd op)"
    and "tab_free r'" "rr_key r' = rr_key r" "rr_session r' \<noteq> rr_session r" "px_ok ttl'"
  shows "snd (redis_lookup ops prefix Up u
      (fold (\<lambda>(l, op). redis_apply ops prefix l op) h (fst (redis_claim ops prefix Up t db r ttl)))
      (rr_key r)) = Ok (Some r) \<and>
    snd (redis_claim ops prefix Up u
      (fold (\<lambda>(l, op). redis_apply ops prefix l op) h (fst (redis_claim ops prefix Up t db r ttl)))
      r' ttl') = Ok (Taken r)"
proof -
  have "redis_table ops entries" by (simp add: redis_table_def assms(1))
  from redis_table.exclusive_claim [OF this assms(2,3,5) le_refl assms(4,6-11) le_refl assms(12)]
  show ?thesis unfolding fold_reached by (simp add: redis_apply_def)
qed

theorem redis_claim_exclusive_witness:
  "snd (redis_lookup ref_store ''norupo:'' Up 59 (fold (\<lambda>(l, op). redis_apply ref_store ''norupo:'' l op)
      [(LostReply ''io'', ((20, 20), OpRenew ''api.tunnel.com'' ''sess_1'' 45)),
       (LostRequest ''io'', ((25, 25), OpRenew ''api.tunnel.com'' ''sess_1'' 45)),
       (Up, ((30, 30), OpRelease ''api.tunnel.com'' ''sess_2''))]
      (fst (redis_claim ref_store ''norupo:'' Up 0 Map.empty (example_record ''sess_1'') 45)))
      ''api.tunnel.com'') = Ok (Some (example_record ''sess_1''))"
proof -
  let ?h = "[(LostReply ''io'', ((20, 20), OpRenew ''api.tunnel.com'' ''sess_1'' 45)),
       (LostRequest ''io'', ((25, 25), OpRenew ''api.tunnel.com'' ''sess_1'' 45)),
       (Up, ((30, 30), OpRelease ''api.tunnel.com'' ''sess_2''))] :: (link \<times> timed_op) list"
  have h: "reached ?h = [((20, 20), OpRenew ''api.tunnel.com'' ''sess_1'' 45),
      ((30, 30), OpRelease ''api.tunnel.com'' ''sess_2'')]"
    by (simp add: reached_def reaches_def)
  have ok: "tab_free (example_record ''sess_1'')" "tab_free (example_record ''sess_2'')" "px_ok 45"
    "redis_wf id ''norupo:'' Map.empty"
    by (simp_all add: tab_free_def example_record_def px_ok_def redis_wf_def)
  have "snd (redis_claim ref_store ''norupo:'' Up 0 Map.empty (example_record ''sess_1'') 45) = Ok Acquired"
    using ok(3) by (simp add: script_simps ref_store_def ref_get_def live_def)
  then show ?thesis
    using redis_claim_exclusive [of ref_store id "''norupo:''" Map.empty "example_record ''sess_1''" 45 0
        ?h 59 "example_record ''sess_2''" 45] ref.redis_server_axioms ok
    unfolding h by (simp add: example_record_def)
qed

text \<open>C29. A claim whose reply was lost can simply be retried: the first attempt reports the backend as
  unavailable, and the same session's next attempt, at any later time, acquires the key, while the
  lost reply has not let any other session in.\<close>

theorem redis_claim_retry:
  assumes "redis_server ops entries" "redis_wf entries prefix db" "tab_free r" "px_ok ttl" "t \<le> u"
    and "snd (redis_claim ops prefix Up t db r ttl) = Ok Acquired"
  shows "snd (redis_claim ops prefix (LostReply e) t db r ttl) = Err (unavailable ''claim'' e) \<and>
    snd (redis_claim ops prefix Up u (fst (redis_claim ops prefix (LostReply e) t db r ttl)) r ttl) = Ok Acquired \<and>
    (\<forall>r'. u < t + ttl \<longrightarrow> tab_free r' \<longrightarrow> rr_key r' = rr_key r \<longrightarrow> rr_session r' \<noteq> rr_session r \<longrightarrow>
       snd (redis_claim ops prefix Up u (fst (redis_claim ops prefix (LostReply e) t db r ttl)) r' ttl) = Ok (Taken r))"
proof -
  have tab: "redis_table ops entries" by (simp add: redis_table_def assms(1))
  let ?db = "fst (redis_claim ops prefix Up t db r ttl)"
  have same: "fst (redis_claim ops prefix (LostReply e) t db r ttl) = ?db"
    "snd (redis_claim ops prefix (LostReply e) t db r ttl) = Err (unavailable ''claim'' e)"
    by (simp_all add: redis_claim_def case_prod_unfold Let_def)
  obtain e' where db: "redis_wf entries prefix ?db" "t + ttl \<le> e'"
    "\<forall>v \<ge> t. live (redis_leases entries prefix) ?db v (rr_key r) = valid_until (r, e') v"
    using redis_table.lease_of_claim [OF tab assms(2,3,6) le_refl assms(4)] by auto
  have live_u: "live (redis_leases entries prefix) ?db u (rr_key r) = valid_until (r, e') u"
    using db(3) assms(5) by blast
  then have "rr_session r0 = rr_session r"
    if "live (redis_leases entries prefix) ?db u (rr_key r) = Some (r0, e0)" for r0 e0
    using that by (auto simp: valid_until_def split: if_splits)
  then have "snd (redis_claim ops prefix Up u ?db r ttl) = Ok Acquired"
    using redis_table.free_claim [OF tab db(1) assms(3) le_refl assms(4)] by fastforce
  moreover have "snd (redis_claim ops prefix Up u ?db r' ttl) = Ok (Taken r)"
    if "u < t + ttl" "tab_free r'" "rr_key r' = rr_key r" "rr_session r' \<noteq> rr_session r" for r'
    using redis_table.claim_of_other [OF tab db(1), of u r' r e' ttl] live_u that db(2)
    by (simp add: valid_until_def)
  ultimately show ?thesis unfolding same by blast
qed

theorem redis_claim_retry_witness:
  "snd (redis_claim ref_store ''norupo:'' (LostReply ''io'') 0 Map.empty (example_record ''sess_1'') 45) =
     Err (unavailable ''claim'' ''io'') \<and>
   snd (redis_claim ref_store ''norupo:'' Up 5
     (fst (redis_claim ref_store ''norupo:'' (LostReply ''io'') 0 Map.empty (example_record ''sess_1'') 45))
     (example_record ''sess_1'') 45) = Ok Acquired"
proof -
  have ok: "tab_free (example_record ''sess_1'')" "px_ok 45" "redis_wf id ''norupo:'' Map.empty"
    by (simp_all add: tab_free_def example_record_def px_ok_def redis_wf_def)
  have "snd (redis_claim ref_store ''norupo:'' Up 0 Map.empty (example_record ''sess_1'') 45) = Ok Acquired"
    using ok(2) by (simp add: script_simps ref_store_def ref_get_def live_def)
  then show ?thesis
    using redis_claim_retry [of ref_store id "''norupo:''" Map.empty "example_record ''sess_1''" 45 0 5 "''io''"]
      ref.redis_server_axioms ok by simp
qed

end
