(* ===== verification/Server_Config.thy ===== *)
theory Server_Config
  imports Proto
begin

text \<open>
  \<open>norupo-server/src/config.rs\<close>: the configuration, its defaults (the \<open>default_value\<close> attributes) and
  what is derived from it. A socket address is its text form, a duration its number of milliseconds.
  Reading flags and environment variables is \<open>clap\<close>'s.
\<close>

record server_config =
  control_addr :: string
  http_addr :: string
  peer_addr :: string
  advertise_addr :: "string option"
  base_domain :: string
  public_scheme :: string
  redis_url :: "string option"
  redis_prefix :: string
  cfg_node_id :: "string option"
  cfg_allow_anonymous :: bool
  tokens_file :: "string option"
  heartbeat_ms :: u64
  response_timeout_ms :: u64
  window_bytes :: u32
  log_filter :: string

definition heartbeat :: "server_config \<Rightarrow> nat" where
  "heartbeat cfg = unat (heartbeat_ms cfg)"

definition route_ttl :: "server_config \<Rightarrow> nat" where
  "route_ttl cfg = heartbeat cfg * 3"

definition response_timeout :: "server_config \<Rightarrow> nat" where
  "response_timeout cfg = unat (response_timeout_ms cfg)"

definition advertised_peer_addr :: "server_config \<Rightarrow> string" where
  "advertised_peer_addr cfg = (case advertise_addr cfg of Some a \<Rightarrow> a | None \<Rightarrow> peer_addr cfg)"

definition public_url :: "server_config \<Rightarrow> string \<Rightarrow> string" where
  "public_url cfg host = public_scheme cfg @ ''://'' @ host"

definition default_config :: server_config where
  "default_config =
     \<lparr>control_addr = ''0.0.0.0:7000'', http_addr = ''0.0.0.0:8080'', peer_addr = ''0.0.0.0:7100'',
      advertise_addr = None, base_domain = ''localhost'', public_scheme = ''https'', redis_url = None,
      redis_prefix = ''norupo:'', cfg_node_id = None, cfg_allow_anonymous = False, tokens_file = None,
      heartbeat_ms = 15000, response_timeout_ms = 30000, window_bytes = DEFAULT_WINDOW, log_filter = ''info''\<rparr>"

text \<open>The helper of \<open>control.rs\<close> with the same policy.\<close>

definition default_route_ttl :: "nat \<Rightarrow> nat" where
  "default_route_ttl hb = hb * 3"

lemma route_ttl_default: "route_ttl cfg = default_route_ttl (heartbeat cfg)"
  by (simp add: route_ttl_def default_route_ttl_def)

end
