(* ===== verification/State.thy ===== *)
theory State
  imports Session_Delivery Session_Streams Redis Server_Config
begin

text \<open>
  \<open>norupo-server/src/state.rs\<close>: what the control plane and the ingress of one node share. The routing
  table is a \<open>dyn Registry\<close>: a record of the four operations over its own state, with the in-process
  table and the Redis-backed one as its two instances; the credential check is a \<open>dyn AuthProvider\<close>.
  A clock, which time only moves forwards, and the flags that say which heartbeat tasks have been
  aborted complete the state. Handlers are tasks over it; a session's own operations run on the
  session's part.
\<close>

section \<open>The routing table as an object\<close>

record 'r registry_ops =
  rg_claim :: "nat \<Rightarrow> nat \<Rightarrow> 'r \<Rightarrow> route_record \<Rightarrow> nat \<Rightarrow> 'r \<times> (claim, error) result"
  rg_lookup :: "nat \<Rightarrow> 'r \<Rightarrow> string \<Rightarrow> 'r \<times> (route_record option, error) result"
  rg_renew :: "nat \<Rightarrow> nat \<Rightarrow> 'r \<Rightarrow> string \<Rightarrow> string \<Rightarrow> nat \<Rightarrow> 'r \<times> (bool, error) result"
  rg_release :: "nat \<Rightarrow> 'r \<Rightarrow> string \<Rightarrow> string \<Rightarrow> 'r \<times> (unit, error) result"

definition memory_registry :: "mem_table registry_ops" where
  "memory_registry = \<lparr>rg_claim = mem_claim, rg_lookup = mem_lookup, rg_renew = mem_renew,
     rg_release = (\<lambda>_. mem_release)\<rparr>"

text \<open>The Redis-backed table's state is the state of the way to the server and the server's data.\<close>

definition redis_registry :: "'d redis_ops \<Rightarrow> string \<Rightarrow> (link \<times> 'd) registry_ops" where
  "redis_registry rops prefix =
     \<lparr>rg_claim = (\<lambda>t t' s r ttl. (case s of (link, db) \<Rightarrow>
          let (db', res) = redis_claim rops prefix link t db r ttl in ((link, db'), res))),
       rg_lookup = (\<lambda>t s k. (case s of (link, db) \<Rightarrow>
          let (db', res) = redis_lookup rops prefix link t db k in ((link, db'), res))),
       rg_renew = (\<lambda>t t' s k sid ttl. (case s of (link, db) \<Rightarrow>
          let (db', res) = redis_renew rops prefix link t db k sid ttl in ((link, db'), res))),
       rg_release = (\<lambda>t s k sid. (case s of (link, db) \<Rightarrow>
          let (db', res) = redis_release rops prefix link t db k sid in ((link, db'), res)))\<rparr>"

section \<open>The node\<close>

record ('m, 'qo, 'qb, 'o, 'r) server =
  app_config :: server_config
  app_node_id :: string
  app_node_addr :: string
  app_registry :: 'r
  app_auth :: "string \<Rightarrow> (principal, error) result"
  app_sessions :: "('m, 'qo, 'qb, 'o) manager"
  clock :: nat
  heartbeat_aborted :: "nat \<Rightarrow> bool"

definition SERVER_VERSION :: string where
  "SERVER_VERSION = ''0.1.1''"

definition session_at :: "nat \<Rightarrow> ('m, 'qo, 'qb, 'o, 'r) server \<Rightarrow> ('m, 'qo, 'qb, 'o) session" where
  "session_at a w = session_heap (app_sessions w) ! a"

definition set_session ::
    "nat \<Rightarrow> ('m, 'qo, 'qb, 'o) session \<Rightarrow> ('m, 'qo, 'qb, 'o, 'r) server \<Rightarrow> ('m, 'qo, 'qb, 'o, 'r) server" where
  "set_session a s w = w\<lparr>app_sessions := (app_sessions w)\<lparr>session_heap := (session_heap (app_sessions w))[a := s]\<rparr>\<rparr>"

definition on_session ::
    "nat \<Rightarrow> (('m, 'qo, 'qb, 'o) session, 'x) task \<Rightarrow> (('m, 'qo, 'qb, 'o, 'r) server, 'x) task" where
  "on_session a = zoom (session_at a) (set_session a)"

text \<open>One call of the routing table, at the current time.\<close>

definition registry_claim ::
    "'r registry_ops \<Rightarrow> route_record \<Rightarrow> nat \<Rightarrow> (('m, 'qo, 'qb, 'o, 'r) server, (claim, error) result) task" where
  "registry_claim G record ttl = atomically (\<lambda>w.
     let (r, res) = rg_claim G (clock w) (clock w) (app_registry w) record ttl in (w\<lparr>app_registry := r\<rparr>, res))"

definition registry_lookup ::
    "'r registry_ops \<Rightarrow> string \<Rightarrow> (('m, 'qo, 'qb, 'o, 'r) server, (route_record option, error) result) task" where
  "registry_lookup G key = atomically (\<lambda>w.
     let (r, res) = rg_lookup G (clock w) (app_registry w) key in (w\<lparr>app_registry := r\<rparr>, res))"

definition registry_renew ::
    "'r registry_ops \<Rightarrow> string \<Rightarrow> string \<Rightarrow> nat \<Rightarrow> (('m, 'qo, 'qb, 'o, 'r) server, (bool, error) result) task" where
  "registry_renew G key sid ttl = atomically (\<lambda>w.
     let (r, res) = rg_renew G (clock w) (clock w) (app_registry w) key sid ttl in (w\<lparr>app_registry := r\<rparr>, res))"

definition registry_release ::
    "'r registry_ops \<Rightarrow> string \<Rightarrow> string \<Rightarrow> (('m, 'qo, 'qb, 'o, 'r) server, (unit, error) result) task" where
  "registry_release G key sid = atomically (\<lambda>w.
     let (r, res) = rg_release G (clock w) (app_registry w) key sid in (w\<lparr>app_registry := r\<rparr>, res))"

section \<open>Lemmas\<close>

definition has_session :: "nat \<Rightarrow> ('m, 'qo, 'qb, 'o, 'r) server \<Rightarrow> bool" where
  "has_session a w \<longleftrightarrow> a < length (session_heap (app_sessions w))"

lemma has_session_set [simp]: "has_session b (set_session a s w) = has_session b w"
  by (simp add: has_session_def set_session_def)

lemma session_at_set [simp]: "has_session a w \<Longrightarrow> session_at a (set_session a s w) = s"
  by (simp add: has_session_def session_at_def set_session_def)

lemma session_at_set_other [simp]: "b \<noteq> a \<Longrightarrow> session_at b (set_session a s w) = session_at b w"
  by (simp add: session_at_def set_session_def)

lemma set_session_set [simp]: "set_session a s (set_session a s' w) = set_session a s w"
  by (simp add: set_session_def)

lemma set_session_at [simp]: "set_session a (session_at a w) w = w"
  by (simp add: session_at_def set_session_def)

lemma set_session_fields [simp]:
  "app_config (set_session a s w) = app_config w" "app_node_id (set_session a s w) = app_node_id w"
  "app_node_addr (set_session a s w) = app_node_addr w" "app_registry (set_session a s w) = app_registry w"
  "app_auth (set_session a s w) = app_auth w" "clock (set_session a s w) = clock w"
  "heartbeat_aborted (set_session a s w) = heartbeat_aborted w"
  "sessions (app_sessions (set_session a s w)) = sessions (app_sessions w)"
  by (simp_all add: set_session_def)

lemma session_at_fields [simp]:
  "session_at a (w\<lparr>app_registry := r\<rparr>) = session_at a w" "session_at a (w\<lparr>clock := t\<rparr>) = session_at a w"
  "session_at a (w\<lparr>heartbeat_aborted := h\<rparr>) = session_at a w"
  "has_session a (w\<lparr>app_registry := r\<rparr>) = has_session a w" "has_session a (w\<lparr>clock := t\<rparr>) = has_session a w"
  "has_session a (w\<lparr>heartbeat_aborted := h\<rparr>) = has_session a w"
  by (simp_all add: session_at_def has_session_def)

lemma run_on_session:
  "has_session a w \<Longrightarrow> run (on_session a m) w =
     (case run m (session_at a w) of
        Finished s x \<Rightarrow> Finished (set_session a s w) x
      | Blocked s t \<Rightarrow> Blocked (set_session a s w) (on_session a t)
      | Panicked s e \<Rightarrow> Panicked (set_session a s w) e
      | Halted s \<Rightarrow> Halted (set_session a s w))"
  unfolding on_session_def by (rule run_zoom [where ok = "has_session a"]) simp_all

lemma run_registry [simp]:
  "run (registry_claim G record ttl) w = (case rg_claim G (clock w) (clock w) (app_registry w) record ttl of
     (r, res) \<Rightarrow> Finished (w\<lparr>app_registry := r\<rparr>) res)"
  "run (registry_lookup G key) w = (case rg_lookup G (clock w) (app_registry w) key of
     (r, res') \<Rightarrow> Finished (w\<lparr>app_registry := r\<rparr>) res')"
  "run (registry_renew G key sid ttl) w = (case rg_renew G (clock w) (clock w) (app_registry w) key sid ttl of
     (r, res'') \<Rightarrow> Finished (w\<lparr>app_registry := r\<rparr>) res'')"
  "run (registry_release G key sid) w = (case rg_release G (clock w) (app_registry w) key sid of
     (r, res''') \<Rightarrow> Finished (w\<lparr>app_registry := r\<rparr>) res''')"
  by (simp_all add: registry_claim_def registry_lookup_def registry_renew_def registry_release_def Let_def
      split: prod.split)

text \<open>A routing table object that meets the contract.\<close>

locale routing_table =
  registry "rg_claim G" "rg_lookup G" "rg_renew G" "rg_release G" leases wf storable ttl_ok
  for G :: "'r registry_ops" and leases :: "'r \<Rightarrow> string \<Rightarrow> lease option" and wf :: "'r \<Rightarrow> bool"
    and storable :: "route_record \<Rightarrow> bool" and ttl_ok :: "nat \<Rightarrow> bool"

interpretation memory_table: routing_table memory_registry id "\<lambda>_. True" "\<lambda>_. True" "\<lambda>_. True"
  unfolding routing_table_def by (simp add: memory_registry_def mem.registry_axioms)

text \<open>While the way to the server is up, the Redis-backed table meets it too.\<close>

definition shared_leases ::
    "('d \<Rightarrow> string \<Rightarrow> string leased option) \<Rightarrow> string \<Rightarrow> link \<times> 'd \<Rightarrow> string \<Rightarrow> lease option" where
  "shared_leases entries prefix s = redis_leases entries prefix (snd s)"

definition shared_wf :: "('d \<Rightarrow> string \<Rightarrow> string leased option) \<Rightarrow> string \<Rightarrow> link \<times> 'd \<Rightarrow> bool" where
  "shared_wf entries prefix s \<longleftrightarrow> fst s = Up \<and> redis_wf entries prefix (snd s)"

sublocale redis_table \<subseteq> shared: routing_table "redis_registry ops prefix" "shared_leases entries prefix"
  "shared_wf entries prefix" tab_free px_ok
  unfolding routing_table_def
proof (rule registryI)
  fix s assume "shared_wf entries prefix s"
  then obtain db where s: "s = (Up, db)" "redis_wf entries prefix db" by (cases s) (simp add: shared_wf_def)
  show "laws_at (rg_claim (redis_registry ops prefix)) (rg_lookup (redis_registry ops prefix))
      (rg_renew (redis_registry ops prefix)) (rg_release (redis_registry ops prefix))
      (shared_leases entries prefix) (shared_wf entries prefix) tab_free px_ok s"
    unfolding s(1) by (rule laws_at_embed [THEN iffD2, OF _ _ _ _ _ _ table.laws [OF s(2)]])
      (simp_all add: redis_registry_def shared_leases_def shared_wf_def fun_eq_iff map_prod_def split: prod.split)
qed

end
