(* ===== verification/Http.thy ===== *)
theory Http
  imports Session
begin

text \<open>
  \<open>norupo-server/src/http.rs\<close>: the headers that must not cross a hop, the rebuilding of header maps
  from protocol headers, HTML escaping and the error pages.

  A \<open>HeaderMap\<close> is the list of its (name, value) pairs, several pairs with one name for a repeated
  header; only the sequence of values of each name has a meaning. The parsers of the \<open>http\<close> crate are
  a parameter, the record \<open>http_lib\<close>, and the locale \<open>http_library\<close> states what the crate documents:
  a header name is a token, stored in lower case; a header value contains no control character
  other than a tab; a status code is a number from 100 to 999.
\<close>

section \<open>Model\<close>

type_synonym header_map = "(string \<times> bytes) list"

text \<open>One frame of an HTTP body.\<close>

datatype body_frame = DataFrame bytes | TrailersFrame header_map

record http_lib =
  header_name_try_from :: "string \<Rightarrow> string option"
  header_value_from_bytes :: "bytes \<Rightarrow> bytes option"
  header_value_to_str :: "bytes \<Rightarrow> string option"
  header_value_from_str :: "string \<Rightarrow> bytes option"
  status_from_u16 :: "nat \<Rightarrow> nat option"

definition get_all :: "string \<Rightarrow> header_map \<Rightarrow> bytes list" where
  "get_all name headers = map snd (filter (\<lambda>(n, v). n = name) headers)"

definition header_get :: "string \<Rightarrow> header_map \<Rightarrow> bytes option" where
  "header_get name headers = (case get_all name headers of [] \<Rightarrow> None | v # _ \<Rightarrow> Some v)"

definition contains_key :: "string \<Rightarrow> header_map \<Rightarrow> bool" where
  "contains_key name headers \<longleftrightarrow> name \<in> fst ` set headers"

definition header_append :: "string \<Rightarrow> bytes \<Rightarrow> header_map \<Rightarrow> header_map" where
  "header_append name value headers = headers @ [(name, value)]"

definition header_insert :: "string \<Rightarrow> bytes \<Rightarrow> header_map \<Rightarrow> header_map" where
  "header_insert name value headers = filter (\<lambda>(n, v). n \<noteq> name) headers @ [(name, value)]"

definition HOP_BY_HOP :: "string list" where
  "HOP_BY_HOP = [''connection'', ''keep-alive'', ''proxy-authenticate'', ''proxy-authorization'', ''te'',
     ''trailer'', ''transfer-encoding'', ''upgrade'']"

definition HOP_HEADER :: string where
  "HOP_HEADER = ''x-norupo-hop''"

text \<open>The names that the \<open>Connection\<close> headers nominate.\<close>

definition connection_listed :: "http_lib \<Rightarrow> header_map \<Rightarrow> string list" where
  "connection_listed lib headers =
     concat (map (\<lambda>value. case header_value_to_str lib value of
        Some text \<Rightarrow> map (\<lambda>t. to_ascii_lowercase (trim t)) (split_on (CHR '','') text)
      | None \<Rightarrow> []) (get_all ''connection'' headers))"

definition sanitize_headers :: "http_lib \<Rightarrow> header_map \<Rightarrow> header list" where
  "sanitize_headers lib headers =
     (let listed = connection_listed lib headers in
      map (\<lambda>(name, value). \<lparr>header_name = name, header_value = value\<rparr>)
        (filter (\<lambda>(name, _). let lower = to_ascii_lowercase name in
            lower \<notin> set HOP_BY_HOP \<and> lower \<notin> set listed) headers))"

fun add_headers :: "http_lib \<Rightarrow> header list \<Rightarrow> header_map \<Rightarrow> header_map" where
  "add_headers lib [] m = m"
| "add_headers lib (h # hs) m =
     (let lower = to_ascii_lowercase (header_name h) in
      if lower \<in> set HOP_BY_HOP then add_headers lib hs m
      else case (header_name_try_from lib (header_name h), header_value_from_bytes lib (header_value h)) of
        (Some name, Some value) \<Rightarrow> add_headers lib hs (header_append name value m)
      | _ \<Rightarrow> add_headers lib hs m)"

definition to_header_map :: "http_lib \<Rightarrow> header list \<Rightarrow> header_map" where
  "to_header_map lib headers = add_headers lib headers []"

text \<open>What a handler answers with: a body that is already there, or one that is still being produced:
  the body queue of a stream (the session's address, the stream's id and address), or the frames that a
  sibling node sends.\<close>

datatype response_body = FullBody bytes | StreamBody nat u64 nat | RelayedBody "(body_frame, string) result list"

record response =
  res_status :: nat
  res_headers :: header_map
  res_body :: response_body

definition full_body :: "bytes \<Rightarrow> response_body" where
  "full_body b = FullBody b"

fun escape_char :: "char \<Rightarrow> string" where
  "escape_char ch =
     (if ch = CHR ''&'' then ''&amp;''
      else if ch = CHR ''<'' then ''&lt;''
      else if ch = CHR ''>'' then ''&gt;''
      else if ch = CHR 0x22 then ''&quot;''
      else if ch = CHR 0x27 then ''&#x27;''
      else [ch])"

definition html_escape :: "string \<Rightarrow> string" where
  "html_escape raw = concat (map escape_char raw)"

definition page_style :: string where
  "page_style = ''<style>body{font:16px/1.6 system-ui,sans-serif;max-width:40rem;margin:6rem auto;padding:0 1.5rem;color:#1a1a1a}'' @
     ''h1{font-size:1.4rem;margin:0 0 .5rem}code{background:#f4f4f5;padding:.1rem .3rem;border-radius:.2rem}'' @
     ''footer{margin-top:2rem;color:#71717a;font-size:.85rem}</style>''"

definition error_body :: "nat \<Rightarrow> string \<Rightarrow> string \<Rightarrow> string" where
  "error_body code title detail =
     ''<!doctype html>'' @ [CHR 0x0A] @ ''<html><head><meta charset='' @ [CHR 0x22] @ ''utf-8'' @ [CHR 0x22] @ ''>'' @
     ''<title>'' @ show_nat code @ '' '' @ html_escape title @ ''</title>'' @ page_style @ ''</head>'' @
     ''<body><h1>'' @ show_nat code @ '' &middot; '' @ html_escape title @ ''</h1><p>'' @ detail @ ''</p>'' @
     ''<footer>norupo edge</footer></body></html>'' @ [CHR 0x0A]"

definition error_page :: "nat \<Rightarrow> string \<Rightarrow> string \<Rightarrow> response" where
  "error_page status title detail =
     \<lparr>res_status = status,
      res_headers = [(''content-type'', ''text/html; charset=utf-8''), (''cache-control'', ''no-store'')],
      res_body = full_body (error_body status title detail)\<rparr>"

section \<open>What the http crate promises\<close>

definition token_char :: "char \<Rightarrow> bool" where
  "token_char c \<longleftrightarrow> is_ascii_lowercase c \<or> is_ascii_uppercase c \<or> is_ascii_digit c \<or> c \<in> set ''!#$%&*+-.^_`|~'' \<or> c = CHR 0x27"

definition clean_value :: "bytes \<Rightarrow> bool" where
  "clean_value v \<longleftrightarrow> list_all (\<lambda>c. c = tab_char \<or> (32 \<le> byte c \<and> byte c \<noteq> 127)) v"

locale http_library =
  fixes lib :: http_lib
  assumes name_law: "header_name_try_from lib n = Some m \<Longrightarrow> m = to_ascii_lowercase n \<and> n \<noteq> [] \<and> list_all token_char n"
    and value_law: "header_value_from_bytes lib v = Some w \<Longrightarrow> w = v \<and> clean_value v"
    and to_str_law: "header_value_to_str lib v = Some t \<Longrightarrow> t = v"
    and from_str_law: "header_value_from_str lib t = Some w \<Longrightarrow> w = t \<and> clean_value t"
    and status_law: "status_from_u16 lib code = (if 100 \<le> code \<and> code \<le> 999 then Some code else None)"

definition ref_http :: http_lib where
  "ref_http = \<lparr>header_name_try_from = (\<lambda>n. if n \<noteq> [] \<and> list_all token_char n then Some (to_ascii_lowercase n) else None),
     header_value_from_bytes = (\<lambda>v. if clean_value v then Some v else None),
     header_value_to_str = (\<lambda>v. if list_all (\<lambda>c. c = tab_char \<or> (32 \<le> byte c \<and> byte c < 127)) v then Some v else None),
     header_value_from_str = (\<lambda>v. if clean_value v then Some v else None),
     status_from_u16 = (\<lambda>n. if 100 \<le> n \<and> n \<le> 999 then Some n else None)\<rparr>"

interpretation ref_http: http_library ref_http
  by unfold_locales (auto simp: ref_http_def split: if_splits)

section \<open>Escaping\<close>

lemma html_escape_Nil [simp]: "html_escape [] = []"
  by (simp add: html_escape_def)

lemma html_escape_Cons: "html_escape (c # cs) = escape_char c @ html_escape cs"
  by (simp add: html_escape_def)

definition markup :: "char set" where
  "markup = {CHR ''<'', CHR ''>'', CHR 0x22, CHR 0x27}"

lemma escape_char_markup: "set (escape_char c) \<inter> markup = {}"
  by (auto simp: markup_def)

lemma html_escape_markup: "set (html_escape raw) \<inter> markup = {}"
  using escape_char_markup by (induction raw) (auto simp del: escape_char.simps simp: html_escape_Cons)

text \<open>No escape is a prefix of another, so escaped text reads back in one way only.\<close>

lemma escape_char_prefix_free:
  "escape_char c @ xs = escape_char d @ ys \<Longrightarrow> c = d \<and> xs = ys"
  by (auto split: if_splits)

lemma html_escape_inject: "html_escape x = html_escape y \<Longrightarrow> x = y"
proof (induction x arbitrary: y)
  case Nil
  then show ?case by (cases y) (auto simp: html_escape_Cons split: if_splits)
next
  case (Cons c x)
  then obtain d y' where y: "y = d # y'" by (cases y) (auto simp: html_escape_Cons split: if_splits)
  with Cons have "c = d" "html_escape x = html_escape y'"
    using escape_char_prefix_free [of c "html_escape x" d "html_escape y'"] by (simp_all add: html_escape_Cons)
  with Cons y show ?case by blast
qed

section \<open>Bodies\<close>

text \<open>The data frames of a body, without the empty ones, and the chunks they are cut into.\<close>

definition body_data :: "(body_frame, string) result list \<Rightarrow> bytes list" where
  "body_data frames = [d. Ok (DataFrame d) \<leftarrow> frames, d \<noteq> []]"

definition upload_chunks :: "(body_frame, string) result list \<Rightarrow> bytes list" where
  "upload_chunks frames = concat (map split_chunks (body_data frames))"

lemma body_data_simps [simp]:
  "body_data [] = []" "body_data (Ok (TrailersFrame hs) # frames) = body_data frames"
  "body_data (Ok (DataFrame d) # frames) = (if d = [] then body_data frames else d # body_data frames)"
  by (simp_all add: body_data_def)

lemma upload_chunks_simps [simp]:
  "upload_chunks [] = []" "upload_chunks (Ok (TrailersFrame hs) # frames) = upload_chunks frames"
  "upload_chunks (Ok (DataFrame d) # frames) = (if d = [] then upload_chunks frames else split_chunks d @ upload_chunks frames)"
  by (simp_all add: upload_chunks_def)

lemma concat_upload_chunks: "concat (upload_chunks frames) = concat (body_data frames)"
proof -
  have "concat (concat (map split_chunks ds)) = concat ds" for ds
    by (induction ds) (simp_all add: split_chunks_loop concat_split_loop)
  then show ?thesis by (simp add: upload_chunks_def)
qed

section \<open>Header maps\<close>

lemma get_all_append [simp]: "get_all n (xs @ ys) = get_all n xs @ get_all n ys"
  by (simp add: get_all_def)

lemma get_all_insert: "get_all n (header_insert m v hs) = (if n = m then [v] else get_all n hs)"
  by (induction hs) (auto simp: get_all_def header_insert_def)

text \<open>The headers of a list that survive, as (name, value) pairs.\<close>

definition kept_headers :: "http_lib \<Rightarrow> header list \<Rightarrow> header_map" where
  "kept_headers lib hs = List.map_filter (\<lambda>h.
     if to_ascii_lowercase (header_name h) \<in> set HOP_BY_HOP then None
     else case (header_name_try_from lib (header_name h), header_value_from_bytes lib (header_value h)) of
       (Some n, Some v) \<Rightarrow> Some (n, v) | _ \<Rightarrow> None) hs"

lemma add_headers_kept: "add_headers lib hs m = m @ kept_headers lib hs"
  by (induction lib hs m rule: add_headers.induct)
    (auto simp: kept_headers_def List.map_filter_simps header_append_def Let_def split: option.splits)

lemma to_header_map_kept: "to_header_map lib hs = kept_headers lib hs"
  by (simp add: to_header_map_def add_headers_kept)

context http_library
begin

lemma kept_header:
  assumes "(n, v) \<in> set (to_header_map lib hs)"
  shows "\<exists>h \<in> set hs. n = to_ascii_lowercase (header_name h) \<and> v = header_value h \<and> clean_value v \<and>
    n \<notin> set HOP_BY_HOP \<and> list_all token_char (header_name h)"
  using assms name_law value_law
  unfolding to_header_map_kept kept_headers_def
  by (fastforce simp: List.map_filter_def split: option.splits if_splits)

text \<open>The values of a name are those of all its well-formed occurrences, in order.\<close>

lemma get_all_to_header_map:
  assumes "n \<notin> set HOP_BY_HOP"
  shows "get_all n (to_header_map lib hs) = map header_value (filter (\<lambda>h. to_ascii_lowercase (header_name h) = n \<and>
    header_name_try_from lib (header_name h) \<noteq> None \<and> header_value_from_bytes lib (header_value h) \<noteq> None) hs)"
  unfolding to_header_map_kept
proof (induction hs)
  case Nil
  then show ?case by (simp add: kept_headers_def get_all_def List.map_filter_simps)
next
  case (Cons h hs)
  show ?case
  proof (cases "header_name_try_from lib (header_name h)"; cases "header_value_from_bytes lib (header_value h)")
    fix m v
    assume "header_name_try_from lib (header_name h) = Some m" "header_value_from_bytes lib (header_value h) = Some v"
    moreover from this have "m = to_ascii_lowercase (header_name h)" "v = header_value h"
      using name_law value_law by auto
    ultimately show ?thesis
      using Cons assms by (auto simp: kept_headers_def get_all_def List.map_filter_simps)
  qed (use Cons assms in \<open>auto simp: kept_headers_def get_all_def List.map_filter_simps\<close>)
qed

end

lemma clean_value_lines: "clean_value v \<Longrightarrow> CHR 0x0A \<notin> set v \<and> CHR 0x0D \<notin> set v"
  by (induction v) (auto simp: clean_value_def byte_def)

section \<open>A head on the wire\<close>

text \<open>The header lines of an HTTP/1.1 head, and a reader of such a head that is as lenient as readers are: a line ends at a line feed, with
  or without a carriage return, the first empty line ends the head, and what is left is the body.\<close>

definition render_header :: "string \<times> bytes \<Rightarrow> bytes" where
  "render_header h = fst h @ '': '' @ snd h @ [CHR 0x0D, CHR 0x0A]"

definition render_head :: "header_map \<Rightarrow> bytes" where
  "render_head headers = concat (map render_header headers) @ [CHR 0x0D, CHR 0x0A]"

definition strip_cr :: "bytes \<Rightarrow> bytes" where
  "strip_cr line = (if line \<noteq> [] \<and> last line = CHR 0x0D then butlast line else line)"

definition read_header :: "bytes \<Rightarrow> string \<times> bytes" where
  "read_header line = (takeWhile (\<lambda>c. c \<noteq> CHR '':'') line, drop 2 (dropWhile (\<lambda>c. c \<noteq> CHR '':'') line))"

function read_head :: "bytes \<Rightarrow> (header_map \<times> bytes) option" where
  "read_head raw = (case dropWhile (\<lambda>c. c \<noteq> CHR 0x0A) raw of
     [] \<Rightarrow> None
   | _ # rest \<Rightarrow>
       let line = strip_cr (takeWhile (\<lambda>c. c \<noteq> CHR 0x0A) raw) in
       if line = [] then Some ([], rest)
       else map_option (\<lambda>(headers, content). (read_header line # headers, content)) (read_head rest))"
  by pat_completeness auto
termination
proof (relation "measure length")
  fix raw x and rest :: bytes
  assume "dropWhile (\<lambda>c. c \<noteq> CHR 0x0A) raw = x # rest"
  then have "length (x # rest) \<le> length raw" using length_dropWhile_le [of "\<lambda>c. c \<noteq> CHR 0x0A" raw] by metis
  then show "(rest, raw) \<in> measure length" by simp
qed simp

declare read_head.simps [simp del]

lemma read_head_line:
  assumes "CHR 0x0A \<notin> set line"
  shows "read_head (line @ [CHR 0x0D, CHR 0x0A] @ rest) =
    (if line = [] then Some ([], rest)
     else map_option (\<lambda>(headers, content). (read_header line # headers, content)) (read_head rest))"
proof -
  have "takeWhile (\<lambda>c. c \<noteq> CHR 0x0A) (line @ [CHR 0x0D, CHR 0x0A] @ rest) = line @ [CHR 0x0D]"
    "dropWhile (\<lambda>c. c \<noteq> CHR 0x0A) (line @ [CHR 0x0D, CHR 0x0A] @ rest) = CHR 0x0A # rest"
    using assms by (auto simp: takeWhile_append dropWhile_append)
  then show ?thesis unfolding read_head.simps [of "line @ _ @ rest"] by (simp add: strip_cr_def Let_def)
qed

text \<open>Headers whose names have no colon and that have no line feed are read back as they are, and the body begins where it should.\<close>

definition plain_header :: "string \<times> bytes \<Rightarrow> bool" where
  "plain_header h \<longleftrightarrow> CHR '':'' \<notin> set (fst h) \<and> CHR 0x0A \<notin> set (fst h) \<and> CHR 0x0A \<notin> set (snd h)"

lemma read_render_head:
  assumes "\<forall>h \<in> set headers. plain_header h"
  shows "read_head (render_head headers @ content) = Some (headers, content)"
  using assms
proof (induction headers)
  case Nil
  then show ?case using read_head_line [of "[]" content] by (simp add: render_head_def)
next
  case (Cons h headers)
  obtain n v where h: "h = (n, v)" by force
  have colon: "takeWhile (\<lambda>c. c \<noteq> CHR '':'') (n @ '': '' @ v) = n" "dropWhile (\<lambda>c. c \<noteq> CHR '':'') (n @ '': '' @ v) = '': '' @ v"
    using Cons.prems by (auto simp: h plain_header_def takeWhile_append dropWhile_append)
  have "render_head (h # headers) @ content = (n @ '': '' @ v) @ [CHR 0x0D, CHR 0x0A] @ render_head headers @ content"
    by (simp add: render_head_def render_header_def h)
  moreover have "CHR 0x0A \<notin> set (n @ '': '' @ v)" using Cons.prems by (simp add: h plain_header_def)
  moreover have "read_header (n @ '': '' @ v) = (n, v)" unfolding read_header_def colon by simp
  ultimately show ?case using Cons read_head_line [of "n @ '': '' @ v" "render_head headers @ content"] by (simp add: h)
qed

lemma plain_kept_header:
  assumes "list_all token_char name" "clean_value v"
  shows "plain_header (to_ascii_lowercase name, v)"
proof -
  have "c \<noteq> CHR '':'' \<and> c \<noteq> CHR 0x0A" if "token_char c" for c
    using that by (auto simp: token_char_def is_ascii_lowercase_def is_ascii_uppercase_def is_ascii_digit_def byte_def)
  moreover have "lower_char c = CHR '':'' \<longrightarrow> c = CHR '':''" "lower_char c = CHR 0x0A \<longrightarrow> c = CHR 0x0A" for c
    by (auto simp: lower_char_def is_ascii_uppercase_def byte_def dest!: arg_cong [of _ _ "of_char :: char \<Rightarrow> nat"])
  ultimately show ?thesis
    using assms clean_value_lines by (fastforce simp: plain_header_def to_ascii_lowercase_def list_all_iff)
qed

section \<open>Properties\<close>

text \<open>Escaping for error pages: the escaped text contains no angle bracket and no quote, so it cannot
  open a tag or leave an attribute, and nothing is lost: different texts have different escapes.\<close>

lemma html_escape_safe:
  "CHR ''<'' \<notin> set (html_escape raw) \<and> CHR ''>'' \<notin> set (html_escape raw) \<and> CHR 0x22 \<notin> set (html_escape raw) \<and>
   CHR 0x27 \<notin> set (html_escape raw) \<and> inj html_escape"
  using html_escape_markup [of raw] html_escape_inject by (auto simp: markup_def intro: injI)

end
