(* ===== verification/Peer.thy ===== *)
theory Peer
  imports State Http
begin

text \<open>
  Requests, and \<open>norupo-server/src/peer.rs\<close>: handing a request to the node that owns the tunnel.

  A request is what \<open>hyper\<close> hands to the handler: the parsed parts and what its body delivers, frame by
  frame. The HTTP client and the URI parser are parameters of the hand-off: \<open>pc_parse_uri\<close>, and
  \<open>pc_request\<close>, what the sibling has answered to a request by a given time, None while it has not.
\<close>

section \<open>Requests\<close>

record uri =
  uri_authority :: "string option"
  uri_path :: string
  uri_path_and_query :: "string option"

record request =
  req_method :: string
  req_uri :: uri
  req_version :: string
  req_headers :: header_map
  req_body :: "(body_frame, string) result list"

section \<open>The peer client\<close>

text \<open>A sibling's answer: status, headers and what its body delivers, frame by frame.\<close>

type_synonym peer_answer = "nat \<times> header_map \<times> (body_frame, string) result list"

record peer_client =
  pc_node_id :: string
  pc_parse_uri :: "string \<Rightarrow> (uri, string) result"
  pc_request :: "nat \<Rightarrow> request \<Rightarrow> (peer_answer, string) result option"

text \<open>Building the client: the library is told the time to connect, the socket option and the size and age of the pool.\<close>

record client_options =
  co_connect_timeout :: nat
  co_nodelay :: bool
  co_pool_idle_timeout :: nat
  co_pool_max_idle_per_host :: nat

definition peer_client_new ::
    "(string \<Rightarrow> (uri, string) result) \<Rightarrow> (client_options \<Rightarrow> nat \<Rightarrow> request \<Rightarrow> (peer_answer, string) result option) \<Rightarrow>
     string \<Rightarrow> peer_client" where
  "peer_client_new parse_uri build node_id =
     \<lparr>pc_node_id = node_id, pc_parse_uri = parse_uri,
      pc_request = build \<lparr>co_connect_timeout = 2 * 1000, co_nodelay = True, co_pool_idle_timeout = 30 * 1000,
        co_pool_max_idle_per_host = 32\<rparr>\<rparr>"

definition path_and_query :: "request \<Rightarrow> string" where
  "path_and_query req = (case uri_path_and_query (req_uri req) of Some pq \<Rightarrow> pq | None \<Rightarrow> ''/'')"

definition hop_value :: "http_lib \<Rightarrow> peer_client \<Rightarrow> bytes" where
  "hop_value lib P = (case header_value_from_str lib (pc_node_id P) of Some v \<Rightarrow> v | None \<Rightarrow> ''unknown'')"

definition peer_target :: "route_record \<Rightarrow> request \<Rightarrow> string" where
  "peer_target record req = ''http://'' @ rr_node_addr record @ path_and_query req"

definition upstream_request :: "http_lib \<Rightarrow> peer_client \<Rightarrow> uri \<Rightarrow> request \<Rightarrow> request" where
  "upstream_request lib P target req =
     req\<lparr>req_uri := target, req_headers := header_insert HOP_HEADER (hop_value lib P) (req_headers req)\<rparr>"

definition peer_forward ::
    "http_lib \<Rightarrow> peer_client \<Rightarrow> route_record \<Rightarrow> request \<Rightarrow> (('m, 'qo, 'qb, 'o, 'r) server, response) task" where
  "peer_forward lib P record req =
     (case pc_parse_uri P (peer_target record req) of
        Err e \<Rightarrow> Return (error_page 502 ''Bad peer address''
          ''The routing table names an edge node the cluster cannot address.'')
      | Ok target \<Rightarrow>
          call (await (\<lambda>w. map_option (Pair w) (pc_request P (clock w) (upstream_request lib P target req)))) (\<lambda>answer.
          case answer of
            Ok (status, headers, frames) \<Rightarrow>
              Return \<lparr>res_status = status, res_headers = headers, res_body = RelayedBody frames\<rparr>
          | Err e \<Rightarrow> Return (error_page 502 ''Edge node unreachable''
              ''The edge node holding this tunnel did not answer. It may have just restarted; retry shortly.'')))"

text \<open>A request that has been handed over carries the mark of the hop, whatever the public client had put
  there.\<close>

lemma upstream_marked [simp]:
  "get_all HOP_HEADER (req_headers (upstream_request lib P target req)) = [hop_value lib P]"
  by (simp add: upstream_request_def get_all_insert)

lemma contains_key_insert [simp]: "contains_key name (header_insert name v hs)"
  by (simp add: contains_key_def header_insert_def)

end
