(* ===== verification/Ids.thy ===== *)
theory Ids
  imports Registry
begin

text \<open>
  \<open>norupo-core/src/ids.rs\<close>: prefixed random identifiers. The draws of the random generator are an
  argument: sixteen indices into the alphabet.
\<close>

section \<open>Model\<close>

definition ID_ALPHABET :: string where
  "ID_ALPHABET = ''0123456789abcdefghijklmnopqrstuvwxyz''"

definition RANDOM_LEN :: nat where
  "RANDOM_LEN = 16"

definition random_suffix :: "nat list \<Rightarrow> string" where
  "random_suffix draws = map (\<lambda>i. ID_ALPHABET ! i) (take RANDOM_LEN draws)"

definition new_session_id :: "nat list \<Rightarrow> string" where
  "new_session_id draws = ''sess_'' @ random_suffix draws"

definition new_tunnel_id :: "nat list \<Rightarrow> string" where
  "new_tunnel_id draws = ''tun_'' @ random_suffix draws"

definition new_node_id :: "nat list \<Rightarrow> string" where
  "new_node_id draws = ''node_'' @ random_suffix draws"

text \<open>What \<open>random_range(0..ALPHABET.len())\<close> can return, sixteen times.\<close>

definition id_draws :: "nat list \<Rightarrow> bool" where
  "id_draws draws \<longleftrightarrow> length draws = RANDOM_LEN \<and> list_all (\<lambda>i. i < length ID_ALPHABET) draws"

section \<open>Lemmas\<close>

lemma id_alphabet_chars: "c \<in> set ID_ALPHABET \<Longrightarrow> is_ascii_digit c \<or> is_ascii_lowercase c"
  unfolding ID_ALPHABET_def by (auto simp: is_ascii_digit_def is_ascii_lowercase_def byte_def)

lemma distinct_id_alphabet: "distinct ID_ALPHABET"
  by (simp add: ID_ALPHABET_def)

lemma random_suffix_chars: "id_draws draws \<Longrightarrow> c \<in> set (random_suffix draws) \<Longrightarrow> is_ascii_digit c \<or> is_ascii_lowercase c"
  using id_alphabet_chars [of c] nth_mem [of _ ID_ALPHABET]
  by (auto simp: random_suffix_def id_draws_def list_all_iff)

lemma random_suffix_inject:
  assumes "id_draws d" "id_draws e" "random_suffix d = random_suffix e"
  shows "d = e"
proof (rule nth_equalityI)
  show "length d = length e" using assms by (simp add: id_draws_def)
  fix i assume i: "i < length d"
  then have "ID_ALPHABET ! (d ! i) = ID_ALPHABET ! (e ! i)"
    using assms by (metis id_draws_def length_map nth_map random_suffix_def take_all_iff order_refl)
  then show "d ! i = e ! i"
    using i assms distinct_id_alphabet by (simp add: id_draws_def list_all_length nth_eq_iff_index_eq)
qed

lemma tab_not_in_suffix: "id_draws draws \<Longrightarrow> tab_char \<notin> set (random_suffix draws)"
  using random_suffix_chars [of draws tab_char] by (auto simp: is_ascii_digit_def is_ascii_lowercase_def byte_def)

section \<open>Properties\<close>

text \<open>Generated identifiers: different draws give different identifiers of a kind, the three kinds
  never collide, and an identifier is made of lower-case letters, digits and an underscore only, so
  it is URL-safe and fits a field of the routing table's record.\<close>

lemma ids_distinct_and_url_safe:
  assumes "id_draws d" "id_draws e"
  shows "(new_session_id d = new_session_id e \<longleftrightarrow> d = e) \<and> (new_tunnel_id d = new_tunnel_id e \<longleftrightarrow> d = e) \<and>
    (new_node_id d = new_node_id e \<longleftrightarrow> d = e) \<and>
    new_session_id d \<noteq> new_tunnel_id e \<and> new_session_id d \<noteq> new_node_id e \<and> new_tunnel_id d \<noteq> new_node_id e \<and>
    list_all (\<lambda>c. is_ascii_digit c \<or> is_ascii_lowercase c \<or> c = CHR ''_'') (new_session_id d @ new_tunnel_id d @ new_node_id d)"
  using random_suffix_inject [OF assms] random_suffix_chars [OF assms(1)]
  by (auto simp: new_session_id_def new_tunnel_id_def new_node_id_def list_all_iff)
    (auto simp: is_ascii_lowercase_def byte_def)

lemma ids_distinct_and_url_safe_witness:
  "new_session_id (replicate 16 0) \<noteq> new_session_id (replicate 16 1) \<and>
   new_session_id (replicate 16 0) \<noteq> new_tunnel_id (replicate 16 1)"
proof -
  have "id_draws (replicate 16 0)" "id_draws (replicate 16 1)"
    by (simp_all add: id_draws_def RANDOM_LEN_def ID_ALPHABET_def list_all_iff)
  from ids_distinct_and_url_safe [OF this] show ?thesis by simp
qed

end
