(* ===== verification/Control.thy ===== *)
theory Control
  imports State Ids Routing
begin

text \<open>
  \<open>norupo-server/src/control.rs\<close>: the control plane. One RPC per agent: the handshake, the read loop with
  tunnel registration and the dispatch of stream frames, the heartbeat that renews the routes, and
  the teardown. Random draws, nonces and wall-clock readings are arguments; an agent's frames are the
  list of what its connection delivers before it ends.
\<close>

section \<open>Model\<close>

record entropy =
  subdomain_draws :: "nat list"
  tunnel_draws :: "nat list"

text \<open>The time stamp of a frame: an \<open>i64\<close> that stays at its ends when the clock is before the epoch or beyond the type.\<close>

definition now_ms :: "wall_clock \<Rightarrow> int" where
  "now_ms t = (if t < 0 then 0 else if t < 2 ^ 63 then t else 2 ^ 63 - 1)"

definition resolve_http_target ::
    "server_config \<Rightarrow> principal \<Rightarrow> nat list \<Rightarrow> http_tunnel_spec \<Rightarrow> (routing_key \<times> string, error) result" where
  "resolve_http_target cfg p draws spec =
     bind_result
       (if hs_custom_domain spec \<noteq> [] then
          bind_result (normalize_host (hs_custom_domain spec)) (\<lambda>domain.
            if \<not> may_use_custom_domain p domain
            then Err (Unauthorized (''custom domain `'' @ domain @ ''` is not verified for this account''))
            else Ok domain)
        else if hs_subdomain spec = [] then public_host (random_subdomain draws) (base_domain cfg)
        else
          bind_result (validate_subdomain_syntax (hs_subdomain spec)) (\<lambda>label.
            if is_reserved_subdomain label \<and> \<not> may_claim_subdomain p label
            then Err (Unauthorized (''subdomain `'' @ label @ ''` is reserved''))
            else public_host label (base_domain cfg)))
       (\<lambda>host. Ok (Host host, public_url cfg host))"

definition resolve_tcp_target :: "server_config \<Rightarrow> tcp_tunnel_spec \<Rightarrow> (routing_key \<times> string, error) result" where
  "resolve_tcp_target cfg spec =
     (if 65536 \<le> unat (ts_remote_port spec)
      then Err (InvalidRoute (''port '' @ show_nat (unat (ts_remote_port spec)) @ '' is out of range''))
      else let port = ucast (ts_remote_port spec) in
        if port = 0
        then Err (InvalidRoute ''automatic TCP port assignment is not implemented yet; pass --remote-port'')
        else Ok (TcpPort port, ''tcp://'' @ base_domain cfg @ '':'' @ show_nat (unat port)))"

definition resolve_target ::
    "server_config \<Rightarrow> principal \<Rightarrow> nat list \<Rightarrow> tunnel_spec option \<Rightarrow> (routing_key \<times> string, string) result" where
  "resolve_target cfg p draws spec = (case spec of
     Some (HttpSpec h) \<Rightarrow> map_err error_to_string (resolve_http_target cfg p draws h)
   | Some (TcpSpec t) \<Rightarrow> map_err error_to_string (resolve_tcp_target cfg t)
   | None \<Rightarrow> Err ''OpenTunnel is missing a spec'')"

definition new_route ::
    "('m, 'qo, 'qb, 'o, 'r) server \<Rightarrow> nat \<Rightarrow> routing_key \<Rightarrow> string \<Rightarrow> route_record" where
  "new_route w a key tid =
     \<lparr>rr_key = as_storage_key key, rr_node_id = app_node_id w, rr_node_addr = app_node_addr w,
      rr_session = session_id (session_at a w), rr_tunnel = tid,
      rr_account = account_id (session_principal (session_at a w))\<rparr>"

definition reject :: "string \<Rightarrow> string \<Rightarrow> tunnel_status" where
  "reject request_id err =
     \<lparr>st_request_id = request_id, st_tunnel_id = [], st_accepted = False, st_error = err, st_public_url = [],
      st_routing_key = []\<rparr>"

definition register_tunnel ::
    "'r registry_ops \<Rightarrow> nat \<Rightarrow> entropy \<Rightarrow> open_tunnel \<Rightarrow> (('m, 'qo, 'qb, 'o, 'r) server, tunnel_status) task" where
  "register_tunnel G a ent req =
     call (read (\<lambda>w. (session_principal (session_at a w), session_tunnel_count (session_at a w), w))) (\<lambda>(p, count, st).
     let limit = max_tunnels (principal_limits p) in
     if 0 < limit \<and> unat limit \<le> count
     then Return (reject (ot_request_id req)
            (''account is limited to '' @ show_nat (unat limit) @ '' concurrent tunnels''))
     else case resolve_target (app_config st) p (subdomain_draws ent) (ot_spec req) of
         Err e \<Rightarrow> Return (reject (ot_request_id req) e)
       | Ok (key, url) \<Rightarrow>
           let tid = new_tunnel_id (tunnel_draws ent);
               record = new_route st a key tid in
           call (registry_claim G record (route_ttl (app_config st))) (\<lambda>res. case res of
             Ok Acquired \<Rightarrow>
               call (on_session a (update (insert_tunnel \<lparr>tunnel_id = tid, tunnel_routing_key = rr_key record,
                       tunnel_public_url = url\<rparr>))) (\<lambda>_.
               Return \<lparr>st_request_id = ot_request_id req, st_tunnel_id = tid, st_accepted = True, st_error = [],
                       st_public_url = url, st_routing_key = rr_key record\<rparr>)
           | Ok (Taken owner) \<Rightarrow>
               Return (reject (ot_request_id req) (error_to_string (RouteTaken (rr_key record @ '' (held by session '' @
                 rr_session owner @ '' on node '' @ rr_node_id owner @ '')''))))
           | Err e \<Rightarrow> Return (reject (ot_request_id req) (error_to_string e))))"

definition handle_client_frame ::
    "('m, 'qo, 'qb, 'o) runtime \<Rightarrow> 'r registry_ops \<Rightarrow> nat \<Rightarrow> entropy \<Rightarrow> client_frame \<Rightarrow>
     (('m, 'qo, 'qb, 'o, 'r) server, unit) task" where
  "handle_client_frame R G a ent frame =
     (case frame of
        None \<Rightarrow> Return ()
      | Some (CHello _) \<Rightarrow> Return ()
      | Some (COpenTunnel req) \<Rightarrow>
          call (register_tunnel G a ent req) (\<lambda>status.
          call (on_session a (session_send R (Some (STunnelStatus status)))) (\<lambda>_. Return ()))
      | Some (CCloseTunnel tid) \<Rightarrow>
          call (on_session a (atomically (remove_tunnel tid))) (\<lambda>removed. case removed of
            None \<Rightarrow> Return ()
          | Some t \<Rightarrow>
              call (read (\<lambda>w. session_id (session_at a w))) (\<lambda>sid.
              call (registry_release G (tunnel_routing_key t) sid) (\<lambda>_. Return ())))
      | Some (CResponseHead head) \<Rightarrow> on_session a (on_response_head R head)
      | Some (CData data) \<Rightarrow>
          call (on_session a (on_stream_data R (sd_stream_id data) (sd_payload data))) (\<lambda>accepted.
          if 0 < accepted
          then call (on_session a (grant_window R (sd_stream_id data) (u32_saturating accepted))) (\<lambda>_. Return ())
          else Return ())
      | Some (CEnd end') \<Rightarrow> on_session a (on_stream_end R (se_stream_id end') (se_trailers end'))
      | Some (CReset reset) \<Rightarrow>
          on_session a (on_stream_reset R (sr_stream_id reset)
            (case reset_code_try_from (sr_code reset) of Some c \<Rightarrow> c | None \<Rightarrow> ResetUnspecified) (sr_message reset))
      | Some (CWindowUpdate upd) \<Rightarrow> on_session a (on_window_update R (wu_stream_id upd) (wu_increment upd))
      | Some (CPong _) \<Rightarrow> Return ())"

definition teardown ::
    "('m, 'qo, 'qb, 'o) runtime \<Rightarrow> 'r registry_ops \<Rightarrow> ((string \<rightharpoonup> tunnel) \<Rightarrow> string list) \<Rightarrow> ((u64 \<rightharpoonup> nat) \<Rightarrow> u64 list) \<Rightarrow>
     nat \<Rightarrow> (('m, 'qo, 'qb, 'o, 'r) server, unit) task" where
  "teardown R G tkeys skeys a =
     call (read (\<lambda>w. (session_tunnels tkeys (session_at a w), session_id (session_at a w)))) (\<lambda>(ts, sid).
     call (for_each (\<lambda>t. call (registry_release G (tunnel_routing_key t) sid) (\<lambda>_. Return ())) ts) (\<lambda>_.
     call (on_session a (close_all_streams R skeys)) (\<lambda>_.
       update (\<lambda>w. w\<lparr>app_sessions := fst (manager_remove sid (app_sessions w))\<rparr>))))"

definition notify_tunnel_lost ::
    "('m, 'qo, 'qb, 'o) runtime \<Rightarrow> nat \<Rightarrow> tunnel \<Rightarrow> (('m, 'qo, 'qb, 'o, 'r) server, bool) task" where
  "notify_tunnel_lost R a t =
     on_session a (session_send R (Some (STunnelStatus \<lparr>st_request_id = [], st_tunnel_id = tunnel_id t,
       st_accepted = False, st_error = ''routing claim lost; reconnect to re-register'',
       st_public_url = tunnel_public_url t, st_routing_key = tunnel_routing_key t\<rparr>)))"

abbreviation (input) beat_cancelled :: "nat \<Rightarrow> ('m, 'qo, 'qb, 'o, 'r) server \<Rightarrow> bool" where
  "beat_cancelled a w \<equiv> heartbeat_aborted w a"

definition renew_tunnel ::
    "('m, 'qo, 'qb, 'o) runtime \<Rightarrow> 'r registry_ops \<Rightarrow> nat \<Rightarrow> string \<Rightarrow> nat \<Rightarrow> tunnel \<Rightarrow>
     (('m, 'qo, 'qb, 'o, 'r) server, unit) task" where
  "renew_tunnel R G a sid ttl t =
     call (cancellable (beat_cancelled a) (registry_renew G (tunnel_routing_key t) sid ttl)) (\<lambda>res. case res of
       Ok True \<Rightarrow> Return ()
     | Ok False \<Rightarrow>
         call (on_session a (atomically (remove_tunnel (tunnel_id t)))) (\<lambda>_.
         call (cancellable (beat_cancelled a) (notify_tunnel_lost R a t)) (\<lambda>_. Return ()))
     | Err e \<Rightarrow> Return ())"

definition beat_ping :: "u64 \<times> wall_clock \<Rightarrow> ping" where
  "beat_ping p = (case p of (nonce, t) \<Rightarrow> \<lparr>ping_nonce = nonce, ping_server_time_ms = now_ms t\<rparr>)"

definition beat ::
    "('m, 'qo, 'qb, 'o) runtime \<Rightarrow> 'r registry_ops \<Rightarrow> ((string \<rightharpoonup> tunnel) \<Rightarrow> string list) \<Rightarrow> nat \<Rightarrow> nat \<Rightarrow> u64 \<times> wall_clock \<Rightarrow>
     (('m, 'qo, 'qb, 'o, 'r) server, bool) task" where
  "beat R G tkeys a ttl p =
     call (cancellable (beat_cancelled a) (on_session a (session_send R (Some (SPing (beat_ping p)))))) (\<lambda>sent.
     if \<not> sent then Return False else
     call (read (\<lambda>w. (session_tunnels tkeys (session_at a w), session_id (session_at a w)))) (\<lambda>(ts, sid).
     call (for_each (renew_tunnel R G a sid ttl) ts) (\<lambda>_. Return True)))"

text \<open>The heartbeat loop, for as many beats as there are nonces and clock readings in the list: the ticker fires once the
  interval since its last tick is over.\<close>

definition tick :: "nat \<Rightarrow> nat \<Rightarrow> (('m, 'qo, 'qb, 'o, 'r) server, nat) task" where
  "tick a due = cancellable (beat_cancelled a) (await (\<lambda>w. if due \<le> clock w then Some (w, clock w) else None))"

primrec heartbeat_loop ::
    "('m, 'qo, 'qb, 'o) runtime \<Rightarrow> 'r registry_ops \<Rightarrow> ((string \<rightharpoonup> tunnel) \<Rightarrow> string list) \<Rightarrow> nat \<Rightarrow> nat \<Rightarrow> nat \<Rightarrow> nat \<Rightarrow>
     (u64 \<times> wall_clock) list \<Rightarrow> (('m, 'qo, 'qb, 'o, 'r) server, unit) task" where
  "heartbeat_loop R G tkeys a interval ttl due [] = Halt"
| "heartbeat_loop R G tkeys a interval ttl due (p # ps) =
     call (tick a due) (\<lambda>now.
     call (beat R G tkeys a ttl p) (\<lambda>more.
     if more then heartbeat_loop R G tkeys a interval ttl (now + interval) ps else Return ()))"

definition heartbeat_task ::
    "('m, 'qo, 'qb, 'o) runtime \<Rightarrow> 'r registry_ops \<Rightarrow> ((string \<rightharpoonup> tunnel) \<Rightarrow> string list) \<Rightarrow> nat \<Rightarrow> (u64 \<times> wall_clock) list \<Rightarrow>
     (('m, 'qo, 'qb, 'o, 'r) server, unit) task" where
  "heartbeat_task R G tkeys a ps =
     call (read (\<lambda>w. (heartbeat (app_config w), route_ttl (app_config w), clock w))) (\<lambda>(interval, ttl, start).
     if interval = 0 then Panic ''`period` must be non-zero.'' else
     call (tick a start) (\<lambda>now. heartbeat_loop R G tkeys a interval ttl (now + interval) ps))"

type_synonym inbound = "((client_frame, status) result \<times> entropy) list"

primrec read_loop ::
    "('m, 'qo, 'qb, 'o) runtime \<Rightarrow> 'r registry_ops \<Rightarrow> nat \<Rightarrow> inbound \<Rightarrow> (('m, 'qo, 'qb, 'o, 'r) server, unit) task" where
  "read_loop R G a [] = Return ()"
| "read_loop R G a (item # inbound) =
     (case item of
        (Ok frame, ent) \<Rightarrow> call (handle_client_frame R G a ent frame) (\<lambda>_. read_loop R G a inbound)
      | (Err status, _) \<Rightarrow> Return ())"

definition run_session ::
    "('m, 'qo, 'qb, 'o) runtime \<Rightarrow> 'r registry_ops \<Rightarrow> ((string \<rightharpoonup> tunnel) \<Rightarrow> string list) \<Rightarrow> ((u64 \<rightharpoonup> nat) \<Rightarrow> u64 list) \<Rightarrow>
     nat \<Rightarrow> (u64 \<times> wall_clock) list \<Rightarrow> inbound \<Rightarrow> (('m, 'qo, 'qb, 'o, 'r) server, unit) task" where
  "run_session R G tkeys skeys a ps inbound =
     spawn (heartbeat_task R G tkeys a ps)
       (call (read_loop R G a inbound) (\<lambda>_.
        call (update (\<lambda>w. w\<lparr>heartbeat_aborted := (heartbeat_aborted w)(a := True)\<rparr>)) (\<lambda>_.
          teardown R G tkeys skeys a)))"

definition failed_precondition :: "string \<Rightarrow> status" where
  "failed_precondition m = \<lparr>status_code = FailedPrecondition, status_message = m\<rparr>"

definition welcome_frame :: "('m, 'qo, 'qb, 'o, 'r) server \<Rightarrow> string \<Rightarrow> principal \<Rightarrow> server_frame" where
  "welcome_frame w sid p = Some (SWelcome
     \<lparr>w_session_id = sid, w_server_version = SERVER_VERSION, w_node_id = app_node_id w,
      w_heartbeat_interval_ms = u32_saturating (unat (heartbeat_ms (app_config w))),
      w_initial_window = window_bytes (app_config w),
      w_limits = Some \<lparr>pl_max_tunnels = max_tunnels (principal_limits p),
        pl_max_concurrent_streams = max_concurrent_streams (principal_limits p),
        pl_max_bytes_per_second = max_bytes_per_second (principal_limits p)\<rparr>\<rparr>)"

definition session_rpc ::
    "('m, 'qo, 'qb, 'o) runtime \<Rightarrow> 'r registry_ops \<Rightarrow> ((string \<rightharpoonup> tunnel) \<Rightarrow> string list) \<Rightarrow> ((u64 \<rightharpoonup> nat) \<Rightarrow> u64 list) \<Rightarrow>
     nat list \<Rightarrow> (u64 \<times> wall_clock) list \<Rightarrow> (client_frame, status) result option \<Rightarrow> inbound \<Rightarrow>
     (('m, 'qo, 'qb, 'o, 'r) server, (nat, status) result) task" where
  "session_rpc R G tkeys skeys draws ps first inbound =
     (case first of
        Some (Ok (Some (CHello hello))) \<Rightarrow>
          if hello_protocol_version hello \<noteq> PROTOCOL_VERSION
          then Return (Err (failed_precondition (''unsupported protocol version '' @
                 show_nat (unat (hello_protocol_version hello)) @ '' (server speaks '' @ show_nat (unat PROTOCOL_VERSION) @
                 ''); upgrade the norupo CLI'')))
          else
            call (read (\<lambda>w. (app_auth w (hello_token hello), w))) (\<lambda>(authenticated, st). case authenticated of
              Err e \<Rightarrow> Return (Err \<lparr>status_code = Unauthenticated, status_message = error_to_string e\<rparr>)
            | Ok p \<Rightarrow>
                let sid = new_session_id draws in
                call (atomically (\<lambda>w. (w\<lparr>app_sessions := (app_sessions w)\<lparr>session_heap := session_heap (app_sessions w) @
                        [session_new R sid (app_node_id w) p (window_bytes (app_config w))]\<rparr>\<rparr>,
                      length (session_heap (app_sessions w))))) (\<lambda>a.
                call (on_session a (session_send R (welcome_frame st sid p))) (\<lambda>sent.
                if \<not> sent
                then Return (Err \<lparr>status_code = Unavailable, status_message = ''agent hung up during handshake''\<rparr>)
                else
                  call (update (\<lambda>w. w\<lparr>app_sessions := manager_insert a (app_sessions w)\<rparr>)) (\<lambda>_.
                  spawn (run_session R G tkeys skeys a ps inbound) (Return (Ok a))))))
      | Some (Ok _) \<Rightarrow> Return (Err (failed_precondition ''first frame must be Hello''))
      | Some (Err status) \<Rightarrow> Return (Err status)
      | None \<Rightarrow> Return (Err (failed_precondition ''stream closed before Hello'')))"

definition health :: "((string \<rightharpoonup> nat) \<Rightarrow> string list) \<Rightarrow> ('m, 'qo, 'qb, 'o, 'r) server \<Rightarrow> health_response" where
  "health keys w = \<lparr>hr_ok = True, hr_node_id = app_node_id w, hr_server_version = SERVER_VERSION,
     hr_active_sessions = of_nat (manager_len (app_sessions w)),
     hr_active_tunnels = of_nat (manager_tunnel_count keys (app_sessions w))\<rparr>"

end
