(* ===== verification/Ingress.thy ===== *)
theory Ingress
  imports Peer Control
begin

text \<open>
  \<open>norupo-server/src/ingress.rs\<close>: from a public HTTP request to a stream on the agent's session and back to
  a response. The handler is a task over the node; the upload of the request body is a task of its
  own. The response body is polled by the HTTP server after the handler has returned, and dropped
  when the client has it all or is gone: both are operations here. JSON printing is \<open>serde_json\<close>'s.
\<close>

section \<open>Model\<close>

definition INTERNAL_PREFIX :: string where
  "INTERNAL_PREFIX = ''/__norupo/''"

datatype role = Public | Peer

record json_lib =
  json_display :: "json \<Rightarrow> string"
  json_to_string :: "json \<Rightarrow> (string, string) result"

definition tunnel_not_found :: "string \<Rightarrow> response" where
  "tunnel_not_found key =
     (let response = error_page 404 ''Tunnel not found'' (''No agent is serving <code>'' @ html_escape key @
          ''</code>. Start one with <code>norupo http 3000 --subdomain &lt;name&gt;</code>.'')
      in response\<lparr>res_headers := header_insert ''x-norupo-error'' ''tunnel_not_found'' (res_headers response)\<rparr>)"

definition health_json :: "((string \<rightharpoonup> nat) \<Rightarrow> string list) \<Rightarrow> ('m, 'qo, 'qb, 'o, 'r) server \<Rightarrow> json" where
  "health_json keys w = JObject [(''ok'', JBool True), (''node_id'', JString (app_node_id w)),
     (''node_addr'', JString (app_node_addr w)), (''version'', JString SERVER_VERSION),
     (''sessions'', JNumber (manager_len (app_sessions w))),
     (''tunnels'', JNumber (manager_tunnel_count keys (app_sessions w)))]"

definition internal_endpoint ::
    "json_lib \<Rightarrow> ((string \<rightharpoonup> nat) \<Rightarrow> string list) \<Rightarrow> ((string \<rightharpoonup> tunnel) \<Rightarrow> string list) \<Rightarrow>
     ('m, 'qo, 'qb, 'o, 'r) server \<Rightarrow> role \<Rightarrow> string \<Rightarrow> response" where
  "internal_endpoint js keys tkeys w role path =
     (let endpoint = trim_end_matches (CHR ''/'') path in
      if endpoint = ''/__norupo/healthz'' then
        (if role = Public
         then \<lparr>res_status = 200, res_headers = [(''content-type'', ''text/plain; charset=utf-8'')],
               res_body = full_body (''ok'' @ [CHR 0x0A])\<rparr>
         else \<lparr>res_status = 200, res_headers = [(''content-type'', ''application/json'')],
               res_body = full_body (json_display js (health_json keys w))\<rparr>)
      else if endpoint = ''/__norupo/tunnels'' \<and> role = Peer then
        \<lparr>res_status = 200, res_headers = [(''content-type'', ''application/json'')],
         res_body = full_body (case json_to_string js (snapshot_json keys tkeys (app_sessions w)) of
           Ok text \<Rightarrow> text | Err e \<Rightarrow> ''{}'')\<rparr>
      else error_page 404 ''Not found'' ''Unknown edge endpoint.'')"

definition request_host :: "http_lib \<Rightarrow> request \<Rightarrow> string option" where
  "request_host lib req = (case uri_authority (req_uri req) of
     Some authority \<Rightarrow> Some authority
   | None \<Rightarrow> Option.bind (header_get ''host'' (req_headers req)) (header_value_to_str lib))"

definition request_host_from_parts :: "http_lib \<Rightarrow> request \<Rightarrow> string option" where
  "request_host_from_parts lib parts = (case uri_authority (req_uri parts) of
     Some authority \<Rightarrow> Some authority
   | None \<Rightarrow> Option.bind (header_get ''host'' (req_headers parts)) (header_value_to_str lib))"

definition request_head :: "http_lib \<Rightarrow> request \<Rightarrow> http_request_head" where
  "request_head lib req =
     \<lparr>rq_method = req_method req, rq_path = path_and_query req,
      rq_authority = (case request_host_from_parts lib req of Some h \<Rightarrow> h | None \<Rightarrow> []),
      rq_headers = sanitize_headers lib (req_headers req), rq_version = req_version req,
      rq_upgrade = (case Option.bind (header_get ''upgrade'' (req_headers req)) (header_value_to_str lib) of
        Some u \<Rightarrow> u | None \<Rightarrow> [])\<rparr>"

text \<open>The upload, on the session's state.\<close>

primrec pump_body ::
    "('m, 'qo, 'qb, 'o) runtime \<Rightarrow> u64 \<Rightarrow> (body_frame, string) result list \<Rightarrow> (('m, 'qo, 'qb, 'o) session, unit) task" where
  "pump_body R sid [] = call (send_stream_end R sid) (\<lambda>_. Return ())"
| "pump_body R sid (frame # frames) =
     (case frame of
        Ok (DataFrame data) \<Rightarrow>
          if data \<noteq> []
          then call (send_stream_data R sid data) (\<lambda>sent. if \<not> sent then Return () else pump_body R sid frames)
          else pump_body R sid frames
      | Ok (TrailersFrame _) \<Rightarrow> pump_body R sid frames
      | Err e \<Rightarrow> reset_stream R sid ResetPeerClosed ''client body error'')"

text \<open>\<open>tokio::time::timeout\<close> around the response head: the head counts if it is there when the deadline
  is.\<close>

definition await_head ::
    "('m, 'qo, 'qb, 'o) runtime \<Rightarrow> nat \<Rightarrow> nat \<Rightarrow> nat \<Rightarrow>
     (('m, 'qo, 'qb, 'o, 'r) server, http_response_head option option) task" where
  "await_head R a st deadline = await (\<lambda>w.
     case once_recv (rt_once R) (head_slot (stream_heap (session_at a w) ! st)) of
       Some head \<Rightarrow> Some (w, Some head)
     | None \<Rightarrow> if deadline \<le> clock w then Some (w, None) else None)"

text \<open>\<open>Duration\<close>'s debug format, for a whole number of milliseconds.\<close>

definition debug_millis :: "nat \<Rightarrow> string" where
  "debug_millis n =
     (if n = 0 then ''0ns''
      else if n < 1000 then show_nat n @ ''ms''
      else
        let frac = [digit_char (n mod 1000 div 100), digit_char (n mod 100 div 10), digit_char (n mod 10)];
            shown = trim_end_matches (CHR ''0'') frac
        in show_nat (n div 1000) @ (if shown = [] then [] else ''.'' @ shown) @ ''s'')"

definition build_response ::
    "http_lib \<Rightarrow> nat \<Rightarrow> u64 \<Rightarrow> nat \<Rightarrow> http_response_head \<Rightarrow> response" where
  "build_response lib a sid st head =
     (let code = (if unat (rh_status head) < 65536 then unat (rh_status head) else 502);
          status = (case status_from_u16 lib code of Some c \<Rightarrow> c | None \<Rightarrow> 502)
      in \<lparr>res_status = status,
          res_headers = header_insert ''x-norupo-stream'' (show_nat (unat sid)) (to_header_map lib (rh_headers head)),
          res_body = StreamBody a sid st\<rparr>)"

definition finish_forward ::
    "('m, 'qo, 'qb, 'o) runtime \<Rightarrow> http_lib \<Rightarrow> nat \<Rightarrow> u64 \<Rightarrow> nat \<Rightarrow> http_response_head option option \<Rightarrow>
     (('m, 'qo, 'qb, 'o, 'r) server, response) task" where
  "finish_forward R lib a sid st answer =
     (case answer of
        Some (Some head) \<Rightarrow> Return (build_response lib a sid st head)
      | Some None \<Rightarrow>
          call (on_session a (close_stream R sid)) (\<lambda>_.
          call (on_session a (drop_body_receiver R st)) (\<lambda>_.
          Return (error_page 502 ''Local service unreachable''
            ''The agent could not reach the local service it is forwarding to.'')))
      | None \<Rightarrow>
          call (on_session a (drop_head_receiver R st)) (\<lambda>_.
          call (on_session a (reset_stream R sid ResetTimeout ''edge response timeout'')) (\<lambda>_.
          call (read app_config) (\<lambda>cfg.
          call (on_session a (drop_body_receiver R st)) (\<lambda>_.
          Return (error_page 504 ''Tunnel timed out'' (''The local service did not respond within '' @
            debug_millis (response_timeout cfg) @ ''.'')))))))"

definition forward_local ::
    "('m, 'qo, 'qb, 'o) runtime \<Rightarrow> http_lib \<Rightarrow> nat \<Rightarrow> route_record \<Rightarrow> request \<Rightarrow> string \<Rightarrow>
     (('m, 'qo, 'qb, 'o, 'r) server, response) task" where
  "forward_local R lib a record req remote_addr =
     call (on_session a (open_http_stream R (rr_tunnel record) (request_head lib req) remote_addr)) (\<lambda>opened.
     case opened of
       Err SessionGone \<Rightarrow> Return (tunnel_not_found (rr_key record))
     | Err (TooManyStreams limit) \<Rightarrow>
         Return (error_page 503 ''Too many concurrent requests''
           (''This tunnel is limited to '' @ show_nat (unat limit) @ '' concurrent requests.''))
     | Ok resp \<Rightarrow>
         let sid = resp_stream_id resp; st = resp_stream resp in
         spawn (on_session a (pump_body R sid (req_body req)))
           (call (read (\<lambda>w. clock w + response_timeout (app_config w))) (\<lambda>deadline.
            call (await_head R a st deadline) (finish_forward R lib a sid st))))"

definition handle ::
    "('m, 'qo, 'qb, 'o) runtime \<Rightarrow> 'r registry_ops \<Rightarrow> http_lib \<Rightarrow> json_lib \<Rightarrow> ((string \<rightharpoonup> nat) \<Rightarrow> string list) \<Rightarrow>
     ((string \<rightharpoonup> tunnel) \<Rightarrow> string list) \<Rightarrow> peer_client \<Rightarrow> role \<Rightarrow> request \<Rightarrow> string \<Rightarrow>
     (('m, 'qo, 'qb, 'o, 'r) server, response) task" where
  "handle R G lib js keys tkeys P role req remote_addr =
     (if starts_with (uri_path (req_uri req)) INTERNAL_PREFIX
      then read (\<lambda>w. internal_endpoint js keys tkeys w role (uri_path (req_uri req)))
      else case request_host lib req of
        None \<Rightarrow> Return (error_page 400 ''Missing host''
          ''The request did not carry a <code>Host</code> header, so the edge cannot tell which tunnel it belongs to.'')
      | Some host \<Rightarrow>
        (case normalize_host host of
           Err e \<Rightarrow> Return (error_page 400 ''Invalid host'' (html_escape (error_to_string e)))
         | Ok key \<Rightarrow>
           call (registry_lookup G key) (\<lambda>found. case found of
             Ok None \<Rightarrow> Return (tunnel_not_found key)
           | Err e \<Rightarrow> Return (error_page 502 ''Routing unavailable''
               ''The edge could not reach its routing table. This is a server-side problem; retry shortly.'')
           | Ok (Some record) \<Rightarrow>
             call (read app_node_id) (\<lambda>node.
             if rr_node_id record = node then
               call (read (\<lambda>w. manager_get (rr_session record) (app_sessions w))) (\<lambda>session. case session of
                 Some a \<Rightarrow> forward_local R lib a record req remote_addr
               | None \<Rightarrow>
                   call (registry_release G key (rr_session record)) (\<lambda>_. Return (tunnel_not_found key)))
             else if role = Peer \<or> contains_key HOP_HEADER (req_headers req) then
               Return (error_page 508 ''Routing loop''
                 ''The edge cluster disagreed about which node owns this tunnel. Retry in a moment.'')
             else peer_forward lib P record req))))"

text \<open>The response body: one poll of it, and its drop, which runs the stream guard.\<close>

fun reset_code_debug :: "reset_code \<Rightarrow> string" where
  "reset_code_debug ResetUnspecified = ''Unspecified''"
| "reset_code_debug ResetLocalUnreachable = ''LocalUnreachable''"
| "reset_code_debug ResetPeerClosed = ''PeerClosed''"
| "reset_code_debug ResetProtocolError = ''ProtocolError''"
| "reset_code_debug ResetTimeout = ''Timeout''"
| "reset_code_debug ResetInternal = ''Internal''"
| "reset_code_debug ResetRefused = ''Refused''"

fun body_item :: "http_lib \<Rightarrow> chunk \<Rightarrow> (body_frame, string) result" where
  "body_item lib (ChunkData b) = Ok (DataFrame b)"
| "body_item lib (ChunkEnd trailers) = Ok (TrailersFrame (to_header_map lib trailers))"
| "body_item lib (ChunkReset code message) =
     Err (''tunnel stream reset: '' @ reset_code_debug code @ '': '' @ message)"

definition poll_body ::
    "('m, 'qo, 'qb, 'o) runtime \<Rightarrow> http_lib \<Rightarrow> nat \<Rightarrow>
     (('m, 'qo, 'qb, 'o) session, (body_frame, string) result option) task" where
  "poll_body R lib st = await (\<lambda>s.
     map_option (\<lambda>(q, item). (set_stream st (\<lambda>x. x\<lparr>body := q\<rparr>) s, map_option (body_item lib) item))
       (chan_recv (rt_body R) (body (stream_heap s ! st))))"

definition guard_drop ::
    "('m, 'qo, 'qb, 'o) runtime \<Rightarrow> u64 \<Rightarrow> (('m, 'qo, 'qb, 'o) session, unit) task" where
  "guard_drop R sid =
     call (close_stream R sid) (\<lambda>_.
     call (session_try_send R (Some (SReset \<lparr>sr_stream_id = sid, sr_code = reset_code_i32 ResetPeerClosed,
             sr_message = ''public client finished''\<rparr>))) (\<lambda>_. Return ()))"

definition drop_response ::
    "('m, 'qo, 'qb, 'o) runtime \<Rightarrow> response \<Rightarrow> (('m, 'qo, 'qb, 'o, 'r) server, unit) task" where
  "drop_response R response =
     (case res_body response of
        StreamBody a sid st \<Rightarrow>
          call (on_session a (drop_body_receiver R st)) (\<lambda>_. on_session a (guard_drop R sid))
      | _ \<Rightarrow> Return ())"

definition default_response_timeout :: nat where
  "default_response_timeout = 30 * 1000"

definition INGRESS_CHUNK_HINT :: nat where
  "INGRESS_CHUNK_HINT = 64 * 1024"

section \<open>Lemmas\<close>

lemma request_host_from_parts [simp]: "request_host_from_parts lib req = request_host lib req"
  by (simp add: request_host_from_parts_def request_host_def)

end
