(* ===== verification/Control_Properties.thy ===== *)
theory Control_Properties
  imports Control
begin

text \<open>
  What the control plane guarantees: who gets a session, which hosts an account can publish, what a
  registration leaves in the routing table, what a heartbeat renews and what a teardown gives back.
\<close>

section \<open>The handshake\<close>

text \<open>The credentials a first frame carries, when it is a greeting in our protocol version.\<close>

definition greeting :: "(client_frame, status) result option \<Rightarrow> string option" where
  "greeting first = (case first of
     Some (Ok (Some (CHello hello))) \<Rightarrow>
       if hello_protocol_version hello = PROTOCOL_VERSION then Some (hello_token hello) else None
   | _ \<Rightarrow> None)"

definition admitted :: "('m, 'qo, 'qb, 'o, 'r) server \<Rightarrow> (client_frame, status) result option \<Rightarrow> principal option" where
  "admitted w first = (case greeting first of None \<Rightarrow> None | Some token \<Rightarrow> result_ok (app_auth w token))"

lemma greeting_Some:
  "greeting first = Some token \<longleftrightarrow> (\<exists>hello. first = Some (Ok (Some (CHello hello))) \<and>
     hello_protocol_version hello = PROTOCOL_VERSION \<and> token = hello_token hello)"
  by (auto simp: greeting_def split: option.splits result.splits client_payload.splits)

lemma run_session_rpc_refused:
  assumes "admitted w first = None"
  shows "\<exists>st. run (session_rpc R G tkeys skeys draws ps first inbound) w = Finished w (Err st)"
proof (cases "greeting first")
  case None
  then show ?thesis
    by (auto simp: greeting_def session_rpc_def split: option.splits result.splits client_payload.splits if_splits)
next
  case (Some token)
  then obtain hello where "first = Some (Ok (Some (CHello hello)))" "hello_protocol_version hello = PROTOCOL_VERSION"
    "token = hello_token hello" by (auto simp: greeting_Some)
  moreover from assms Some obtain e where "app_auth w token = Err e"
    by (cases "app_auth w token") (auto simp: admitted_def)
  ultimately show ?thesis by (simp add: session_rpc_def run_call)
qed

context session_runtime
begin

lemma fresh_outbound: "oview (outbound (session_new R sid node p window)) =
    \<lparr>queued = [], capacity = OUTBOUND_QUEUE, senders = 1, receiver = True\<rparr>"
  by (simp add: session_new_def out.chan_new_law OUTBOUND_QUEUE_def)

lemma run_session_rpc_admitted:
  fixes w :: "('m, 'qo, 'qb, 'o, 'r) server"
  assumes "admitted w first = Some p"
  shows "\<exists>w'. run (session_rpc R G tkeys skeys draws ps first inbound) w =
      Finished w' (Ok (length (session_heap (app_sessions w)))) \<and>
    sessions (app_sessions w') = (sessions (app_sessions w))(new_session_id draws \<mapsto> length (session_heap (app_sessions w))) \<and>
    session_principal (session_at (length (session_heap (app_sessions w))) w') = p \<and>
    queued (oview (outbound (session_at (length (session_heap (app_sessions w))) w'))) =
      [Ok (welcome_frame w (new_session_id draws) p)] \<and>
    app_registry w' = app_registry w \<and> app_config w' = app_config w \<and> clock w' = clock w \<and>
    app_node_id w' = app_node_id w \<and> app_node_addr w' = app_node_addr w \<and>
    has_session (length (session_heap (app_sessions w))) w' \<and>
    session_id (session_at (length (session_heap (app_sessions w))) w') = new_session_id draws \<and>
    tunnels (session_at (length (session_heap (app_sessions w))) w') = Map.empty"
proof -
  let ?sid = "new_session_id draws" and ?a = "length (session_heap (app_sessions w))"
  let ?new = "session_new R ?sid (app_node_id w) p (window_bytes (app_config w))"
  let ?w1 = "w\<lparr>app_sessions := (app_sessions w)\<lparr>session_heap := session_heap (app_sessions w) @ [?new]\<rparr>\<rparr>"
  obtain hello where first: "first = Some (Ok (Some (CHello hello)))" "hello_protocol_version hello = PROTOCOL_VERSION"
    "app_auth w (hello_token hello) = Ok p"
    using assms by (auto simp: admitted_def greeting_Some split: option.splits)
  have has: "has_session ?a ?w1" and at: "session_at ?a ?w1 = ?new"
    by (simp_all add: has_session_def session_at_def nth_append)
  have room: "receiver (oview (outbound ?new))" "length (queued (oview (outbound ?new))) < capacity (oview (outbound ?new))"
    by (simp_all add: fresh_outbound OUTBOUND_QUEUE_def)
  obtain q where q: "run (session_send R (welcome_frame w ?sid p)) ?new = Finished (?new\<lparr>outbound := q\<rparr>) True"
    "oview q = (oview (outbound ?new))\<lparr>queued := queued (oview (outbound ?new)) @ [Ok (welcome_frame w ?sid p)]\<rparr>"
    using run_session_send_room [OF room] by metis
  let ?w2 = "set_session ?a (?new\<lparr>outbound := q\<rparr>) ?w1"
  let ?w3 = "?w2\<lparr>app_sessions := manager_insert ?a (app_sessions ?w2)\<rparr>"
  have "run (session_rpc R G tkeys skeys draws ps first inbound) w = Finished ?w3 (Ok ?a)"
    using first by (simp add: session_rpc_def run_call run_on_session [OF has] at q(1) Let_def)
  moreover have "session_at ?a ?w3 = ?new\<lparr>outbound := q\<rparr>"
    using has by (simp add: session_at_def manager_insert_def set_session_def nth_append has_session_def)
  moreover have "sessions (app_sessions ?w3) = (sessions (app_sessions w))(?sid \<mapsto> ?a)"
    by (simp add: manager_insert_def set_session_def nth_append session_new_def)
  moreover have "session_principal ?new = p" "session_id ?new = ?sid" "tunnels ?new = Map.empty" by (simp_all add: session_new_def)
  moreover have "has_session ?a ?w3" by (simp add: has_session_def manager_insert_def set_session_def)
  ultimately show ?thesis
    by (intro exI [of _ ?w3]) (simp add: q(2) fresh_outbound)
qed

end

text \<open>C16. Nobody gets a session without credentials, and refusing costs no state. The RPC succeeds exactly
  when the first frame is a greeting in our protocol version whose token the provider accepts; then the
  session table has a new session with that account's principal and the agent's queue starts with the
  matching welcome. In every other case the RPC ends with an error and the node is unchanged.\<close>

theorem session_admitted_exactly:
  assumes "session_runtime R sview oview bview hview"
  shows "case admitted w first of
      None \<Rightarrow> \<exists>st. run (session_rpc R G tkeys skeys draws ps first inbound) w = Finished w (Err st)
    | Some p \<Rightarrow>
        \<exists>w' a. run (session_rpc R G tkeys skeys draws ps first inbound) w = Finished w' (Ok a) \<and>
          sessions (app_sessions w') = (sessions (app_sessions w))(new_session_id draws \<mapsto> a) \<and>
          session_principal (session_at a w') = p \<and>
          queued (oview (outbound (session_at a w'))) = [Ok (welcome_frame w (new_session_id draws) p)] \<and>
          app_registry w' = app_registry w"
  using run_session_rpc_refused [of w first R G tkeys skeys draws ps inbound]
    session_runtime.run_session_rpc_admitted [OF assms, of w first _ G tkeys skeys draws ps inbound]
  by (cases "admitted w first") force+

text \<open>A node for the witnesses: the reference runtime, the in-process routing table, one token.\<close>

definition sample_node ::
    "(sem_view, outbound_item chan_view, chunk chan_view, http_response_head slot, mem_table) server" where
  "sample_node =
     \<lparr>app_config = default_config\<lparr>base_domain := ''tunnel.com''\<rparr>, app_node_id = ''node_a'', app_node_addr = ''10.0.0.1:7100'',
      app_registry = mem_new, app_auth = authenticate (static_token_auth_new [''tok_a'' \<mapsto> sample_principal 4]),
      app_sessions = \<lparr>session_heap = [session_new ref_runtime ''sess_1'' ''node_a'' (sample_principal 4) 65536],
        sessions = [''sess_1'' \<mapsto> 0]\<rparr>,
      clock = 0, heartbeat_aborted = (\<lambda>_. False)\<rparr>"

theorem session_admitted_exactly_witness:
  "\<exists>w' a. run (session_rpc ref_runtime memory_registry (\<lambda>_. []) (\<lambda>_. []) (replicate 16 0) []
      (Some (Ok (Some (CHello \<lparr>hello_token = ''tok_a'', hello_agent_version = [], hello_protocol_version = 1,
        hello_metadata = Map.empty\<rparr>)))) []) sample_node = Finished w' (Ok a) \<and>
     session_principal (session_at a w') = sample_principal 4"
proof -
  let ?first = "Some (Ok (Some (CHello \<lparr>hello_token = ''tok_a'', hello_agent_version = [], hello_protocol_version = 1,
        hello_metadata = Map.empty\<rparr>)))"
  have "admitted sample_node ?first = Some (sample_principal 4)"
    by (simp add: admitted_def greeting_def PROTOCOL_VERSION_def sample_node_def authenticate_def static_token_auth_new_def)
  with session_admitted_exactly [OF ref_rt.session_runtime_axioms, where w = sample_node and first = ?first and G = memory_registry and
      tkeys = "\<lambda>_. []" and skeys = "\<lambda>_. []" and draws = "replicate 16 0" and ps = "[]" and inbound = "[]"]
  show ?thesis by auto
qed

section \<open>Which hosts an account can publish\<close>

lemma public_host_child:
  assumes "public_host sub base = Ok h" "normalize_host base = Ok b" "plain_host b"
  shows "subdomain_of h base = Some (to_ascii_lowercase (trim sub))" "plain_host h"
proof -
  show "plain_host h" by (rule public_host_plain [OF assms])
  then have "normalize_host h = Ok h" by (rule normalize_host_fixed)
  moreover have l: "dns_label (to_ascii_lowercase (trim sub))" and "h = to_ascii_lowercase (trim sub) @ ''.'' @ b"
    using assms by (auto simp: public_host_Ok_iff)
  ultimately show "subdomain_of h base = Some (to_ascii_lowercase (trim sub))"
    using assms(2) dns_label_facts [OF l] by (simp add: subdomain_of_Some_iff)
qed

text \<open>An account can only publish hosts it may use. When an HTTP registration resolves to a host, either
  the account may use that custom domain, or the host is a direct child of the node's base domain whose
  label is a DNS label that is not reserved or has been granted to the account; generated labels are never
  reserved; and the URL shown is the host under the configured scheme.\<close>

lemma resolved_host_authorised:
  assumes "resolve_http_target cfg p draws spec = Ok (key, url)"
    and "normalize_host (base_domain cfg) = Ok b" "plain_host b"
    and "length draws = GENERATED_SUBDOMAIN_LEN" "set draws \<subseteq> {..<length SUBDOMAIN_ALPHABET}"
  shows "\<exists>h. key = Host h \<and> url = public_scheme cfg @ ''://'' @ h \<and>
    (if hs_custom_domain spec \<noteq> []
     then normalize_host (hs_custom_domain spec) = Ok h \<and> may_use_custom_domain p h
     else \<exists>label. subdomain_of h (base_domain cfg) = Some label \<and> dns_label label \<and> normalize_host h = Ok h \<and>
       (\<not> is_reserved_subdomain label \<or> may_claim_subdomain p label))"
proof -
  obtain h where h: "key = Host h" "url = public_scheme cfg @ ''://'' @ h"
    using assms(1) by (auto simp: resolve_http_target_def public_url_def)
  have child: "\<exists>label. subdomain_of h (base_domain cfg) = Some label \<and> dns_label label \<and> normalize_host h = Ok h \<and>
       (\<not> is_reserved_subdomain label \<or> may_claim_subdomain p label)"
    if "public_host sub (base_domain cfg) = Ok h"
      "\<not> is_reserved_subdomain (to_ascii_lowercase (trim sub)) \<or> may_claim_subdomain p (to_ascii_lowercase (trim sub))" for sub
    using public_host_child [OF that(1) assms(2,3)] that normalize_host_fixed
    by (intro exI [of _ "to_ascii_lowercase (trim sub)"]) (auto simp: public_host_Ok_iff)
  have generated: "\<not> is_reserved_subdomain (to_ascii_lowercase (trim (random_subdomain draws)))"
    using random_subdomain_label [OF assms(4,5)] dns_label_facts reserved_lengths by force
  have trimmed: "to_ascii_lowercase (trim l) = l" if "validate_subdomain_syntax s = Ok l" for s l
    using that dns_label_facts [of l] by (auto simp: validate_subdomain_syntax_Ok_iff)
  show ?thesis
    using assms(1) h child generated trimmed
    by (auto simp: resolve_http_target_def split: if_splits)
qed

section \<open>Registering a tunnel\<close>

definition under_limit :: "principal \<Rightarrow> nat \<Rightarrow> bool" where
  "under_limit p n \<longleftrightarrow> (let limit = max_tunnels (principal_limits p) in limit = 0 \<or> n < unat limit)"

definition claimable :: "lease option \<Rightarrow> string \<Rightarrow> bool" where
  "claimable l sid \<longleftrightarrow> (case l of None \<Rightarrow> True | Some (r, _) \<Rightarrow> rr_session r = sid)"

lemma run_register_over_limit:
  assumes "\<not> under_limit (session_principal (session_at a w)) (session_tunnel_count (session_at a w))"
  shows "\<exists>e. run (register_tunnel G a ent req) w = Finished w (reject (ot_request_id req) e)"
proof -
  have "0 < max_tunnels (principal_limits (session_principal (session_at a w)))"
    using assms by (auto simp: under_limit_def word_gt_0)
  then show ?thesis
    using assms by (auto simp: register_tunnel_def run_call under_limit_def Let_def)
qed

lemma run_register_unresolved:
  assumes "resolve_target (app_config w) (session_principal (session_at a w)) (subdomain_draws ent) (ot_spec req) = Err e"
  shows "\<exists>e. run (register_tunnel G a ent req) w = Finished w (reject (ot_request_id req) e)"
  using assms by (auto simp: register_tunnel_def run_call Let_def)

lemma run_register_resolved:
  assumes "under_limit (session_principal (session_at a w)) (session_tunnel_count (session_at a w))"
    "resolve_target (app_config w) (session_principal (session_at a w)) (subdomain_draws ent) (ot_spec req) = Ok (key, url)"
    "has_session a w"
  shows "run (register_tunnel G a ent req) w =
    (let tid = new_tunnel_id (tunnel_draws ent); record = new_route w a key tid in
     case rg_claim G (clock w) (clock w) (app_registry w) record (route_ttl (app_config w)) of
       (r, Ok Acquired) \<Rightarrow>
         Finished (set_session a (insert_tunnel \<lparr>tunnel_id = tid, tunnel_routing_key = rr_key record, tunnel_public_url = url\<rparr>
             (session_at a w)) (w\<lparr>app_registry := r\<rparr>))
           \<lparr>st_request_id = ot_request_id req, st_tunnel_id = tid, st_accepted = True, st_error = [],
            st_public_url = url, st_routing_key = rr_key record\<rparr>
     | (r, Ok (Taken owner)) \<Rightarrow> Finished (w\<lparr>app_registry := r\<rparr>) (reject (ot_request_id req)
         (error_to_string (RouteTaken (rr_key record @ '' (held by session '' @ rr_session owner @ '' on node '' @ rr_node_id owner @ '')''))))
     | (r, Err e) \<Rightarrow> Finished (w\<lparr>app_registry := r\<rparr>) (reject (ot_request_id req) (error_to_string e)))"
proof -
  have "\<not> (0 < max_tunnels (principal_limits (session_principal (session_at a w))) \<and>
      unat (max_tunnels (principal_limits (session_principal (session_at a w)))) \<le> session_tunnel_count (session_at a w))"
    using assms(1) by (auto simp: under_limit_def Let_def)
  with assms(2,3) show ?thesis
    by (auto simp: register_tunnel_def run_call Let_def run_on_session split: prod.splits result.splits claim.splits)
qed

text \<open>A registration whose key is free, expired or the session's own, and one whose key another session holds.\<close>

lemma run_register_claimed:
  assumes "routing_table G leases good storable ttl_ok" "good (app_registry w)" "has_session a w"
    and "ttl_ok (route_ttl (app_config w))" "storable (new_route w a key (new_tunnel_id (tunnel_draws ent)))"
    and "under_limit (session_principal (session_at a w)) (session_tunnel_count (session_at a w))"
    and "resolve_target (app_config w) (session_principal (session_at a w)) (subdomain_draws ent) (ot_spec req) = Ok (key, url)"
    and "claimable (live leases (app_registry w) (clock w) (as_storage_key key)) (session_id (session_at a w))"
  shows "\<exists>w' st e. run (register_tunnel G a ent req) w = Finished w' st \<and> st_accepted st \<and> st_routing_key st = as_storage_key key \<and>
    good (app_registry w') \<and> clock w' = clock w \<and> clock w + route_ttl (app_config w) \<le> e \<and>
    (\<forall>u \<ge> clock w. live leases (app_registry w') u = (live leases (app_registry w) u)
       (as_storage_key key := valid_until (new_route w a key (new_tunnel_id (tunnel_draws ent)), e) u)) \<and>
    tunnels (session_at a w') = (tunnels (session_at a w))(new_tunnel_id (tunnel_draws ent) \<mapsto>
      \<lparr>tunnel_id = new_tunnel_id (tunnel_draws ent), tunnel_routing_key = as_storage_key key, tunnel_public_url = url\<rparr>)"
proof -
  let ?r = "new_route w a key (new_tunnel_id (tunnel_draws ent))" and ?ttl = "route_ttl (app_config w)"
  have rg: "registry (rg_claim G) (rg_lookup G) (rg_renew G) (rg_release G) leases good storable ttl_ok"
    using assms(1) by (simp add: routing_table_def)
  have [simp]: "rr_key ?r = as_storage_key key" "rr_session ?r = session_id (session_at a w)" by (simp_all add: new_route_def)
  have "\<exists>r' e. rg_claim G (clock w) (clock w) (app_registry w) ?r ?ttl = (r', Ok Acquired) \<and> good r' \<and>
      clock w + ?ttl \<le> e \<and> e \<le> clock w + ?ttl + 1 \<and>
      (\<forall>u \<ge> clock w. live leases r' u = (live leases (app_registry w) u)(rr_key ?r := valid_until (?r, e) u))"
    by (rule registry.claim_acquired [OF rg assms(2) _ _ assms(4)]) (use assms(5,8) in \<open>auto simp: claimable_def\<close>)
  then obtain r' e where "rg_claim G (clock w) (clock w) (app_registry w) ?r ?ttl = (r', Ok Acquired)" "clock w + ?ttl \<le> e" "good r'"
    "\<forall>u \<ge> clock w. live leases r' u = (live leases (app_registry w) u)(as_storage_key key := valid_until (?r, e) u)" by auto
  with run_register_resolved [OF assms(6,7,3), of G] assms(3) show ?thesis
    by (simp add: Let_def insert_tunnel_def) (intro exI [of _ e], simp)
qed

lemma run_register_taken:
  assumes "routing_table G leases good storable ttl_ok" "good (app_registry w)" "has_session a w"
    and "ttl_ok (route_ttl (app_config w))" "storable (new_route w a key (new_tunnel_id (tunnel_draws ent)))"
    and "under_limit (session_principal (session_at a w)) (session_tunnel_count (session_at a w))"
    and "resolve_target (app_config w) (session_principal (session_at a w)) (subdomain_draws ent) (ot_spec req) = Ok (key, url)"
    and "\<not> claimable (live leases (app_registry w) (clock w) (as_storage_key key)) (session_id (session_at a w))"
  shows "\<exists>w' st. run (register_tunnel G a ent req) w = Finished w' st \<and> \<not> st_accepted st \<and> session_at a w' = session_at a w \<and>
    (\<forall>u \<ge> clock w. live leases (app_registry w') u = live leases (app_registry w) u)"
proof -
  let ?r = "new_route w a key (new_tunnel_id (tunnel_draws ent))"
  have rg: "registry (rg_claim G) (rg_lookup G) (rg_renew G) (rg_release G) leases good storable ttl_ok"
    using assms(1) by (simp add: routing_table_def)
  have [simp]: "rr_key ?r = as_storage_key key" "rr_session ?r = session_id (session_at a w)" by (simp_all add: new_route_def)
  obtain r0 e0 where "live leases (app_registry w) (clock w) (as_storage_key key) = Some (r0, e0)"
    "rr_session r0 \<noteq> session_id (session_at a w)"
    using assms(8) by (auto simp: claimable_def split: option.splits)
  then obtain r' where "rg_claim G (clock w) (clock w) (app_registry w) ?r (route_ttl (app_config w)) = (r', Ok (Taken r0))"
    "\<forall>u \<ge> clock w. live leases r' u = live leases (app_registry w) u"
    using registry.claim_taken [OF rg assms(2) _ _ assms(4), of ?r "clock w" "clock w" r0 e0] assms(5) by auto
  with run_register_resolved [OF assms(6,7,3), of G] show ?thesis by (simp add: Let_def reject_def)
qed

text \<open>C5. Registration claims the route and records the tunnel, or rejects and leaves the session as it was. Over the tunnel limit, or with a
  target that does not resolve, the answer is a rejection and the node is unchanged. Otherwise the table's answer decides, whatever table it
  is and in whatever state: the tunnel is accepted exactly when the claim was granted, a rejection changes nothing but the table,
  and an error of the table is what the agent is told. On a table that works and a record that it can store, as on Redis one without a
  tab: if the key is free, expired or the session's own, the answer is an acceptance, the table holds this
  session's record for at least the configured time, and the session's tunnel table has the new tunnel; if another session holds
  the key, the answer is a rejection and the leases are as before.\<close>

theorem registration_claims_or_rejects:
  assumes "routing_table G leases good storable ttl_ok" "has_session a w"
  shows "case (under_limit (session_principal (session_at a w)) (session_tunnel_count (session_at a w)),
      resolve_target (app_config w) (session_principal (session_at a w)) (subdomain_draws ent) (ot_spec req)) of
    (True, Ok (key, url)) \<Rightarrow>
      (let tid = new_tunnel_id (tunnel_draws ent); k = as_storage_key key; sid = session_id (session_at a w);
           record = new_route w a key tid; ttl = route_ttl (app_config w);
           (r', answer) = rg_claim G (clock w) (clock w) (app_registry w) record ttl in
       \<exists>w' st. run (register_tunnel G a ent req) w = Finished w' st \<and> app_registry w' = r' \<and>
         (st_accepted st \<longleftrightarrow> answer = Ok Acquired) \<and> (\<not> st_accepted st \<longrightarrow> w' = w\<lparr>app_registry := r'\<rparr>) \<and>
         (\<forall>e. answer = Err e \<longrightarrow> st = reject (ot_request_id req) (error_to_string e)) \<and>
         (good (app_registry w) \<and> ttl_ok ttl \<and> storable record \<longrightarrow>
           (if claimable (live leases (app_registry w) (clock w) k) sid then
              st_accepted st \<and> st_routing_key st = k \<and>
              (\<exists>e \<ge> clock w + ttl. \<forall>u \<ge> clock w. live leases r' u = (live leases (app_registry w) u)(k := valid_until (record, e) u)) \<and>
              tunnels (session_at a w') = (tunnels (session_at a w))
                (tid \<mapsto> \<lparr>tunnel_id = tid, tunnel_routing_key = k, tunnel_public_url = url\<rparr>)
            else \<not> st_accepted st \<and> (\<forall>u \<ge> clock w. live leases r' u = live leases (app_registry w) u))))
  | _ \<Rightarrow> \<exists>e. run (register_tunnel G a ent req) w = Finished w (reject (ot_request_id req) e)"
proof -
  let ?p = "session_principal (session_at a w)" and ?n = "session_tunnel_count (session_at a w)"
  let ?t = "resolve_target (app_config w) ?p (subdomain_draws ent) (ot_spec req)"
  consider (over) "\<not> under_limit ?p ?n" | (bad) e where "under_limit ?p ?n" "?t = Err e"
    | (resolved) key url where "under_limit ?p ?n" "?t = Ok (key, url)"
    by (cases ?t) auto
  then show ?thesis
  proof cases
    case over
    then show ?thesis using run_register_over_limit [OF over, of G ent req]
      by (auto split: result.splits prod.splits)
  next
    case (bad e)
    then show ?thesis using run_register_unresolved [OF bad(2), of G] by auto
  next
    case (resolved key url)
    let ?free = "claimable (live leases (app_registry w) (clock w) (as_storage_key key)) (session_id (session_at a w))"
    let ?r = "new_route w a key (new_tunnel_id (tunnel_draws ent))" and ?ttl = "route_ttl (app_config w)"
    note run = run_register_resolved [OF resolved assms(2), of G]
    have key [simp]: "rr_key ?r = as_storage_key key" by (simp add: new_route_def)
    obtain r' answer where claim: "rg_claim G (clock w) (clock w) (app_registry w) ?r ?ttl = (r', answer)" by force
    have free: "answer = Ok Acquired \<and>
        (\<exists>e \<ge> clock w + ?ttl. \<forall>u \<ge> clock w. live leases r' u = (live leases (app_registry w) u)(as_storage_key key := valid_until (?r, e) u))"
      if ok: "good (app_registry w)" "ttl_ok ?ttl" "storable ?r" ?free
      using run_register_claimed [OF assms(1) ok(1) assms(2) ok(2,3) resolved ok(4)] run claim
      by (auto simp: Let_def reject_def split: result.splits claim.splits)
    have taken: "answer \<noteq> Ok Acquired \<and> (\<forall>u \<ge> clock w. live leases r' u = live leases (app_registry w) u)"
      if ok: "good (app_registry w)" "ttl_ok ?ttl" "storable ?r" "\<not> ?free"
      using run_register_taken [OF assms(1) ok(1) assms(2) ok(2,3) resolved ok(4)] run claim
      by (auto simp: Let_def reject_def split: result.splits claim.splits)
    consider "answer = Ok Acquired" | owner where "answer = Ok (Taken owner)" | e where "answer = Err e"
      by (cases answer) (auto intro: claim.exhaust)
    then show ?thesis
    proof cases
      case 1
      then show ?thesis using resolved run free taken claim assms(2) by (simp add: Let_def insert_tunnel_def) blast
    qed (use resolved run free taken claim in \<open>simp add: Let_def reject_def, blast\<close>)+
  qed
qed

text \<open>The node for the examples with its table in Redis, behind a given way to the server.\<close>

definition redis_node :: "link \<Rightarrow> (sem_view, outbound_item chan_view, chunk chan_view, http_response_head slot, link \<times> store) server" where
  "redis_node l = \<lparr>app_config = app_config sample_node, app_node_id = app_node_id sample_node, app_node_addr = app_node_addr sample_node,
     app_registry = (l, Map.empty), app_auth = app_auth sample_node, app_sessions = app_sessions sample_node,
     clock = 0, heartbeat_aborted = (\<lambda>_. False)\<rparr>"

definition port_request :: open_tunnel where
  "port_request = \<lparr>ot_request_id = ''req_1'', ot_spec = Some (TcpSpec \<lparr>ts_remote_port = 41235, ts_forward_to = []\<rparr>)\<rparr>"

definition port_entropy :: entropy where
  "port_entropy = \<lparr>subdomain_draws = [], tunnel_draws = replicate 16 0\<rparr>"

definition port_route :: route_record where
  "port_route = \<lparr>rr_key = as_storage_key (TcpPort 41235), rr_node_id = ''node_a'', rr_node_addr = ''10.0.0.1:7100'', rr_session = ''sess_1'',
     rr_tunnel = new_tunnel_id (replicate 16 0), rr_account = ''acct_1''\<rparr>"

lemma tab_not_in_number: "tab_char \<notin> set (show_nat n)"
  using show_nat_digits [of n] by (auto simp: list_all_iff is_ascii_digit_def byte_def)

lemma port_facts:
  "tab_free port_route" "px_ok 45000" "redis_wf id ''norupo:'' Map.empty" "live (redis_leases id ''norupo:'') Map.empty = (\<lambda>u. Map.empty)"
proof -
  have "id_draws (replicate 16 0)" by (simp add: id_draws_def RANDOM_LEN_def ID_ALPHABET_def list_all_iff)
  then show "tab_free port_route"
    by (simp add: tab_free_def port_route_def new_tunnel_id_def tab_not_in_suffix tab_not_in_number)
qed (simp_all add: px_ok_def redis_wf_def live_def redis_leases_def fun_eq_iff)

lemma redis_node_facts:
  "app_config (redis_node l) = default_config\<lparr>base_domain := ''tunnel.com''\<rparr>"
  "session_at 0 (redis_node l) = session_new ref_runtime ''sess_1'' ''node_a'' (sample_principal 4) 65536"
  "app_node_id (redis_node l) = ''node_a''" "app_node_addr (redis_node l) = ''10.0.0.1:7100''"
  "has_session 0 (redis_node l)" "clock (redis_node l) = 0" "app_registry (redis_node l) = (l, Map.empty)"
  by (simp_all add: redis_node_def sample_node_def session_at_def has_session_def)

lemma redis_node_registers:
  "resolve_target (app_config (redis_node l)) (session_principal (session_at 0 (redis_node l))) (subdomain_draws port_entropy) (ot_spec port_request) =
     Ok (TcpPort 41235, ''tcp://tunnel.com:'' @ show_nat 41235)"
  "under_limit (session_principal (session_at 0 (redis_node l))) (session_tunnel_count (session_at 0 (redis_node l)))"
  "new_route (redis_node l) 0 (TcpPort 41235) (new_tunnel_id (tunnel_draws port_entropy)) = port_route"
  "route_ttl (app_config (redis_node l)) = 45000"
  unfolding redis_node_facts
  by (simp_all add: resolve_target_def resolve_tcp_target_def default_config_def port_request_def under_limit_def session_new_def
      sample_principal_def default_limits_def session_tunnel_count_def route_ttl_def heartbeat_def)
    (simp add: new_route_def redis_node_facts session_new_def port_route_def port_entropy_def sample_principal_def)

theorem registration_claims_or_rejects_witness:
  "\<exists>w' st. run (register_tunnel (redis_registry ref_store ''norupo:'') 0 port_entropy port_request) (redis_node Up) = Finished w' st \<and>
     st_accepted st \<and> st_routing_key st = as_storage_key (TcpPort 41235) \<and>
     (\<exists>e \<ge> 45000. \<forall>u. live (shared_leases id ''norupo:'') (app_registry w') u = Map.empty(as_storage_key (TcpPort 41235) := valid_until (port_route, e) u))"
proof -
  have "shared_wf id ''norupo:'' (Up, Map.empty)" "live (shared_leases id ''norupo:'') (Up, Map.empty) = (\<lambda>u. Map.empty)"
    using port_facts(3,4) by (simp_all add: shared_wf_def live_def shared_leases_def fun_eq_iff)
  then show ?thesis
    using registration_claims_or_rejects [OF ref_table.shared.routing_table_axioms, where w = "redis_node Up" and a = 0
        and ent = port_entropy and req = port_request, OF redis_node_facts(5)] redis_node_facts(5-7) [of Up]
      redis_node_registers [of Up] port_facts
    by (auto simp: Let_def claimable_def split: prod.splits)
qed

section \<open>Teardown\<close>

lemma set_session_tunnels:
  assumes "set (tkeys (tunnels s)) = dom (tunnels s)"
  shows "set (session_tunnels tkeys s) = ran (tunnels s)"
proof -
  have "set (session_tunnels tkeys s) = {t. \<exists>k \<in> dom (tunnels s). tunnels s k = Some t}"
    unfolding session_tunnels_def map_filter_def assms [symmetric] by force
  then show ?thesis by (auto simp: ran_def)
qed

text \<open>The keys of a list of tunnels.\<close>

definition tunnel_keys :: "tunnel list \<Rightarrow> string set" where
  "tunnel_keys ts = tunnel_routing_key ` set ts"

definition owned_by :: "string \<Rightarrow> lease option \<Rightarrow> bool" where
  "owned_by sid l \<longleftrightarrow> (case l of Some (r, _) \<Rightarrow> rr_session r = sid | None \<Rightarrow> False)"

text \<open>The leases of a table without those of a session on given keys.\<close>

definition without_leases :: "string \<Rightarrow> string set \<Rightarrow> (string \<Rightarrow> lease option) \<Rightarrow> string \<Rightarrow> lease option" where
  "without_leases sid keys f k = (if k \<in> keys \<and> owned_by sid (f k) then None else f k)"

context routing_table
begin

lemma release_step:
  assumes "wf r"
  shows "\<exists>r'. rg_release G t r k sid = (r', Ok ()) \<and> wf r' \<and>
    (\<forall>u \<ge> t. live leases r' u = (if owned_by sid (live leases r t k) then (live leases r u)(k := None) else live leases r u))"
proof (cases "owned_by sid (live leases r t k)")
  case True
  then obtain rec e where "live leases r t k = Some (rec, e)" "rr_session rec = sid"
    by (auto simp: owned_by_def split: option.splits)
  then show ?thesis using release_owner [OF assms, of t k rec e sid] True by auto
next
  case False
  then have "\<exists>r'. rg_release G t r k sid = (r', Ok ()) \<and> wf r' \<and> (\<forall>u \<ge> t. live leases r' u = live leases r u)"
    by (intro release_other [OF assms]) (auto simp: owned_by_def)
  with False show ?thesis by simp
qed

text \<open>Releasing a list of keys.\<close>

lemma run_release_all:
  fixes w :: "('m, 'qo, 'qb, 'o, 'r) server"
  assumes "wf (app_registry w)"
  shows "\<exists>r'. run (for_each (\<lambda>t. call (registry_release G (tunnel_routing_key t) sid) (\<lambda>_. Return ())) ts) w =
      Finished (w\<lparr>app_registry := r'\<rparr>) () \<and> wf r' \<and>
    live leases r' (clock w) = without_leases sid (tunnel_keys ts) (live leases (app_registry w) (clock w))"
  using assms
proof (induction ts arbitrary: w)
  case Nil
  have "w\<lparr>app_registry := app_registry w\<rparr> = w" by simp
  with Nil show ?case
    by (intro exI [of _ "app_registry w"]) (simp add: without_leases_def tunnel_keys_def fun_eq_iff)
next
  case (Cons t ts)
  let ?k = "tunnel_routing_key t" and ?t = "clock w"
  obtain r1 where r1: "rg_release G ?t (app_registry w) ?k sid = (r1, Ok ())" "wf r1"
    "live leases r1 ?t = (if owned_by sid (live leases (app_registry w) ?t ?k)
       then (live leases (app_registry w) ?t)(?k := None) else live leases (app_registry w) ?t)"
    using release_step [OF Cons.prems, of ?t ?k sid] by auto
  let ?w1 = "w\<lparr>app_registry := r1\<rparr>"
  obtain r2 where r2: "run (for_each (\<lambda>t. call (registry_release G (tunnel_routing_key t) sid) (\<lambda>_. Return ())) ts) ?w1 =
      Finished (?w1\<lparr>app_registry := r2\<rparr>) ()" "wf r2"
    "live leases r2 ?t = without_leases sid (tunnel_keys ts) (live leases r1 ?t)"
    using Cons.IH [of ?w1] r1(2) by auto
  have "without_leases sid (tunnel_keys ts) (live leases r1 ?t) =
      without_leases sid (tunnel_keys (t # ts)) (live leases (app_registry w) ?t)"
    by (auto simp: fun_eq_iff without_leases_def tunnel_keys_def r1(3) owned_by_def split: option.splits)
  with r1(1) r2 show ?case by (intro exI [of _ r2]) (simp add: run_call)
qed

end

lemma run_close_all:
  "\<exists>s'. run (for_each (close_stream R) ids) s = Finished s' () \<and> (\<forall>x. streams s' x = (if x \<in> set ids then None else streams s x)) \<and>
    tunnels s' = tunnels s \<and> session_id s' = session_id s"
proof (induction ids arbitrary: s)
  case (Cons i ids)
  obtain s1 where s1: "run (close_stream R i) s = Finished s1 ()" "streams s1 = (streams s)(i := None)"
    "tunnels s1 = tunnels s" "session_id s1 = session_id s"
    by (cases "streams s i") (auto simp: run_close_stream closed_state_def)
  from Cons.IH [of s1] s1 show ?case by (auto simp: run_call)
qed simp

lemma run_teardown:
  assumes "routing_table G leases good storable ttl_ok" "good (app_registry w)" "has_session a w"
    and "set (tkeys (tunnels (session_at a w))) = dom (tunnels (session_at a w))"
    and "set (skeys (streams (session_at a w))) = dom (streams (session_at a w))"
  shows "\<exists>w'. run (teardown R G tkeys skeys a) w = Finished w' () \<and> good (app_registry w') \<and>
    live leases (app_registry w') (clock w) =
      without_leases (session_id (session_at a w)) (tunnel_routing_key ` ran (tunnels (session_at a w)))
        (live leases (app_registry w) (clock w)) \<and>
    streams (session_at a w') = Map.empty \<and> sessions (app_sessions w') (session_id (session_at a w)) = None"
proof -
  let ?s = "session_at a w" and ?ts = "session_tunnels tkeys (session_at a w)"
  have keys: "tunnel_keys ?ts = tunnel_routing_key ` ran (tunnels ?s)"
  proof -
    show ?thesis using set_session_tunnels [of tkeys ?s, OF assms(4)] by (simp add: tunnel_keys_def)
  qed
  obtain r' where r': "run (for_each (\<lambda>t. call (registry_release G (tunnel_routing_key t) (session_id ?s)) (\<lambda>_. Return ())) ?ts) w =
      Finished (w\<lparr>app_registry := r'\<rparr>) ()" "good r'"
    "live leases r' (clock w) = without_leases (session_id ?s) (tunnel_keys ?ts) (live leases (app_registry w) (clock w))"
    using routing_table.run_release_all [OF assms(1,2)] by blast
  obtain s' where s': "run (for_each (close_stream R) (skeys (streams ?s))) ?s = Finished s' ()"
    "\<forall>x. streams s' x = (if x \<in> set (skeys (streams ?s)) then None else streams ?s x)" "session_id s' = session_id ?s"
    using run_close_all by metis
  have "streams s' = Map.empty" using s'(2) assms(5) by (auto simp: fun_eq_iff dom_def)
  with s'(1) r' assms(3) keys show ?thesis
    by (simp add: teardown_def run_call run_on_session close_all_streams_def manager_remove_def session_at_def
        set_session_def has_session_def)
qed

text \<open>C13. A session that ends gives everything back and nothing else. Teardown releases exactly the
  routes the session still owns among its tunnels' keys, so that a key another session has taken over in
  the meantime stays with it; it closes every stream; and the session is gone from the node's table.\<close>

theorem teardown_returns_routes:
  assumes "routing_table G leases good storable ttl_ok" "good (app_registry w)" "has_session a w"
    and "set (tkeys (tunnels (session_at a w))) = dom (tunnels (session_at a w))"
    and "set (skeys (streams (session_at a w))) = dom (streams (session_at a w))"
  shows "\<exists>w'. run (teardown R G tkeys skeys a) w = Finished w' () \<and>
    live leases (app_registry w') (clock w) =
      without_leases (session_id (session_at a w)) (tunnel_routing_key ` ran (tunnels (session_at a w)))
        (live leases (app_registry w) (clock w)) \<and>
    streams (session_at a w') = Map.empty \<and> sessions (app_sessions w') (session_id (session_at a w)) = None"
  using run_teardown [of G leases good storable ttl_ok w a tkeys skeys R, OF assms] by blast

theorem teardown_returns_routes_witness:
  "\<exists>w'. run (teardown ref_runtime memory_registry (\<lambda>_. []) (\<lambda>_. []) 0) sample_node = Finished w' () \<and>
     sessions (app_sessions w') ''sess_1'' = None"
proof -
  have "session_id (session_at 0 sample_node) = ''sess_1''" "tunnels (session_at 0 sample_node) = Map.empty"
    "streams (session_at 0 sample_node) = Map.empty" "has_session 0 sample_node"
    by (simp_all add: sample_node_def session_at_def session_new_def has_session_def)
  then show ?thesis
    using teardown_returns_routes [OF memory_table.routing_table_axioms, where w = sample_node and a = 0
        and tkeys = "\<lambda>_. []" and skeys = "\<lambda>_. []" and R = ref_runtime]
    by auto
qed

section \<open>A registration whose reply is lost\<close>

context redis_table
begin

lemma shared_table: "routing_table (redis_registry ops prefix) (shared_leases entries prefix) (shared_wf entries prefix) tab_free px_ok"
  by (rule shared.routing_table_axioms)

end

text \<open>C32. When the reply to a claim is lost on the way from Redis, the agent is told that its tunnel was rejected although the route is claimed. The
  session has no such tunnel, but until the lease runs out a lookup on any node finds the record of this session, so that visitors of
  the host are sent to it and, as the claim is exclusive, nobody else gets the host. If the session has no other tunnel under this key, not even
  its end gives the route back: after the teardown, on a way that is up again, the lookup still finds it.\<close>

theorem registration_lost_reply:
  fixes w :: "('m, 'qo, 'qb, 'o, link \<times> 'd) server"
  assumes server: "redis_server ops entries" and table: "app_registry w = (LostReply e, db)" "redis_wf entries prefix db"
    and session: "has_session a w" "under_limit (session_principal (session_at a w)) (session_tunnel_count (session_at a w))"
    and target: "resolve_target (app_config w) (session_principal (session_at a w)) (subdomain_draws ent) (ot_spec req) = Ok (key, url)"
    and free: "claimable (live (redis_leases entries prefix) db (clock w) (as_storage_key key)) (session_id (session_at a w))"
    and ok: "tab_free (new_route w a key (new_tunnel_id (tunnel_draws ent)))" "px_ok (route_ttl (app_config w))"
    and new: "as_storage_key key \<notin> tunnel_routing_key ` ran (tunnels (session_at a w))"
    and keys: "set (tkeys (tunnels (session_at a w))) = dom (tunnels (session_at a w))"
      "set (skeys (streams (session_at a w))) = dom (streams (session_at a w))"
  shows "let G = redis_registry ops prefix; record = new_route w a key (new_tunnel_id (tunnel_draws ent)) in
    \<exists>db'. run (register_tunnel G a ent req) w =
        Finished (w\<lparr>app_registry := (LostReply e, db')\<rparr>) (reject (ot_request_id req) (error_to_string (unavailable ''claim'' e))) \<and>
      (\<forall>u. clock w \<le> u \<and> u < clock w + route_ttl (app_config w) \<longrightarrow>
         snd (redis_lookup ops prefix Up u db' (as_storage_key key)) = Ok (Some record) \<and>
         (\<exists>w'. run (teardown R G tkeys skeys a) (w\<lparr>app_registry := (Up, db'), clock := u\<rparr>) = Finished w' () \<and>
            snd (redis_lookup ops prefix Up u (snd (app_registry w')) (as_storage_key key)) = Ok (Some record)))"
proof -
  let ?r = "new_route w a key (new_tunnel_id (tunnel_draws ent))" and ?ttl = "route_ttl (app_config w)" and ?k = "as_storage_key key"
  let ?leases = "redis_leases entries prefix" and ?db = "fst (redis_claim ops prefix Up (clock w) db ?r ?ttl)"
  have tab: "redis_table ops entries" by (simp add: redis_table_def server)
  have [simp]: "rr_key ?r = ?k" "rr_session ?r = session_id (session_at a w)" by (simp_all add: new_route_def)
  have "rr_session r0 = rr_session ?r" if "live ?leases db (clock w) (rr_key ?r) = Some (r0, e0)" for r0 e0
    using free that by (simp add: claimable_def)
  then have "snd (redis_claim ops prefix Up (clock w) db ?r ?ttl) = Ok Acquired"
    using redis_table.free_claim [OF tab table(2) ok(1) le_refl ok(2), of "clock w"] by fastforce
  then obtain x where db: "redis_wf entries prefix ?db" "clock w + ?ttl \<le> x" "\<forall>v \<ge> clock w. live ?leases ?db v ?k = valid_until (?r, x) v"
    using redis_table.lease_of_claim [OF tab table(2) ok(1) _ le_refl ok(2)] by fastforce
  have "rg_claim (redis_registry ops prefix) (clock w) (clock w) (app_registry w) ?r ?ttl =
      ((LostReply e, ?db), Err (unavailable ''claim'' e))"
    by (simp add: table(1) redis_registry_def redis_claim_def case_prod_unfold Let_def map_prod_def)
  then have "run (register_tunnel (redis_registry ops prefix) a ent req) w =
      Finished (w\<lparr>app_registry := (LostReply e, ?db)\<rparr>) (reject (ot_request_id req) (error_to_string (unavailable ''claim'' e)))"
    using run_register_resolved [OF session(2) target session(1), of "redis_registry ops prefix"] by simp
  moreover have "snd (redis_lookup ops prefix Up u ?db ?k) = Ok (Some ?r)" and
    "\<exists>w'. run (teardown R (redis_registry ops prefix) tkeys skeys a) (w\<lparr>app_registry := (Up, ?db), clock := u\<rparr>) = Finished w' () \<and>
       snd (redis_lookup ops prefix Up u (snd (app_registry w')) ?k) = Ok (Some ?r)"
    if u: "clock w \<le> u" "u < clock w + ?ttl" for u
  proof -
    let ?w = "w\<lparr>app_registry := (Up, ?db), clock := u\<rparr>" and ?shared = "shared_leases entries prefix"
    have live: "live ?leases ?db u ?k = Some (?r, x)" using db(2,3) u by (simp add: valid_until_def)
    then show "snd (redis_lookup ops prefix Up u ?db ?k) = Ok (Some ?r)" by (simp add: redis_table.lookup_of [OF tab db(1)])
    have "shared_wf entries prefix (app_registry ?w)" "has_session a ?w" using db(1) session(1) by (simp_all add: shared_wf_def)
    then obtain w' where w': "run (teardown R (redis_registry ops prefix) tkeys skeys a) ?w = Finished w' ()" "shared_wf entries prefix (app_registry w')"
      "live ?shared (app_registry w') u = without_leases (session_id (session_at a w)) (tunnel_routing_key ` ran (tunnels (session_at a w)))
         (live ?shared (Up, ?db) u)"
      using run_teardown [OF redis_table.shared_table [OF tab, of prefix], where w = ?w and a = a and tkeys = tkeys and skeys = skeys and R = R] keys by auto
    have "live ?leases (snd (app_registry w')) u ?k = Some (?r, x)"
      using w'(3) new live by (simp add: without_leases_def live_def shared_leases_def fun_eq_iff)
    then show "\<exists>w'. run (teardown R (redis_registry ops prefix) tkeys skeys a) ?w = Finished w' () \<and>
       snd (redis_lookup ops prefix Up u (snd (app_registry w')) ?k) = Ok (Some ?r)"
      using w'(1,2) by (auto simp: redis_table.lookup_of [OF tab] shared_wf_def)
  qed
  ultimately show ?thesis unfolding Let_def by blast
qed

theorem registration_lost_reply_witness:
  "\<exists>db'. run (register_tunnel (redis_registry ref_store ''norupo:'') 0 port_entropy port_request) (redis_node (LostReply ''io'')) =
      Finished ((redis_node (LostReply ''io''))\<lparr>app_registry := (LostReply ''io'', db')\<rparr>)
        (reject ''req_1'' (error_to_string (unavailable ''claim'' ''io''))) \<and>
    snd (redis_lookup ref_store ''norupo:'' Up 44999 db' (as_storage_key (TcpPort 41235))) = Ok (Some port_route)"
proof -
  let ?w = "redis_node (LostReply ''io'')"
  have "claimable (live (redis_leases id ''norupo:'') Map.empty (clock ?w) (as_storage_key (TcpPort 41235))) (session_id (session_at 0 ?w))"
    "ot_request_id port_request = ''req_1''" "tunnels (session_at 0 ?w) = Map.empty" "streams (session_at 0 ?w) = Map.empty"
    by (simp_all add: port_facts redis_node_facts claimable_def port_request_def session_new_def)
  with registration_lost_reply [OF ref.redis_server_axioms redis_node_facts(7) [of "LostReply ''io''"] port_facts(3) redis_node_facts(5) redis_node_registers(2,1),
      where tkeys = "\<lambda>_. []" and skeys = "\<lambda>_. []" and R = ref_runtime]
    redis_node_registers [of "LostReply ''io''"] redis_node_facts(6) [of "LostReply ''io''"] port_facts
  show ?thesis by (auto simp: Let_def)
qed

section \<open>Heartbeats\<close>

text \<open>One tunnel's renewal: the routing table's answer decides.\<close>

context session_runtime
begin

lemma run_renew_tunnel:
  fixes w :: "('m, 'qo, 'qb, 'o, 'r) server"
  assumes "has_session a w" "\<not> heartbeat_aborted w a" "outbound_room oview 1 (session_at a w)"
    "rg_renew G (clock w) (clock w) (app_registry w) (tunnel_routing_key t) sid ttl = (r', res)"
  shows "\<exists>s'. run (renew_tunnel R G a sid ttl t) w = Finished (set_session a s' (w\<lparr>app_registry := r'\<rparr>)) () \<and>
    tunnels s' = (if res = Ok False then (tunnels (session_at a w))(tunnel_id t := None) else tunnels (session_at a w)) \<and>
    oview (outbound s') = (oview (outbound (session_at a w)))\<lparr>queued := queued (oview (outbound (session_at a w))) @
      (if res = Ok False then [Ok (Some (STunnelStatus \<lparr>st_request_id = [], st_tunnel_id = tunnel_id t, st_accepted = False,
         st_error = ''routing claim lost; reconnect to re-register'', st_public_url = tunnel_public_url t,
         st_routing_key = tunnel_routing_key t\<rparr>))] else [])\<rparr> \<and> session_id s' = session_id (session_at a w)"
proof (cases "res = Ok False")
  case False
  then have "run (renew_tunnel R G a sid ttl t) w = Finished (set_session a (session_at a w) (w\<lparr>app_registry := r'\<rparr>)) ()"
    using assms(1,2,4) set_session_at [of a "w\<lparr>app_registry := r'\<rparr>"]
    by (auto simp: renew_tunnel_def run_call registry_renew_def split: result.splits)
  with False show ?thesis by (intro exI [of _ "session_at a w"]) simp
next
  case True
  let ?s1 = "(session_at a w)\<lparr>tunnels := (tunnels (session_at a w))(tunnel_id t := None)\<rparr>"
  let ?frame = "Some (STunnelStatus \<lparr>st_request_id = [], st_tunnel_id = tunnel_id t, st_accepted = False,
         st_error = ''routing claim lost; reconnect to re-register'', st_public_url = tunnel_public_url t,
         st_routing_key = tunnel_routing_key t\<rparr>)"
  have room: "receiver (oview (outbound ?s1))" "length (queued (oview (outbound ?s1))) < capacity (oview (outbound ?s1))"
    using assms(3) by (simp_all add: outbound_room_def)
  obtain q where q: "chan_send (rt_out R) (outbound ?s1) (Ok ?frame) = Ready q"
    "oview q = (oview (outbound ?s1))\<lparr>queued := queued (oview (outbound ?s1)) @ [Ok ?frame]\<rparr>"
    using out.send_room [OF room] by blast
  have "run (renew_tunnel R G a sid ttl t) w = Finished (set_session a (?s1\<lparr>outbound := q\<rparr>) (w\<lparr>app_registry := r'\<rparr>)) ()"
    using assms(1,2,4) True q(1)
    by (simp add: renew_tunnel_def run_call registry_renew_def run_on_session remove_tunnel_def
        notify_tunnel_lost_def on_session_def session_send_def zoom_await run_zoom [where ok = "has_session a"])
  with True q(2) show ?thesis by (intro exI [of _ "?s1\<lparr>outbound := q\<rparr>"]) simp
qed

end

text \<open>Renewing a list of tunnels, one after the other.\<close>

definition renewed ::
    "string \<Rightarrow> nat \<Rightarrow> nat \<Rightarrow> string set \<Rightarrow> (nat \<Rightarrow> string \<Rightarrow> lease option) \<Rightarrow> (nat \<Rightarrow> string \<Rightarrow> lease option) \<Rightarrow> bool" where
  "renewed sid now ttl keys before after \<longleftrightarrow>
     (\<forall>k. if k \<in> keys \<and> owned_by sid (before now k)
          then \<exists>r e0 e. before now k = Some (r, e0) \<and> now + ttl \<le> e \<and> (\<forall>u \<ge> now. after u k = valid_until (r, e) u)
          else \<forall>u \<ge> now. after u k = before u k)"

lemma renewedI:
  assumes "\<And>k. \<lbrakk>k \<in> keys; owned_by sid (before now k)\<rbrakk> \<Longrightarrow>
      \<exists>r e0 e. before now k = Some (r, e0) \<and> now + ttl \<le> e \<and> (\<forall>u \<ge> now. after u k = valid_until (r, e) u)"
    "\<And>k u. \<lbrakk>\<not> (k \<in> keys \<and> owned_by sid (before now k)); now \<le> u\<rbrakk> \<Longrightarrow> after u k = before u k"
  shows "renewed sid now ttl keys before after"
  unfolding renewed_def using assms by simp

lemma renewed_yes:
  "\<lbrakk>renewed sid now ttl keys before after; k \<in> keys; owned_by sid (before now k)\<rbrakk> \<Longrightarrow>
     \<exists>r e0 e. before now k = Some (r, e0) \<and> now + ttl \<le> e \<and> (\<forall>u \<ge> now. after u k = valid_until (r, e) u)"
  unfolding renewed_def by (drule spec [of _ k]) simp

lemma renewed_no:
  "\<lbrakk>renewed sid now ttl keys before after; \<not> (k \<in> keys \<and> owned_by sid (before now k)); now \<le> u\<rbrakk> \<Longrightarrow>
     after u k = before u k"
  unfolding renewed_def by (drule spec [of _ k]) (simp split: if_splits)

context routing_table
begin

lemma renew_step:
  assumes "wf r" "ttl_ok ttl" "0 < ttl"
  shows "\<exists>r'. rg_renew G t t r k sid ttl = (r', Ok (owned_by sid (live leases r t k))) \<and> wf r' \<and>
    renewed sid t ttl {k} (live leases r) (live leases r')"
proof (cases "owned_by sid (live leases r t k)")
  case True
  then obtain rec e where "live leases r t k = Some (rec, e)" "rr_session rec = sid"
    by (auto simp: owned_by_def split: option.splits)
  then show ?thesis using renew_owner [OF assms(1) le_refl assms(2), of t k rec e sid] True
    by (fastforce simp: renewed_def)
next
  case False
  then have "\<exists>r'. rg_renew G t t r k sid ttl = (r', Ok False) \<and> wf r' \<and> (\<forall>u \<ge> t. live leases r' u = live leases r u)"
    by (intro renew_other [OF assms(1) le_refl assms(2)]) (auto simp: owned_by_def)
  with False show ?thesis by (fastforce simp: renewed_def)
qed

end

lemma renewed_trans:
  assumes "renewed sid now ttl {k} before mid" "renewed sid now ttl keys mid after" "0 < ttl"
  shows "renewed sid now ttl (insert k keys) before after"
proof (rule renewedI)
  fix x
  assume own: "x \<in> insert k keys" "owned_by sid (before now x)"
  show "\<exists>r e0 e. before now x = Some (r, e0) \<and> now + ttl \<le> e \<and> (\<forall>u \<ge> now. after u x = valid_until (r, e) u)"
  proof (cases "x = k")
    case True
    obtain r e0 e where r: "before now x = Some (r, e0)" "now + ttl \<le> e" "\<forall>u \<ge> now. mid u x = valid_until (r, e) u"
      using renewed_yes [OF assms(1) _ own(2)] True by auto
    then have mid: "mid now x = Some (r, e)" using assms(3) by (simp add: valid_until_def)
    have "rr_session r = sid" using own(2) r(1) by (simp add: owned_by_def)
    then have "owned_by sid (mid now x)" using mid by (simp add: owned_by_def)
    then show ?thesis
      using renewed_yes [OF assms(2), of x] renewed_no [OF assms(2), of x] mid r by (cases "x \<in> keys") auto
  next
    case False
    then have mid: "u \<ge> now \<Longrightarrow> mid u x = before u x" for u using renewed_no [OF assms(1), of x u] by simp
    then show ?thesis using renewed_yes [OF assms(2), of x] own False by auto
  qed
next
  fix x u
  assume other: "\<not> (x \<in> insert k keys \<and> owned_by sid (before now x))" and u: "now \<le> u"
  then have mid: "mid v x = before v x" if "now \<le> v" for v using renewed_no [OF assms(1), of x v] that by auto
  then have "\<not> (x \<in> keys \<and> owned_by sid (mid now x))" using other by auto
  then show "after u x = before u x" using renewed_no [OF assms(2), of x u] mid u by simp
qed

lemma renewed_owned:
  assumes "renewed sid now ttl keys before after" "0 < ttl"
  shows "owned_by sid (after now k) = owned_by sid (before now k)"
proof (cases "k \<in> keys \<and> owned_by sid (before now k)")
  case True
  then show ?thesis using renewed_yes [OF assms(1), of k] assms(2) by (auto simp: owned_by_def valid_until_def)
next
  case False
  then show ?thesis using renewed_no [OF assms(1) False order_refl] by simp
qed

lemma renewed_none: "renewed sid now ttl {} f f"
  by (rule renewedI) auto

text \<open>The tunnels a session keeps after a round of renewals: all but those of the list whose key it no
  longer owns.\<close>

definition kept_tunnels ::
    "string \<Rightarrow> (string \<Rightarrow> lease option) \<Rightarrow> tunnel list \<Rightarrow> (string \<rightharpoonup> tunnel) \<Rightarrow> (string \<rightharpoonup> tunnel)" where
  "kept_tunnels sid leases ts m =
     (\<lambda>x. if \<exists>t \<in> set ts. tunnel_id t = x \<and> \<not> owned_by sid (leases (tunnel_routing_key t)) then None else m x)"

lemma run_renew_all:
  assumes "session_runtime R sview oview bview hview" "routing_table G leases good storable ttl_ok" "has_session a w"
    "\<not> heartbeat_aborted w a" "outbound_room oview (length ts) (session_at a w)" "good (app_registry w)" "ttl_ok ttl" "0 < ttl"
  shows "\<exists>w'. run (for_each (renew_tunnel R G a sid ttl) ts) w = Finished w' () \<and>
    renewed sid (clock w) ttl (tunnel_keys ts) (live leases (app_registry w)) (live leases (app_registry w')) \<and>
    tunnels (session_at a w') = kept_tunnels sid (live leases (app_registry w) (clock w)) ts (tunnels (session_at a w)) \<and>
    good (app_registry w')"
  using assms(3-6)
proof (induction ts arbitrary: w)
  case Nil
  then show ?case by (auto simp: renewed_none tunnel_keys_def kept_tunnels_def)
next
  case (Cons t ts)
  let ?k = "tunnel_routing_key t" and ?now = "clock w" and ?s = "session_at a w"
  let ?own = "owned_by sid (live leases (app_registry w) ?now ?k)"
  obtain r1 where r1: "rg_renew G ?now ?now (app_registry w) ?k sid ttl = (r1, Ok ?own)" "good r1"
    "renewed sid ?now ttl {?k} (live leases (app_registry w)) (live leases r1)"
    using routing_table.renew_step [OF assms(2) Cons.prems(4) assms(7,8)] by blast
  have "outbound_room oview 1 ?s" using Cons.prems(3) by (auto simp: outbound_room_def)
  then obtain s1 where s1: "run (renew_tunnel R G a sid ttl t) w = Finished (set_session a s1 (w\<lparr>app_registry := r1\<rparr>)) ()"
    "tunnels s1 = (if ?own then tunnels ?s else (tunnels ?s)(tunnel_id t := None))"
    "capacity (oview (outbound s1)) = capacity (oview (outbound ?s))" "receiver (oview (outbound s1)) = receiver (oview (outbound ?s))"
    "length (queued (oview (outbound s1))) \<le> length (queued (oview (outbound ?s))) + 1"
    using session_runtime.run_renew_tunnel [OF assms(1) Cons.prems(1,2) _ r1(1)] by (auto split: if_splits)
  let ?w1 = "set_session a s1 (w\<lparr>app_registry := r1\<rparr>)"
  have has: "has_session a (w\<lparr>app_registry := r1\<rparr>)" using Cons.prems(1) by simp
  have "outbound_room oview (length ts) s1" using Cons.prems(3) s1(3-5) by (auto simp: outbound_room_def)
  then obtain w' where w': "run (for_each (renew_tunnel R G a sid ttl) ts) ?w1 = Finished w' ()"
    "renewed sid ?now ttl (tunnel_keys ts) (live leases r1) (live leases (app_registry w'))"
    "tunnels (session_at a w') = kept_tunnels sid (live leases r1 ?now) ts (tunnels s1)" "good (app_registry w')"
    using Cons.IH [of ?w1] Cons.prems(1,2) r1(2) has by (auto simp: session_at_set [OF has])
  have "renewed sid ?now ttl (tunnel_keys (t # ts)) (live leases (app_registry w)) (live leases (app_registry w'))"
    using renewed_trans [OF r1(3) w'(2) assms(8)] by (simp add: tunnel_keys_def)
  moreover have "kept_tunnels sid (live leases r1 ?now) ts (tunnels s1) =
      kept_tunnels sid (live leases (app_registry w) ?now) (t # ts) (tunnels ?s)"
    using renewed_owned [OF r1(3) assms(8)] s1(2) by (auto simp: kept_tunnels_def fun_eq_iff)
  ultimately show ?case using s1(1) w' by (intro exI [of _ w']) (simp add: run_call)
qed

text \<open>C12. A heartbeat keeps the routes alive. One beat, with the agent's queue open, renews every route the
  session still owns to at least the configured time from now, changes no other lease, and drops from the
  session exactly the tunnels whose key it no longer owns.\<close>

theorem beat_renews_routes:
  assumes "session_runtime R sview oview bview hview" "routing_table G leases good storable ttl_ok" "has_session a w"
    and "\<not> heartbeat_aborted w a" "good (app_registry w)" "ttl_ok ttl" "0 < ttl"
    and "outbound_room oview (Suc (length (session_tunnels tkeys (session_at a w)))) (session_at a w)"
    and "set (tkeys (tunnels (session_at a w))) = dom (tunnels (session_at a w))"
    and "\<forall>x t. tunnels (session_at a w) x = Some t \<longrightarrow> tunnel_id t = x"
  shows "\<exists>w'. run (beat R G tkeys a ttl p) w = Finished w' True \<and>
    renewed (session_id (session_at a w)) (clock w) ttl (tunnel_routing_key ` ran (tunnels (session_at a w)))
      (live leases (app_registry w)) (live leases (app_registry w')) \<and>
    tunnels (session_at a w') = (\<lambda>x. case tunnels (session_at a w) x of None \<Rightarrow> None
      | Some t \<Rightarrow> if owned_by (session_id (session_at a w)) (live leases (app_registry w) (clock w) (tunnel_routing_key t))
          then Some t else None)"
proof -
  let ?s = "session_at a w" and ?ts = "session_tunnels tkeys (session_at a w)" and ?sid = "session_id (session_at a w)"
  have room: "receiver (oview (outbound ?s))" "length (queued (oview (outbound ?s))) < capacity (oview (outbound ?s))"
    using assms(8) by (simp_all add: outbound_room_def)
  have chan: "channel (rt_out R) oview" using assms(1) by (simp add: session_runtime_def)
  obtain q where q: "chan_send (rt_out R) (outbound ?s) (Ok (Some (SPing (beat_ping p)))) = Ready q"
    "oview q = (oview (outbound ?s))\<lparr>queued := queued (oview (outbound ?s)) @ [Ok (Some (SPing (beat_ping p)))]\<rparr>"
    using channel.send_room [OF chan room] by blast
  let ?w1 = "set_session a (?s\<lparr>outbound := q\<rparr>) w"
  have sent: "run (cancellable (\<lambda>w. heartbeat_aborted w a) (on_session a (session_send R (Some (SPing (beat_ping p)))))) w = Finished ?w1 True"
    using assms(4) q(1) by (simp add: on_session_def session_send_def zoom_await)
  have at1: "session_at a ?w1 = ?s\<lparr>outbound := q\<rparr>" using assms(3) by simp
  have ts: "session_tunnels tkeys (session_at a ?w1) = ?ts" by (simp add: at1 session_tunnels_def)
  have "outbound_room oview (length ?ts) (session_at a ?w1)" using assms(8) q(2) by (simp add: at1 outbound_room_def)
  then obtain w' where w': "run (for_each (renew_tunnel R G a ?sid ttl) ?ts) ?w1 = Finished w' ()"
    "renewed ?sid (clock w) ttl (tunnel_keys ?ts) (live leases (app_registry w)) (live leases (app_registry w'))"
    "tunnels (session_at a w') = kept_tunnels ?sid (live leases (app_registry w) (clock w)) ?ts (tunnels ?s)"
    using run_renew_all [OF assms(1,2), of a ?w1 ?ts ttl ?sid] assms(3-7) at1 by auto
  have tset: "set ?ts = ran (tunnels ?s)" by (rule set_session_tunnels [of tkeys ?s, OF assms(9)])
  have "run (beat R G tkeys a ttl p) w = Finished w' True"
    using w'(1) by (simp add: beat_def run_call sent ts) (simp add: at1)
  moreover have "kept_tunnels ?sid (live leases (app_registry w) (clock w)) ?ts (tunnels ?s) =
      (\<lambda>x. case tunnels ?s x of None \<Rightarrow> None
      | Some t \<Rightarrow> if owned_by ?sid (live leases (app_registry w) (clock w) (tunnel_routing_key t)) then Some t else None)"
    using assms(10) by (fastforce simp: kept_tunnels_def tset ran_def fun_eq_iff split: option.splits)
  ultimately show ?thesis using w' tset by (intro exI [of _ w']) (simp add: tunnel_keys_def)
qed

text \<open>A node whose session serves one tunnel and owns its route.\<close>

definition serving_node ::
    "(sem_view, outbound_item chan_view, chunk chan_view, http_response_head slot, mem_table) server" where
  "serving_node = (set_session 0 ((session_at 0 sample_node)\<lparr>tunnels := [''tun_1'' \<mapsto> \<lparr>tunnel_id = ''tun_1'',
       tunnel_routing_key = ''api.tunnel.com'', tunnel_public_url = ''https://api.tunnel.com''\<rparr>]\<rparr>) sample_node)
     \<lparr>app_registry := [''api.tunnel.com'' \<mapsto> (example_record ''sess_1'', 45)], clock := 15\<rparr>"

theorem beat_renews_routes_witness:
  "\<exists>w'. run (beat ref_runtime memory_registry (\<lambda>_. [''tun_1'']) 0 45 (7, 0)) serving_node =
      Finished w' True \<and> tunnels (session_at 0 w') ''tun_1'' \<noteq> None"
proof -
  have s: "session_at 0 serving_node = (session_new ref_runtime ''sess_1'' ''node_a'' (sample_principal 4) 65536)
      \<lparr>tunnels := [''tun_1'' \<mapsto> \<lparr>tunnel_id = ''tun_1'', tunnel_routing_key = ''api.tunnel.com'',
        tunnel_public_url = ''https://api.tunnel.com''\<rparr>]\<rparr>" "has_session 0 serving_node" "clock serving_node = 15"
      "\<not> heartbeat_aborted serving_node 0" "app_registry serving_node = [''api.tunnel.com'' \<mapsto> (example_record ''sess_1'', 45)]"
    by (simp_all add: serving_node_def session_at_def set_session_def sample_node_def has_session_def)
  have room: "outbound_room id (Suc (length (session_tunnels (\<lambda>_. [''tun_1'']) (session_at 0 serving_node)))) (session_at 0 serving_node)"
    by (simp add: s outbound_room_def session_tunnels_def map_filter_def session_new_def ref_runtime_def ref_chan_def OUTBOUND_QUEUE_def)
  have ids: "\<forall>x t. tunnels (session_at 0 serving_node) x = Some t \<longrightarrow> tunnel_id t = x"
    "set [''tun_1''] = dom (tunnels (session_at 0 serving_node))"
    by (auto simp: s(1) split: if_splits)
  have pos: "(0::nat) < 45" by simp
  obtain w' where w': "run (beat ref_runtime memory_registry (\<lambda>_. [''tun_1'']) 0 45 (7, 0))
      serving_node = Finished w' True"
    "tunnels (session_at 0 w') = (\<lambda>x. case tunnels (session_at 0 serving_node) x of None \<Rightarrow> None
      | Some t \<Rightarrow> if owned_by (session_id (session_at 0 serving_node))
            (live id (app_registry serving_node) (clock serving_node) (tunnel_routing_key t)) then Some t else None)"
    using beat_renews_routes [of ref_runtime id id id id memory_registry id "\<lambda>_. True" "\<lambda>_. True" "\<lambda>_. True" 0
        serving_node 45 "\<lambda>_. [''tun_1'']", OF ref_rt.session_runtime_axioms memory_table.routing_table_axioms s(2) s(4)
        TrueI TrueI pos room ids(2) ids(1)] by blast
  have "tunnels (session_at 0 w') ''tun_1'' \<noteq> None"
    unfolding w'(2) by (simp add: s owned_by_def live_def example_record_def session_new_def)
  with w'(1) show ?thesis by blast
qed

section \<open>Routing keys with tabs\<close>

definition tabbed_domain :: string where
  "tabbed_domain = ''x'' @ tab_char # ''node_b'' @ tab_char # ''10.0.0.66'' @ tab_char # ''sess_9'' @ tab_char #
     ''tun_9'' @ tab_char # ''acct.dev.example.com''"

text \<open>C40. A custom domain with tabs forges the record that the shared routing table stores. An account whose
  wildcard covers a domain can register a host that contains tabs, because canonicalisation accepts
  them; the stored text then reads back as a different record, whose node, peer address and owning
  session are text the agent chose.\<close>

theorem tabbed_domain_forges_record:
  "resolve_http_target cfg (p\<lparr>custom_domains := [''*.dev.example.com'']\<rparr>) draws
      \<lparr>hs_subdomain = [], hs_custom_domain = tabbed_domain, hs_forward_to = f, hs_rewrite_host_header = b\<rparr> =
      Ok (Host tabbed_domain, public_url cfg tabbed_domain) \<and>
   decode (encode (new_route w a (Host tabbed_domain) tid)) =
      Ok \<lparr>rr_key = ''x'', rr_node_id = ''node_b'', rr_node_addr = ''10.0.0.66'', rr_session = ''sess_9'',
          rr_tunnel = ''tun_9'', rr_account = ''acct.dev.example.com''\<rparr> \<and>
   lua_owner (encode (new_route w a (Host tabbed_domain) tid)) = Some ''sess_9''"
proof -
  have norm: "normalize_host tabbed_domain = Ok tabbed_domain" by code_simp
  have allowed: "domain_allowed ''*.dev.example.com'' tabbed_domain" by code_simp
  have "\<exists>rest. split_on tab_char (encode (new_route w a (Host tabbed_domain) tid)) =
      [''x'', ''node_b'', ''10.0.0.66'', ''sess_9'', ''tun_9'', ''acct.dev.example.com''] @ rest"
    by (simp add: encode_def new_route_def tabbed_domain_def)
  then have fields: "decode (encode (new_route w a (Host tabbed_domain) tid)) =
      Ok \<lparr>rr_key = ''x'', rr_node_id = ''node_b'', rr_node_addr = ''10.0.0.66'', rr_session = ''sess_9'',
          rr_tunnel = ''tun_9'', rr_account = ''acct.dev.example.com''\<rparr>"
    "lua_owner (encode (new_route w a (Host tabbed_domain) tid)) = Some ''sess_9''"
    by (auto simp: decode_fields lua_owner_def)
  show ?thesis
    using norm allowed fields by (simp add: resolve_http_target_def may_use_custom_domain_def tabbed_domain_def)
qed

end
