(* ===== verification/Ingress_Properties.thy ===== *)
theory Ingress_Properties
  imports Ingress Control_Properties
begin

text \<open>
  What the ingress guarantees: where a request goes, that it crosses at most one hop between nodes, that
  an upload stays within the agent's credit and arrives intact, that a request waits for its answer
  and gets it, and that the stream of an answered request is given back.
\<close>

section \<open>Routing a request\<close>

text \<open>The state after a routing table call.\<close>

definition same_leases :: "('r \<Rightarrow> string \<Rightarrow> lease option) \<Rightarrow> nat \<Rightarrow> 'r \<Rightarrow> 'r \<Rightarrow> bool" where
  "same_leases leases now r r' \<longleftrightarrow> (\<forall>u \<ge> now. live leases r' u = live leases r u)"

text \<open>What the handler does with the answer of the table, and the clean-up of a route whose session is gone.\<close>

lemma run_handle_found:
  assumes "\<not> starts_with (uri_path (req_uri req)) INTERNAL_PREFIX" "request_host lib req = Some host" "normalize_host host = Ok key"
    and "rg_lookup G (clock w) (app_registry w) key = (r, Ok found)"
  shows "run (handle R G lib js keys tkeys P role req addr) w =
    (case found of
       None \<Rightarrow> Finished (w\<lparr>app_registry := r\<rparr>) (tunnel_not_found key)
     | Some record \<Rightarrow>
         if rr_node_id record = app_node_id w then
           (case sessions (app_sessions w) (rr_session record) of
              Some a \<Rightarrow> run (forward_local R lib a record req addr) (w\<lparr>app_registry := r\<rparr>)
            | None \<Rightarrow> Finished (w\<lparr>app_registry := fst (rg_release G (clock w) r key (rr_session record))\<rparr>) (tunnel_not_found key))
         else if role = Peer \<or> contains_key HOP_HEADER (req_headers req) then
           Finished (w\<lparr>app_registry := r\<rparr>) (error_page 508 ''Routing loop''
             ''The edge cluster disagreed about which node owns this tunnel. Retry in a moment.'')
         else run (peer_forward lib P record req) (w\<lparr>app_registry := r\<rparr>))"
  using assms by (simp add: handle_def run_call manager_get_def case_prod_unfold split: option.split)

lemma stale_route_released:
  assumes "routing_table G leases good storable ttl_ok" "good r" "same_leases leases now (app_registry w) r"
    and "live leases (app_registry w) now key = Some (record, e)"
  shows "\<forall>u \<ge> now. live leases (fst (rg_release G now r key (rr_session record))) u = (live leases (app_registry w) u)(key := None)"
proof -
  have rg: "registry (rg_claim G) (rg_lookup G) (rg_renew G) (rg_release G) leases good storable ttl_ok"
    using assms(1) by (simp add: routing_table_def)
  have "live leases r now key = Some (record, e)" using assms(3,4) by (simp add: same_leases_def)
  from registry.release_owner [OF rg assms(2) this refl] assms(3) show ?thesis
    by (auto simp: same_leases_def)
qed

text \<open>Where a request for a key has to go, by the table and the sessions of the node.\<close>

datatype destination = Nowhere | OverSession nat route_record | StaleClaim route_record | OverNode route_record

definition destination_of :: "('r \<Rightarrow> string \<Rightarrow> lease option) \<Rightarrow> ('m, 'qo, 'qb, 'o, 'r) server \<Rightarrow> string \<Rightarrow> destination" where
  "destination_of leases w key = (case live leases (app_registry w) (clock w) key of
     None \<Rightarrow> Nowhere
   | Some (record, _) \<Rightarrow>
       if rr_node_id record \<noteq> app_node_id w then OverNode record
       else (case sessions (app_sessions w) (rr_session record) of Some a \<Rightarrow> OverSession a record | None \<Rightarrow> StaleClaim record))"

text \<open>What such a request may touch: the one session it goes over, and of the leases at most the stale one of its own key.\<close>

definition confined ::
    "('r \<Rightarrow> string \<Rightarrow> lease option) \<Rightarrow> destination \<Rightarrow> string \<Rightarrow> ('m, 'qo, 'qb, 'o, 'r) server \<Rightarrow> ('m, 'qo, 'qb, 'o, 'r) server \<Rightarrow> bool" where
  "confined leases d key w w' \<longleftrightarrow>
     (\<forall>b. (\<forall>record. d \<noteq> OverSession b record) \<longrightarrow> session_at b w' = session_at b w) \<and>
     sessions (app_sessions w') = sessions (app_sessions w) \<and> app_node_id w' = app_node_id w \<and> app_config w' = app_config w \<and> clock w' = clock w \<and>
     (same_leases leases (clock w) (app_registry w) (app_registry w') \<or>
      (\<exists>record. d = StaleClaim record) \<and>
      (\<forall>u \<ge> clock w. live leases (app_registry w') u = (live leases (app_registry w) u)(key := None)))"

lemma confined_refl: "confined leases d key w w"
  by (simp add: confined_def same_leases_def)

lemma confined_set_session: "confined leases (OverSession a record) key w w' \<Longrightarrow> confined leases (OverSession a record) key w (set_session a s w')"
  by (auto simp: confined_def)

lemma confined_registry:
  "confined leases d key w w' \<Longrightarrow> \<forall>u \<ge> clock w. live leases r u = live leases (app_registry w') u \<Longrightarrow>
   confined leases d key w (w'\<lparr>app_registry := r\<rparr>)"
  by (simp add: confined_def same_leases_def)

context routing_table
begin

lemma on_session_confined:
  "keeps (\<lambda>w'. confined leases (OverSession a record) key w w' \<and> wf (app_registry w')) (on_session a m)"
  unfolding on_session_def by (rule keeps_zoom_any) (simp add: confined_set_session)

lemma forward_local_confined:
  fixes w :: "('m, 'qo, 'qb, 'o, 'r) server"
  shows "keeps (\<lambda>w'. confined leases (OverSession a record) key w w' \<and> wf (app_registry w')) (forward_local R lib a record' req addr)"
    (is "keeps ?I _")
proof -
  have head: "keeps ?I (await_head R a st deadline)" for st deadline
    unfolding await_head_def by (rule keeps_await) (simp split: option.splits if_splits)
  have finish: "keeps ?I (finish_forward R lib a sid st answer)" for sid st answer
    unfolding finish_forward_def
    by (simp split: option.split, intro conjI allI impI keeps_call on_session_confined keeps_read keeps.Return)
  show ?thesis
    unfolding forward_local_def Let_def
    by (rule keeps_call [OF on_session_confined])
      (simp split: result.split open_error.split, intro conjI allI impI keeps_spawn keeps_call on_session_confined keeps_read head finish)
qed

lemma release_confined:
  fixes w :: "('m, 'qo, 'qb, 'o, 'r) server"
  assumes s: "confined leases (StaleClaim x) key w s" "wf (app_registry s)"
  shows "confined leases (StaleClaim x) key w (s\<lparr>app_registry := fst (rg_release G (clock s) (app_registry s) key sid)\<rparr>) \<and>
    wf (fst (rg_release G (clock s) (app_registry s) key sid))"
proof -
  have c: "clock s = clock w" using s by (simp add: confined_def)
  obtain r where r: "rg_release G (clock w) (app_registry s) key sid = (r, Ok ())" "wf r"
    "\<forall>u \<ge> clock w. live leases r u = (if owned_by sid (live leases (app_registry s) (clock w) key)
       then (live leases (app_registry s) u)(key := None) else live leases (app_registry s) u)"
    using release_step [of "app_registry s" "clock w" key sid] s by auto
  show ?thesis
    using s c r by (cases "owned_by sid (live leases (app_registry s) (clock w) key)") (auto simp: confined_def same_leases_def)
qed

lemma own_route_confined:
  fixes w :: "('m, 'qo, 'qb, 'o, 'r) server"
  assumes route: "live leases (app_registry w) (clock w) key = Some (x, e)" "rr_node_id x = app_node_id w"
  shows "keeps (\<lambda>w'. confined leases (destination_of leases w key) key w w' \<and> wf (app_registry w'))
    (call (read (\<lambda>w. manager_get (rr_session x) (app_sessions w))) (\<lambda>session. case session of
      Some a \<Rightarrow> forward_local R lib a x req addr
    | None \<Rightarrow> call (registry_release G key (rr_session x)) (\<lambda>_. Return (tunnel_not_found key))))"
    (is "keeps ?I _")
proof (rule keeps_read_then)
  fix s assume "?I s"
  then have same: "sessions (app_sessions s) = sessions (app_sessions w)" by (simp add: confined_def)
  show "keeps ?I (case manager_get (rr_session x) (app_sessions s) of
      Some a \<Rightarrow> forward_local R lib a x req addr
    | None \<Rightarrow> call (registry_release G key (rr_session x)) (\<lambda>_. Return (tunnel_not_found key)))"
  proof (cases "sessions (app_sessions w) (rr_session x)")
    case None
    then have "destination_of leases w key = StaleClaim x" using route by (simp add: destination_of_def)
    moreover have "keeps (\<lambda>w'. confined leases (StaleClaim x) key w w' \<and> wf (app_registry w')) (registry_release G key (rr_session x))"
      unfolding registry_release_def using release_confined [of x key w _ "rr_session x"]
      by (intro keeps_atomically) (simp add: case_prod_unfold Let_def)
    ultimately show ?thesis using None same by (simp add: manager_get_def keeps_call)
  next
    case (Some a)
    then have "destination_of leases w key = OverSession a x" using route by (simp add: destination_of_def)
    with forward_local_confined [of a x key w] Some same show ?thesis by (simp add: manager_get_def)
  qed
qed

lemma handle_confined:
  fixes w :: "('m, 'qo, 'qb, 'o, 'r) server"
  assumes "\<not> starts_with (uri_path (req_uri req)) INTERNAL_PREFIX" "request_host lib req = Some host" "normalize_host host = Ok key"
  shows "keeps (\<lambda>w'. confined leases (destination_of leases w key) key w w' \<and> wf (app_registry w')) (handle R G lib js keys tkeys P role req addr)"
    (is "keeps ?I _")
proof -
  have peer: "keeps ?I (peer_forward lib P x req)" for x
    unfolding peer_forward_def by (auto split: result.split option.splits intro!: keeps_call keeps_await)
  have found: "keeps ?I (call (read app_node_id) (\<lambda>node.
      if rr_node_id x = node then
        call (read (\<lambda>w. manager_get (rr_session x) (app_sessions w))) (\<lambda>session. case session of
          Some a \<Rightarrow> forward_local R lib a x req addr
        | None \<Rightarrow> call (registry_release G key (rr_session x)) (\<lambda>_. Return (tunnel_not_found key)))
      else if role = Peer \<or> contains_key HOP_HEADER (req_headers req) then
        Return (error_page 508 ''Routing loop''
          ''The edge cluster disagreed about which node owns this tunnel. Retry in a moment.'')
      else peer_forward lib P x req))"
    if "live leases (app_registry w) (clock w) key = Some (x, e)" for x e
    by (rule keeps_read_then) (use own_route_confined [OF that] peer in \<open>auto simp: confined_def\<close>)
  show ?thesis
    unfolding handle_def registry_lookup_def
  proof (simp add: assms, rule keeps_atomically_then, goal_cases)
    case (1 s)
    then have c: "clock s = clock w" by (simp add: confined_def)
    obtain r where r: "rg_lookup G (clock s) (app_registry s) key = (r, Ok (map_option fst (live leases (app_registry s) (clock w) key)))"
      "wf r" "\<forall>u \<ge> clock w. live leases r u = live leases (app_registry s) u"
      using lookup_live [of "app_registry s" "clock w" key] 1 c by auto
    have I: "?I (s\<lparr>app_registry := r\<rparr>)" using 1 r confined_registry by auto
    have kept: "live leases (app_registry w) (clock w) key = Some x" if "live leases (app_registry s) (clock w) key = Some x" for x
      using 1 that by (auto simp: confined_def same_leases_def)
    show ?case
    proof (cases "live leases (app_registry s) (clock w) key")
      case None
      then have "rg_lookup G (clock s) (app_registry s) key = (r, Ok None)" using r(1) by simp
      with I show ?thesis by simp
    next
      case (Some p)
      obtain x e where p: "p = (x, e)" by force
      then have "rg_lookup G (clock s) (app_registry s) key = (r, Ok (Some x))" using r(1) Some by simp
      moreover have "live leases (app_registry w) (clock w) key = Some (x, e)" using kept Some p by simp
      ultimately show ?thesis using I found by simp
    qed
  qed
qed

end

lemma run_handle_destination:
  fixes w :: "('m, 'qo, 'qb, 'o, 'r) server"
  assumes "routing_table G leases good storable ttl_ok"
    and "\<not> starts_with (uri_path (req_uri req)) INTERNAL_PREFIX" "request_host lib req = Some host" "normalize_host host = Ok key"
    and "good (app_registry w)"
  shows "let task = handle R G lib js keys tkeys P role req addr in
    \<exists>r. same_leases leases (clock w) (app_registry w) r \<and>
      (case destination_of leases w key of
         Nowhere \<Rightarrow> run task w = Finished (w\<lparr>app_registry := r\<rparr>) (tunnel_not_found key)
       | OverSession a record \<Rightarrow> run task w = run (forward_local R lib a record req addr) (w\<lparr>app_registry := r\<rparr>)
       | StaleClaim record \<Rightarrow> \<exists>r'. run task w = Finished (w\<lparr>app_registry := r'\<rparr>) (tunnel_not_found key) \<and>
           (\<forall>u \<ge> clock w. live leases r' u = (live leases (app_registry w) u)(key := None))
       | OverNode record \<Rightarrow>
           if role = Peer \<or> contains_key HOP_HEADER (req_headers req)
           then \<exists>page. res_status page = 508 \<and> run task w = Finished (w\<lparr>app_registry := r\<rparr>) page
           else run task w = run (peer_forward lib P record req) (w\<lparr>app_registry := r\<rparr>))"
proof -
  obtain r where r: "rg_lookup G (clock w) (app_registry w) key = (r, Ok (map_option fst (live leases (app_registry w) (clock w) key)))" "good r"
    "same_leases leases (clock w) (app_registry w) r"
    using registry.lookup_live [OF routing_table.axioms [OF assms(1)] assms(5), of "clock w" key] by (auto simp: same_leases_def)
  show ?thesis
    unfolding Let_def using run_handle_found [OF assms(2-4) r(1), of R js keys tkeys P role addr] r(3) stale_route_released [OF assms(1) r(2,3), of key]
    by (intro exI [of _ r]) (auto simp: destination_of_def error_page_def split: option.splits)
qed

text \<open>C9. Where a request goes, and what it touches on its way. A path of the node's own endpoints is answered there. Without a host, or with
  one that has no canonical form, the answer is a 400 and nothing has changed. When the table gives an error, the answer is a 502. When it works,
  what it has at that moment for the canonical form of the host decides: nothing, a labelled 404; a route of this node whose
  session is here, the request is forwarded over that session; one whose session is gone, the stale claim, and no other
  lease, is taken out of the table, and the answer is the 404; a route of another node, handed to it, except on the peer listener or
  with the mark of a hop, where the answer is 508. And as long as the request, its upload included, goes on, in every order of their steps, no session but the one that
  the table names for the host changes in any way, and no lease but the stale one.\<close>

theorem request_routed:
  fixes w :: "('m, 'qo, 'qb, 'o, 'r) server"
  assumes "routing_table G leases good storable ttl_ok"
  shows "let task = handle R G lib js keys tkeys P role req addr in
    if starts_with (uri_path (req_uri req)) INTERNAL_PREFIX
    then run task w = Finished w (internal_endpoint js keys tkeys w role (uri_path (req_uri req)))
    else case map_option normalize_host (request_host lib req) of
      Some (Ok key) \<Rightarrow>
        (\<forall>r e. rg_lookup G (clock w) (app_registry w) key = (r, Err e) \<longrightarrow>
           (\<exists>page. res_status page = 502 \<and> run task w = Finished (w\<lparr>app_registry := r\<rparr>) page)) \<and>
        (good (app_registry w) \<longrightarrow>
           (\<exists>r. same_leases leases (clock w) (app_registry w) r \<and>
             (case destination_of leases w key of
                Nowhere \<Rightarrow> run task w = Finished (w\<lparr>app_registry := r\<rparr>) (tunnel_not_found key)
              | OverSession a record \<Rightarrow> run task w = run (forward_local R lib a record req addr) (w\<lparr>app_registry := r\<rparr>)
              | StaleClaim record \<Rightarrow> \<exists>r'. run task w = Finished (w\<lparr>app_registry := r'\<rparr>) (tunnel_not_found key) \<and>
                  (\<forall>u \<ge> clock w. live leases r' u = (live leases (app_registry w) u)(key := None))
              | OverNode record \<Rightarrow>
                  if role = Peer \<or> contains_key HOP_HEADER (req_headers req)
                  then \<exists>page. res_status page = 508 \<and> run task w = Finished (w\<lparr>app_registry := r\<rparr>) page
                  else run task w = run (peer_forward lib P record req) (w\<lparr>app_registry := r\<rparr>))) \<and>
           (\<forall>w' ts. pool_step\<^sup>*\<^sup>* (w, [task]) (w', ts) \<longrightarrow> confined leases (destination_of leases w key) key w w'))
    | _ \<Rightarrow> \<exists>page. res_status page = 400 \<and> run task w = Finished w page"
proof (cases "starts_with (uri_path (req_uri req)) INTERNAL_PREFIX")
  case True
  then show ?thesis by (simp add: handle_def Let_def)
next
  case False
  consider (none) "request_host lib req = None" | (bad) host e where "request_host lib req = Some host" "normalize_host host = Err e"
    | (key) host key where "request_host lib req = Some host" "normalize_host host = Ok key"
    by (metis option.exhaust result.exhaust)
  then show ?thesis
  proof cases
    case (key host key)
    let ?task = "handle R G lib js keys tkeys P role req addr" and ?found = "live leases (app_registry w) (clock w) key"
    have failed: "\<exists>page. res_status page = 502 \<and> run ?task w = Finished (w\<lparr>app_registry := r\<rparr>) page"
      if "rg_lookup G (clock w) (app_registry w) key = (r, Err e)" for r e
      using that False key by (simp add: handle_def run_call error_page_def)
    have touched: "confined leases (destination_of leases w key) key w w'"
      if "good (app_registry w)" "pool_step\<^sup>*\<^sup>* (w, [?task]) (w', ts)" for w' ts
      using pool_keeps [OF that(2), where I = "\<lambda>w'. confined leases (destination_of leases w key) key w w' \<and> good (app_registry w')"]
        routing_table.handle_confined [OF assms False key, of w R js keys tkeys P role addr] that(1) confined_refl [of leases _ key w] by simp
    have "map_option normalize_host (request_host lib req) = Some (Ok key)" using key by simp
    then show ?thesis
      using False failed touched run_handle_destination [OF assms False key, where w = w and R = R and js = js and keys = keys and
          tkeys = tkeys and P = P and role = role and addr = addr]
      by (simp only: Let_def option.case result.case if_False simp_thms) blast
  qed (use False in \<open>simp_all add: handle_def Let_def error_page_def\<close>)
qed

theorem request_routed_witness:
  "\<forall>js P. \<exists>r. let w = sample_node\<lparr>app_registry := [''api.tunnel.com'' \<mapsto> (example_record ''sess_1'', 45)]\<rparr>;
       req = \<lparr>req_method = ''GET'', req_uri = \<lparr>uri_authority = Some ''API.tunnel.com:8080'', uri_path = ''/'', uri_path_and_query = Some ''/''\<rparr>,
         req_version = ''HTTP/1.1'', req_headers = [], req_body = []\<rparr>;
       task = handle ref_runtime memory_registry ref_http js (\<lambda>_. []) (\<lambda>_. []) P Public req ''192.0.2.1:1''
     in run task w = run (forward_local ref_runtime ref_http 0 (example_record ''sess_1'') req ''192.0.2.1:1'') (w\<lparr>app_registry := r\<rparr>)"
proof (intro allI)
  fix js :: json_lib and P :: peer_client
  let ?w = "sample_node\<lparr>app_registry := [''api.tunnel.com'' \<mapsto> (example_record ''sess_1'', 45)]\<rparr>"
  let ?req = "\<lparr>req_method = ''GET'', req_uri = \<lparr>uri_authority = Some ''API.tunnel.com:8080'', uri_path = ''/'', uri_path_and_query = Some ''/''\<rparr>,
       req_version = ''HTTP/1.1'', req_headers = [], req_body = []\<rparr>"
  have "normalize_host ''API.tunnel.com:8080'' = Ok ''api.tunnel.com''" by code_simp
  moreover have "\<not> starts_with (uri_path (req_uri ?req)) INTERNAL_PREFIX" "request_host ref_http ?req = Some ''API.tunnel.com:8080''"
    by (simp_all add: starts_with_def INTERNAL_PREFIX_def request_host_def)
  moreover have "destination_of id ?w ''api.tunnel.com'' = OverSession 0 (example_record ''sess_1'')"
    by (simp add: destination_of_def live_def sample_node_def example_record_def)
  ultimately show "\<exists>r. let w = ?w; req = ?req; task = handle ref_runtime memory_registry ref_http js (\<lambda>_. []) (\<lambda>_. []) P Public req ''192.0.2.1:1''
     in run task w = run (forward_local ref_runtime ref_http 0 (example_record ''sess_1'') req ''192.0.2.1:1'') (w\<lparr>app_registry := r\<rparr>)"
    using request_routed [OF memory_table.routing_table_axioms, of ref_runtime ref_http js "\<lambda>_. []" "\<lambda>_. []" P Public ?req "''192.0.2.1:1''" ?w]
    by (auto simp: Let_def)
qed

text \<open>C18. At most one hop between nodes. Whatever is handed to a sibling carries the mark of the hop, with
  this node's name in place of anything the client had put there; and a node that receives a marked
  request, or any request on its peer listener, answers without its own peer client: what that
  client would do with a request makes no difference to it.\<close>

theorem no_second_hop:
  fixes R :: "('m, 'qo, 'qb, 'o) runtime" and G :: "'r registry_ops"
  shows "handle R G lib js keys tkeys P role req addr = handle R G lib js keys tkeys
     (P\<lparr>pc_request := (\<lambda>t u. if get_all HOP_HEADER (req_headers u) = [hop_value lib P] then pc_request P t u else unmarked t u)\<rparr>) role req addr \<and>
   handle R G lib js keys tkeys Q1 role (upstream_request lib P target req) addr =
     handle R G lib js keys tkeys Q2 role (upstream_request lib P target req) addr \<and>
   handle R G lib js keys tkeys Q1 Peer req addr = handle R G lib js keys tkeys Q2 Peer req addr"
proof -
  let ?Q = "P\<lparr>pc_request := (\<lambda>t u. if get_all HOP_HEADER (req_headers u) = [hop_value lib P] then pc_request P t u else unmarked t u)\<rparr>"
  have up: "upstream_request lib ?Q target req = upstream_request lib P target req" for target
    by (simp add: upstream_request_def hop_value_def)
  have "peer_forward lib ?Q rec req = (peer_forward lib P rec req :: (('m, 'qo, 'qb, 'o, 'r) server, response) task)" for rec
    by (simp add: peer_forward_def up split: result.split)
  moreover have "contains_key HOP_HEADER (req_headers (upstream_request lib P target req))"
    by (simp add: upstream_request_def)
  ultimately show ?thesis by (simp add: handle_def cong: if_cong option.case_cong result.case_cong)
qed

section \<open>Uploads\<close>

context session_runtime
begin

lemma solvent_update:
  assumes "\<And>s. bound_to sid a s \<Longrightarrow> bound_to sid a (f s) \<and> credit a (f s) \<le> credit a s \<and> sent sid (f s) = sent sid s"
  shows "solvent (bound_to sid a) (credit a) (sent sid) 0 (update f)"
  unfolding update_def atomically_def
  by (rule solvent.Step) (use assms in \<open>fastforce intro!: exI [of _ 0] solvent.Return\<close>)

lemma solvent_close_stream: "solvent (bound_to sid a) (credit a) (sent sid) 0 (close_stream R sid)"
proof -
  have upd: "solvent (bound_to sid a) (credit a) (sent sid) 0 (update (set_stream b f))"
    if "\<And>st. permits (sview (send_credit (f st))) = permits (sview (send_credit st))" for b f
  proof (rule solvent_update, goal_cases)
    case (1 s)
    then show ?case
      using that by (cases "b = a") (auto simp: bound_to_def stream_credit_def queued_bytes_def)
  qed
  have "solvent (bound_to sid a) (credit a) (sent sid) 0
      (atomically (\<lambda>s. (s\<lparr>streams := (streams s)(sid := None)\<rparr>, streams s sid)))"
    unfolding atomically_def
    by (rule solvent.Step)
      (auto simp: bound_to_def stream_credit_def queued_bytes_def intro!: exI [of _ 0] solvent.Return)
  moreover have "solvent (bound_to sid a) (credit a) (sent sid) 0 (update (\<lambda>s. s\<lparr>open_streams := open_streams s - 1\<rparr>))"
    by (rule solvent_update) (auto simp: bound_to_def stream_credit_def queued_bytes_def)
  moreover have "solvent (bound_to sid a) (credit a) (sent sid) 0 (update (set_stream b (\<lambda>st. st\<lparr>stream_closed := True\<rparr>)))" for b
    by (rule upd) simp
  moreover have "solvent (bound_to sid a) (credit a) (sent sid) 0
      (update (set_stream b (\<lambda>st. st\<lparr>send_credit := sem_close (rt_sem R) (send_credit st)\<rparr>)))" for b
    by (rule upd) (simp add: sem.sem_close_law)
  moreover have "solvent (bound_to sid a) (credit a) (sent sid) 0 (update (set_stream b (drop_stream_senders R)))" for b
    by (rule upd) (simp add: drop_stream_senders_def)
  ultimately show ?thesis
    unfolding close_stream_def by (auto intro!: solvent_call solvent.Return split: option.split)
qed

lemma solvent_pump_body: "solvent (bound_to sid a) (credit a) (sent sid) 0 (pump_body R sid frames)"
proof (induction frames)
  case Nil
  have "solvent (bound_to sid a) (credit a) (sent sid) 0 (send_stream_end R sid)"
    unfolding send_stream_end_def by (rule solvent_session_send) (simp add: data_bytes_def)
  then show ?case by (auto intro: solvent_call solvent.Return)
next
  case (Cons frame frames)
  have "solvent (bound_to sid a) (credit a) (sent sid) 0 (reset_stream R sid ResetPeerClosed msg)" for msg
    unfolding reset_stream_def
    by (intro solvent_call solvent_close_stream solvent_session_send solvent.Return) (simp add: data_bytes_def)
  with Cons show ?case
    by (auto intro!: solvent_call solvent_send_stream_data solvent.Return split: result.split body_frame.split)
qed

end

text \<open>C14. An upload never outruns the agent. However long the request body is and whatever the rest of the
  server does to the session in between (other streams, frames from the agent, the stream being
  closed), the body bytes the upload has put on the agent's queue and the credit that is left never
  exceed the credit at the start and the credit that was granted since. The environment may do
  anything to the state except give the stream's id to another stream.\<close>

theorem upload_within_credit:
  assumes "session_runtime R sview oview bview hview" "bound_to sid a s"
    and "metered (bound_to sid a) (stream_credit sview a) (queued_bytes oview sid) s (pump_body R sid frames) s' t sent given"
  shows "sent + stream_credit sview a s' \<le> stream_credit sview a s + given"
  using metered_solvent [OF assms(3,2) session_runtime.solvent_pump_body [OF assms(1)]] .

text \<open>An upload of four bytes against a window of four.\<close>

theorem upload_within_credit_witness:
  "\<exists>s' sent. metered (bound_to 1 0) (stream_credit id 0) (queued_bytes id 1) (sample_session 4)
      (pump_body ref_runtime 1 [Ok (DataFrame ''abcd'')]) s' (Return ()) sent 0 \<and> 4 \<le> sent \<and> sent + stream_credit id 0 s' \<le> 4"
proof -
  let ?t = "pump_body ref_runtime 1 [Ok (DataFrame ''abcd'')]"
  have chunks: "split_chunks ''abcd'' = [''abcd'']" by (simp add: split_chunks_def MAX_CHUNK_def)
  obtain s' where s': "run ?t (sample_session 4) = Finished s' ()" "queued_bytes id 1 s' = 4"
    by (simp add: run_call send_stream_data_def send_stream_end_def chunks acquire_credit_def session_send_def
        sample_session_simps ref_send_def set_stream_def queued_bytes_def data_bytes_def unat_u32_saturating)
  have start: "bound_to 1 0 (sample_session 4)" "stream_credit id 0 (sample_session 4) = 4" "queued_bytes id 1 (sample_session 4) = 0"
    by (simp_all add: bound_to_def stream_credit_def queued_bytes_def sample_session_simps)
  obtain sent where sent: "4 \<le> sent" "metered (bound_to 1 0) (stream_credit id 0) (queued_bytes id 1) (sample_session 4) ?t
      s' (Return ()) sent 0"
    using metered_run [where ok = "bound_to 1 0" and credit = "stream_credit id 0" and sent = "queued_bytes id 1",
        OF metered.start s'(1)] s'(2) start(3) by auto
  from upload_within_credit [OF ref_rt.session_runtime_axioms start(1) sent(2)] start(2) sent show ?thesis
    by (intro exI [of _ s'] exI [of _ sent]) simp
qed

definition end_frame :: "u64 \<Rightarrow> outbound_item" where
  "end_frame sid = Ok (Some (SEnd \<lparr>se_stream_id = sid, se_trailers = []\<rparr>))"

definition reset_frame :: "u64 \<Rightarrow> reset_code \<Rightarrow> string \<Rightarrow> outbound_item" where
  "reset_frame sid code message = Ok (Some (SReset \<lparr>sr_stream_id = sid, sr_code = reset_code_i32 code, sr_message = message\<rparr>))"

context session_runtime
begin

text \<open>The upload of the frames before the rest of a body.\<close>

lemma run_pump_chunk:
  assumes "streams s sid = Some a" "a < length (stream_heap s)" "\<not> sem_closed (sview (send_credit (stream_heap s ! a)))"
    "d \<noteq> []" "length d \<le> credit a s" "outbound_room oview (length (split_chunks d) + n) s"
  shows "\<exists>s1. (\<forall>rest. run (pump_body R sid (Ok (DataFrame d) # rest)) s = run (pump_body R sid rest) s1) \<and>
    queued (oview (outbound s1)) = queued (oview (outbound s)) @ map (data_frame sid) (split_chunks d) \<and>
    credit a s1 = credit a s - length d \<and> streams s1 = streams s \<and> length (stream_heap s1) = length (stream_heap s) \<and>
    \<not> sem_closed (sview (send_credit (stream_heap s1 ! a))) \<and> outbound_room oview n s1"
proof -
  have bounded: "list_all (\<lambda>c. length c \<le> MAX_CHUNK) (split_chunks d)" by (simp add: list_all_iff split_chunks_bounded)
  have room: "outbound_room oview (length (split_chunks d)) s" using assms(6) by (simp add: outbound_room_def)
  obtain s1 where s1: "run (send_chunks R a sid (split_chunks d)) s = Finished s1 True"
    "queued (oview (outbound s1)) = queued (oview (outbound s)) @ map (data_frame sid) (split_chunks d)"
    "credit a s1 = credit a s - length d" "streams s1 = streams s" "length (stream_heap s1) = length (stream_heap s)"
    "\<not> sem_closed (sview (send_credit (stream_heap s1 ! a)))" "receiver (oview (outbound s1))"
    "capacity (oview (outbound s1)) = capacity (oview (outbound s))"
    using run_send_chunks [OF assms(2,3) room bounded, of sid] assms(5) unfolding sum_split_chunks by auto
  then show ?thesis
    using assms(1,4,6) by (intro exI [of _ s1]) (simp add: run_call send_stream_data_def outbound_room_def)
qed

lemma run_pump_data:
  assumes "streams s sid = Some a" "a < length (stream_heap s)" "\<not> sem_closed (sview (send_credit (stream_heap s ! a)))"
    "list_all is_ok frames" "sum_list (map length (body_data frames)) \<le> credit a s"
    "outbound_room oview (length (upload_chunks frames) + n) s"
  shows "\<exists>s'. (\<forall>rest. run (pump_body R sid (frames @ rest)) s = run (pump_body R sid rest) s') \<and> queued (oview (outbound s')) =
      queued (oview (outbound s)) @ map (data_frame sid) (upload_chunks frames) \<and>
    streams s' = streams s \<and> length (stream_heap s') = length (stream_heap s) \<and>
    credit a s' = credit a s - sum_list (map length (body_data frames)) \<and> outbound_room oview n s'"
  using assms
proof (induction frames arbitrary: s)
  case Nil
  then show ?case by (intro exI [of _ s]) simp
next
  case (Cons frame frames)
  from Cons.prems(4) obtain f where f: "frame = Ok f" "list_all is_ok frames" by (cases frame) auto
  show ?case
  proof (cases "\<exists>d. f = DataFrame d \<and> d \<noteq> []")
    case False
    then have "\<forall>rest. run (pump_body R sid (frame # frames @ rest)) s = run (pump_body R sid (frames @ rest)) s"
      "body_data (frame # frames) = body_data frames" "upload_chunks (frame # frames) = upload_chunks frames"
      using f(1) by (cases f; simp)+
    then show ?thesis using Cons.IH [of s] Cons.prems f(2) by simp
  next
    case True
    then obtain d where d: "f = DataFrame d" "d \<noteq> []" by blast
    then obtain s1 where s1: "\<And>rest. run (pump_body R sid (frame # rest)) s = run (pump_body R sid rest) s1"
      "queued (oview (outbound s1)) = queued (oview (outbound s)) @ map (data_frame sid) (split_chunks d)"
      "credit a s1 = credit a s - length d" "streams s1 = streams s" "length (stream_heap s1) = length (stream_heap s)"
      "\<not> sem_closed (sview (send_credit (stream_heap s1 ! a)))" "outbound_room oview (length (upload_chunks frames) + n) s1"
      using run_pump_chunk [OF Cons.prems(1-3), of d "length (upload_chunks frames) + n"] Cons.prems(5,6) f(1)
      by (auto simp: add.assoc)
    moreover have "sum_list (map length (body_data frames)) \<le> credit a s1" using Cons.prems(5) f(1) d s1(3) by simp
    ultimately show ?thesis using Cons.IH [of s1] Cons.prems(1,2) f d by auto
  qed
qed

lemma run_pump_body:
  assumes "streams s sid = Some a" "a < length (stream_heap s)" "\<not> sem_closed (sview (send_credit (stream_heap s ! a)))"
    "list_all is_ok frames" "sum_list (map length (body_data frames)) \<le> credit a s"
    "outbound_room oview (Suc (length (upload_chunks frames))) s"
  shows "\<exists>s'. run (pump_body R sid frames) s = Finished s' () \<and> queued (oview (outbound s')) =
      queued (oview (outbound s)) @ map (data_frame sid) (upload_chunks frames) @ [end_frame sid] \<and>
    streams s' = streams s \<and> length (stream_heap s') = length (stream_heap s) \<and>
    credit a s' = credit a s - sum_list (map length (body_data frames))"
proof -
  obtain s1 where s1: "\<And>rest. run (pump_body R sid (frames @ rest)) s = run (pump_body R sid rest) s1"
    "queued (oview (outbound s1)) = queued (oview (outbound s)) @ map (data_frame sid) (upload_chunks frames)"
    "streams s1 = streams s" "length (stream_heap s1) = length (stream_heap s)"
    "credit a s1 = credit a s - sum_list (map length (body_data frames))" "outbound_room oview (Suc 0) s1"
    using run_pump_data [OF assms(1-5), of "Suc 0"] assms(6) by auto
  then obtain q where q: "run (session_send R (Some (SEnd \<lparr>se_stream_id = sid, se_trailers = []\<rparr>))) s1 = Finished (s1\<lparr>outbound := q\<rparr>) True"
    "oview q = (oview (outbound s1))\<lparr>queued := queued (oview (outbound s1)) @ [Ok (Some (SEnd \<lparr>se_stream_id = sid, se_trailers = []\<rparr>))]\<rparr>"
    using run_session_send_room [of s1] by (metis outbound_room_def add_Suc_right add.right_neutral Suc_le_eq)
  with s1(2-5) s1(1) [of "[]"] show ?thesis by (simp add: run_call send_stream_end_def end_frame_def stream_credit_def)
qed

text \<open>When the public client's body fails, the upload ends with a reset.\<close>

lemma run_pump_failed:
  assumes "streams s sid = Some a" "a < length (stream_heap s)" "\<not> sem_closed (sview (send_credit (stream_heap s ! a)))"
    "list_all is_ok frames" "sum_list (map length (body_data frames)) \<le> credit a s"
    "outbound_room oview (Suc (length (upload_chunks frames))) s"
  shows "\<exists>s'. run (pump_body R sid (frames @ Err e # rest)) s = Finished s' () \<and> queued (oview (outbound s')) =
      queued (oview (outbound s)) @ map (data_frame sid) (upload_chunks frames) @ [reset_frame sid ResetPeerClosed ''client body error''] \<and>
    streams s' = (streams s)(sid := None)"
proof -
  let ?frame = "Some (SReset \<lparr>sr_stream_id = sid, sr_code = reset_code_i32 ResetPeerClosed, sr_message = ''client body error''\<rparr>)"
  obtain s1 where s1: "\<And>rest. run (pump_body R sid (frames @ rest)) s = run (pump_body R sid rest) s1"
    "queued (oview (outbound s1)) = queued (oview (outbound s)) @ map (data_frame sid) (upload_chunks frames)"
    "streams s1 = streams s" "outbound_room oview (Suc 0) s1"
    using run_pump_data [OF assms(1-5), of "Suc 0"] assms(6) by auto
  let ?s2 = "closed_state R sid a s1"
  have o: "outbound ?s2 = outbound s1" "streams ?s2 = (streams s)(sid := None)" using s1(3) by (simp_all add: closed_state_def)
  then obtain q where q: "run (session_send R ?frame) ?s2 = Finished (?s2\<lparr>outbound := q\<rparr>) True"
    "oview q = (oview (outbound s1))\<lparr>queued := queued (oview (outbound s1)) @ [Ok ?frame]\<rparr>"
    using run_session_send_room [of ?s2 ?frame] s1(4) by (auto simp: outbound_room_def)
  have "run (close_stream R sid) s1 = Finished ?s2 ()" using assms(1) s1(3) by (simp add: run_close_stream)
  with s1(1) [of "Err e # rest"] s1(2) q o show ?thesis
    by (simp add: run_call reset_stream_def reset_frame_def)
qed

end

text \<open>A request body arrives intact. With the stream open, enough credit and room on the agent's queue,
  the upload ends, and has queued for the agent the data of the request body, frame by frame, and then
  one end of stream: the payloads of the data frames concatenate to the body, none is longer than the
  largest chunk, and trailers and empty frames send nothing.\<close>

lemma body_uploaded_intact:
  assumes "session_runtime R sview oview bview hview" "streams s sid = Some a" "a < length (stream_heap s)"
    and "\<not> sem_closed (sview (send_credit (stream_heap s ! a)))" "list_all is_ok frames"
    and "sum_list (map length (body_data frames)) \<le> stream_credit sview a s"
    and "outbound_room oview (Suc (length (upload_chunks frames))) s"
  shows "\<exists>s' cs. run (pump_body R sid frames) s = Finished s' () \<and>
    queued (oview (outbound s')) = queued (oview (outbound s)) @ map (data_frame sid) cs @ [end_frame sid] \<and>
    concat cs = concat (body_data frames) \<and> (\<forall>c \<in> set cs. length c \<le> MAX_CHUNK)"
proof -
  have "\<forall>c \<in> set (upload_chunks frames). length c \<le> MAX_CHUNK" by (auto simp: upload_chunks_def split_chunks_bounded)
  with session_runtime.run_pump_body [OF assms] concat_upload_chunks show ?thesis by blast
qed

lemma body_uploaded_intact_witness:
  "\<exists>s' cs. run (pump_body ref_runtime 1 [Ok (DataFrame ''ab''), Ok (DataFrame []), Ok (TrailersFrame []), Ok (DataFrame ''cd'')])
      (sample_session 4) = Finished s' () \<and> queued (outbound s') = map (data_frame 1) cs @ [end_frame 1] \<and> concat cs = ''abcd''"
proof -
  have chunks: "split_chunks ''ab'' = [''ab'']" "split_chunks ''cd'' = [''cd'']" by (simp_all add: split_chunks_def MAX_CHUNK_def)
  show ?thesis
    using body_uploaded_intact [OF ref_rt.session_runtime_axioms, of "sample_session 4" 1 0
        "[Ok (DataFrame ''ab''), Ok (DataFrame []), Ok (TrailersFrame []), Ok (DataFrame ''cd'')]"]
    by (simp add: sample_session_simps stream_credit_def outbound_room_def chunks) blast
qed

section \<open>The life of a request\<close>

text \<open>The frame that announces a stream to the agent.\<close>

definition open_frame ::
    "http_lib \<Rightarrow> ('m, 'qo, 'qb, 'o) session \<Rightarrow> route_record \<Rightarrow> request \<Rightarrow> string \<Rightarrow> outbound_item" where
  "open_frame lib s route req addr = Ok (Some (SOpen \<lparr>so_stream_id = next_stream_id s, so_tunnel_id = rr_tunnel route,
     so_kind = 1, so_http = Some (request_head lib req), so_remote_addr = addr, so_initial_window = initial_window s\<rparr>))"

context session_runtime
begin

lemma run_open_http_stream:
  assumes "\<not> at_stream_limit s" "outbound_room oview (Suc n) s"
  shows "\<exists>s'. run (open_http_stream R (rr_tunnel route) (request_head lib req) addr) s =
      Finished s' (Ok \<lparr>resp_stream_id = next_stream_id s, resp_stream = length (stream_heap s)\<rparr>) \<and>
    stream_heap s' = stream_heap s @ [fresh_stream R (initial_window s)] \<and>
    streams s' = (streams s)(next_stream_id s \<mapsto> length (stream_heap s)) \<and> open_streams s' = open_streams s + 1 \<and>
    queued (oview (outbound s')) = queued (oview (outbound s)) @ [open_frame lib s route req addr] \<and>
    outbound_room oview n s'"
proof -
  let ?s1 = "s\<lparr>next_stream_id := next_stream_id s + 1, stream_heap := stream_heap s @ [fresh_stream R (initial_window s)],
    streams := (streams s)(next_stream_id s \<mapsto> length (stream_heap s)), open_streams := open_streams s + 1\<rparr>"
  have room: "receiver (oview (outbound ?s1))" "length (queued (oview (outbound ?s1))) < capacity (oview (outbound ?s1))"
    using assms(2) by (simp_all add: outbound_room_def)
  let ?frame = "Some (SOpen \<lparr>so_stream_id = next_stream_id s, so_tunnel_id = rr_tunnel route,
      so_kind = 1, so_http = Some (request_head lib req), so_remote_addr = addr, so_initial_window = initial_window s\<rparr>)"
  obtain q where q: "run (session_send R ?frame) ?s1 = Finished (?s1\<lparr>outbound := q\<rparr>) True"
    "oview q = (oview (outbound ?s1))\<lparr>queued := queued (oview (outbound ?s1)) @ [Ok ?frame]\<rparr>"
    by (rule run_session_send_room [OF room])
  show ?thesis
    using assms q by (intro exI [of _ "?s1\<lparr>outbound := q\<rparr>"])
      (simp add: open_http_stream_def run_call outbound_room_def open_frame_def)
qed

lemma fresh_stream_view:
  "head_tx (fresh_stream R window)" "\<not> stream_closed (fresh_stream R window)"
  "hview (head_slot (fresh_stream R window)) = Waiting"
  "bview (body (fresh_stream R window)) = \<lparr>queued = [], capacity = STREAM_BUFFER_FRAMES, senders = 1, receiver = True\<rparr>"
  by (simp_all add: fresh_stream_def one.once_new_law bod.chan_new_law STREAM_BUFFER_FRAMES_def)

end

text \<open>A stream that has been given back.\<close>

definition released ::
    "('m \<Rightarrow> sem_view) \<Rightarrow> u64 \<Rightarrow> nat \<Rightarrow> ('m, 'qo, 'qb, 'o) session \<Rightarrow> ('m, 'qo, 'qb, 'o) session \<Rightarrow> bool" where
  "released sview sid st s s' \<longleftrightarrow> streams s' = (streams s)(sid := None) \<and> open_streams s' = open_streams s - 1 \<and>
     length (stream_heap s') = length (stream_heap s) \<and> sem_closed (sview (send_credit (stream_heap s' ! st)))"

context session_runtime
begin

lemma run_await_head:
  "run (await_head R a st deadline) w = (case hview (head_slot (stream_heap (session_at a w) ! st)) of
     Waiting \<Rightarrow> if deadline \<le> clock w then Finished w None else Blocked w (await_head R a st deadline)
   | Delivered h \<Rightarrow> Finished w (Some (Some h))
   | Abandoned \<Rightarrow> Finished w (Some None))"
  by (simp add: await_head_def one.once_recv_law split: slot.split)

lemma forward_local_waits:
  fixes w :: "('m, 'qo, 'qb, 'o, 'r) server"
  assumes "has_session a w" "\<not> at_stream_limit (session_at a w)" "outbound_room oview (Suc n) (session_at a w)"
    "0 < response_timeout (app_config w)"
  shows "\<exists>s. run (forward_local R lib a route req addr) w = Blocked (set_session a s w)
      (call (await_head R a (length (stream_heap (session_at a w))) (clock w + response_timeout (app_config w)))
        (finish_forward R lib a (next_stream_id (session_at a w)) (length (stream_heap (session_at a w))))) \<and>
    stream_heap s = stream_heap (session_at a w) @ [fresh_stream R (initial_window (session_at a w))] \<and>
    streams s = (streams (session_at a w))(next_stream_id (session_at a w) \<mapsto> length (stream_heap (session_at a w))) \<and>
    open_streams s = open_streams (session_at a w) + 1 \<and>
    queued (oview (outbound s)) = queued (oview (outbound (session_at a w))) @ [open_frame lib (session_at a w) route req addr] \<and>
    outbound_room oview n s"
proof -
  obtain s where s: "run (open_http_stream R (rr_tunnel route) (request_head lib req) addr) (session_at a w) =
      Finished s (Ok \<lparr>resp_stream_id = next_stream_id (session_at a w), resp_stream = length (stream_heap (session_at a w))\<rparr>)"
    "stream_heap s = stream_heap (session_at a w) @ [fresh_stream R (initial_window (session_at a w))]"
    "streams s = (streams (session_at a w))(next_stream_id (session_at a w) \<mapsto> length (stream_heap (session_at a w)))"
    "open_streams s = open_streams (session_at a w) + 1"
    "queued (oview (outbound s)) = queued (oview (outbound (session_at a w))) @ [open_frame lib (session_at a w) route req addr]"
    "outbound_room oview n s"
    using run_open_http_stream [OF assms(2,3), of route lib req addr] by blast
  have "run (forward_local R lib a route req addr) w = Blocked (set_session a s w)
      (call (await_head R a (length (stream_heap (session_at a w))) (clock w + response_timeout (app_config w)))
        (finish_forward R lib a (next_stream_id (session_at a w)) (length (stream_heap (session_at a w)))))"
    using assms(1,4) s(1,2)
    by (simp add: forward_local_def run_call run_on_session Let_def run_await_head nth_append fresh_stream_view)
  with s(2-6) show ?thesis by blast
qed

text \<open>The agent's reset while the request waits for its head.\<close>

lemma on_stream_reset_waiting:
  assumes "stream_open_at sid a s" "head_tx (stream_heap s ! a)" "hview (head_slot (stream_heap s ! a)) = Waiting"
    "receiver (bodyq a s)" "length (queued (bodyq a s)) < capacity (bodyq a s)"
  shows "\<exists>s'. run (on_stream_reset R sid code message) s = Finished s' () \<and> streams s' sid = None \<and>
    length (stream_heap s') = length (stream_heap s) \<and> hview (head_slot (stream_heap s' ! a)) = Abandoned"
proof -
  let ?s1 = "set_stream a (\<lambda>st. st\<lparr>body := chan_clone_tx (rt_body R) (body st)\<rparr>) s"
  have a: "a < length (stream_heap s)" "streams s sid = Some a" using assms(1) by (simp_all add: stream_open_at_def)
  then have "bodyq a ?s1 = (bodyq a s)\<lparr>senders := senders (bodyq a s) + 1\<rparr>" by (simp add: body_view_def bod.clone_tx_law)
  then obtain q where q: "run (body_send R a (ChunkReset code message)) ?s1 = Finished (set_stream a (\<lambda>st. st\<lparr>body := q\<rparr>) ?s1) True"
    using body_send_room [of a ?s1 "ChunkReset code message"] a assms(4,5) by auto
  let ?s3 = "set_stream a (\<lambda>st. st\<lparr>body := chan_drop_tx (rt_body R) (body st)\<rparr>) (set_stream a (\<lambda>st. st\<lparr>body := q\<rparr>) ?s1)"
  let ?s4 = "closed_state R sid a ?s3"
  have "run (on_stream_reset R sid code message) s = Finished ?s4 ()"
    using a by (simp add: on_stream_reset_def run_call run_stream_body_sender [OF assms(1)] q drop_body_sender_def run_close_stream)
  moreover have "streams ?s4 sid = None" "length (stream_heap ?s4) = length (stream_heap s)" by (simp_all add: closed_state_def)
  moreover have "hview (head_slot (stream_heap ?s4 ! a)) = Abandoned"
    using a assms(2,3) by (simp add: closed_state_def drop_stream_senders_def one.once_drop_tx_law)
  ultimately show ?thesis by blast
qed

text \<open>The three ways a waiting request goes on.\<close>

lemma finish_refused:
  assumes "has_session a w"
  shows "\<exists>w' page. run (finish_forward R lib a sid st (Some None)) w = Finished w' page \<and> res_status page = 502 \<and>
    (\<exists>b. res_body page = FullBody b) \<and>
    (stream_open_at sid st (session_at a w) \<longrightarrow> released sview sid st (session_at a w) (session_at a w'))"
proof -
  let ?s = "session_at a w"
  let ?s1 = "case streams ?s sid of None \<Rightarrow> ?s\<lparr>streams := (streams ?s)(sid := None)\<rparr> | Some b \<Rightarrow> closed_state R sid b ?s"
  let ?s2 = "set_stream st (\<lambda>x. x\<lparr>body := chan_drop_rx (rt_body R) (body x)\<rparr>) ?s1"
  have "run (finish_forward R lib a sid st (Some None)) w = Finished (set_session a ?s2 w)
      (error_page 502 ''Local service unreachable'' ''The agent could not reach the local service it is forwarding to.'')"
    using assms by (simp add: finish_forward_def run_call run_on_session run_close_stream drop_body_receiver_def)
  moreover have "released sview sid st ?s ?s2" if "stream_open_at sid st ?s"
    using that closed_state_closes [of st ?s sid]
    by (simp add: released_def stream_open_at_def closed_state_def drop_stream_senders_def)
  ultimately show ?thesis using assms by (simp add: error_page_def full_body_def)
qed

lemma finish_timeout:
  assumes "has_session a w" "stream_open_at sid st (session_at a w)" "outbound_room oview 1 (session_at a w)"
  shows "\<exists>w' page. run (finish_forward R lib a sid st None) w = Finished w' page \<and> res_status page = 504 \<and>
    (\<exists>b. res_body page = FullBody b) \<and> released sview sid st (session_at a w) (session_at a w') \<and>
    queued (oview (outbound (session_at a w'))) =
      queued (oview (outbound (session_at a w))) @ [reset_frame sid ResetTimeout ''edge response timeout'']"
proof -
  let ?s = "session_at a w"
  let ?s1 = "set_stream st (\<lambda>x. x\<lparr>head_slot := once_drop_rx (rt_once R) (head_slot x)\<rparr>) ?s"
  let ?s2 = "closed_state R sid st ?s1"
  have st: "st < length (stream_heap ?s)" "streams ?s sid = Some st" using assms(2) by (simp_all add: stream_open_at_def)
  have out: "outbound ?s2 = outbound ?s" by (simp add: closed_state_def)
  have room: "receiver (oview (outbound ?s2))" "length (queued (oview (outbound ?s2))) < capacity (oview (outbound ?s2))"
    using assms(3) unfolding out outbound_room_def by auto
  let ?frame = "Some (SReset \<lparr>sr_stream_id = sid, sr_code = reset_code_i32 ResetTimeout, sr_message = ''edge response timeout''\<rparr>)"
  obtain q where q: "run (session_send R ?frame) ?s2 = Finished (?s2\<lparr>outbound := q\<rparr>) True"
    "oview q = (oview (outbound ?s2))\<lparr>queued := queued (oview (outbound ?s2)) @ [Ok ?frame]\<rparr>"
    by (rule run_session_send_room [OF room])
  let ?s4 = "set_stream st (\<lambda>x. x\<lparr>body := chan_drop_rx (rt_body R) (body x)\<rparr>) (?s2\<lparr>outbound := q\<rparr>)"
  have "run (finish_forward R lib a sid st None) w = Finished (set_session a ?s4 w)
      (error_page 504 ''Tunnel timed out'' (''The local service did not respond within '' @
        debug_millis (response_timeout (app_config w)) @ ''.''))"
    using assms(1) st q(1) by (simp add: finish_forward_def run_call run_on_session drop_head_receiver_def reset_stream_def
        run_close_stream drop_body_receiver_def)
  moreover have "released sview sid st ?s ?s4"
    using st closed_state_closes [of st ?s1 sid] by (simp add: released_def closed_state_def drop_stream_senders_def)
  moreover have "queued (oview (outbound ?s4)) = queued (oview (outbound ?s)) @ [reset_frame sid ResetTimeout ''edge response timeout'']"
    using q(2) out by (simp add: reset_frame_def)
  ultimately show ?thesis using assms(1) by (simp add: error_page_def full_body_def)
qed

lemma drop_stream_response:
  assumes "has_session a w" "stream_open_at sid st (session_at a w)" "res_body resp = StreamBody a sid st"
  shows "\<exists>w'. run (drop_response R resp) w = Finished w' () \<and> released sview sid st (session_at a w) (session_at a w')"
proof -
  let ?s = "session_at a w"
  let ?s1 = "set_stream st (\<lambda>x. x\<lparr>body := chan_drop_rx (rt_body R) (body x)\<rparr>) ?s"
  let ?s2 = "closed_state R sid st ?s1"
  let ?frame = "Some (SReset \<lparr>sr_stream_id = sid, sr_code = reset_code_i32 ResetPeerClosed, sr_message = ''public client finished''\<rparr>)"
  have st: "st < length (stream_heap ?s)" "streams ?s sid = Some st" using assms(2) by (simp_all add: stream_open_at_def)
  have sent: "run (session_try_send R ?frame) ?s2 = Finished (case chan_try_send (rt_out R) (outbound ?s2) (Ok ?frame) of
      Some q \<Rightarrow> ?s2\<lparr>outbound := q\<rparr> | None \<Rightarrow> ?s2) (chan_try_send (rt_out R) (outbound ?s2) (Ok ?frame) \<noteq> None)"
    by (simp add: session_try_send_def split: option.split)
  obtain s3 where s3: "run (guard_drop R sid) ?s1 = Finished s3 ()" "streams s3 = streams ?s2" "stream_heap s3 = stream_heap ?s2"
    "open_streams s3 = open_streams ?s2"
    using st sent by (cases "chan_try_send (rt_out R) (outbound ?s2) (Ok ?frame)")
      (auto simp: guard_drop_def run_call run_close_stream)
  have "run (drop_response R resp) w = Finished (set_session a s3 w) ()"
    using assms(1,3) s3(1) by (simp add: drop_response_def run_call run_on_session drop_body_receiver_def)
  moreover have "released sview sid st ?s s3"
    using st s3 closed_state_closes [of st ?s1 sid] by (simp add: released_def closed_state_def)
  ultimately show ?thesis using assms(1) by simp
qed

text \<open>A request that waits for its head: the head answers it, and a reset of the stream ends it with a 502.\<close>

lemma waiting_answered:
  assumes "has_session a w" "stream_open_at sid st s" "head_tx (stream_heap s ! st)" "hview (head_slot (stream_heap s ! st)) = Waiting"
  shows "\<exists>w2. run (on_session a (on_response_head R (head\<lparr>rh_stream_id := sid\<rparr>))) (set_session a s w) = Finished w2 () \<and>
    run (call (await_head R a st deadline) (finish_forward R lib a sid st)) w2 =
      Finished w2 (build_response lib a sid st (head\<lparr>rh_stream_id := sid\<rparr>))"
proof -
  obtain s1 where "run (on_response_head R (head\<lparr>rh_stream_id := sid\<rparr>)) s = Finished s1 ()"
    "hview (head_slot (stream_heap s1 ! st)) = Delivered (head\<lparr>rh_stream_id := sid\<rparr>)"
    using on_response_head_once [of "head\<lparr>rh_stream_id := sid\<rparr>" st s "head\<lparr>rh_stream_id := sid\<rparr>"] assms(2-4) by auto
  then show ?thesis using assms(1) by (simp add: run_on_session run_call run_await_head finish_forward_def)
qed

lemma waiting_refused:
  assumes "has_session a w" "stream_open_at sid st s" "head_tx (stream_heap s ! st)" "hview (head_slot (stream_heap s ! st)) = Waiting"
    "receiver (body_view bview st s)" "length (queued (body_view bview st s)) < capacity (body_view bview st s)"
  shows "\<exists>w2 w3 page. run (on_session a (on_stream_reset R sid code message)) (set_session a s w) = Finished w2 () \<and>
    run (call (await_head R a st deadline) (finish_forward R lib a sid st)) w2 = Finished w3 page \<and> res_status page = 502"
proof -
  obtain s2 where s2: "run (on_stream_reset R sid code message) s = Finished s2 ()" "hview (head_slot (stream_heap s2 ! st)) = Abandoned"
    using on_stream_reset_waiting [OF assms(2-6), of code message] by blast
  obtain w3 page where "run (finish_forward R lib a sid st (Some None)) (set_session a s2 w) = Finished w3 page" "res_status page = 502"
    using finish_refused [of a "set_session a s2 w" lib sid st] assms(1) by auto
  with s2 assms(1) show ?thesis by (simp add: run_on_session run_call run_await_head)
qed

end

text \<open>C10. A forwarded request is answered in every case. With a session that is below its stream limit and
  whose queue has room, the request announces its stream to the agent and waits. If the agent then
  sends a response head, the answer has that head. If the agent resets the stream, the answer is a 502. If the
  time for a response passes, the answer is a 504, the stream is given back and the agent is told.\<close>

theorem request_answered:
  assumes "session_runtime R sview oview bview hview" "has_session a w" "\<not> at_stream_limit (session_at a w)"
    and "outbound_room oview 2 (session_at a w)" "0 < response_timeout (app_config w)"
    and "sid = next_stream_id (session_at a w)" "st = length (stream_heap (session_at a w))"
  shows "\<exists>w1 t. run (forward_local R lib a route req addr) w = Blocked w1 t \<and>
    queued (oview (outbound (session_at a w1))) =
      queued (oview (outbound (session_at a w))) @ [open_frame lib (session_at a w) route req addr] \<and>
    (\<exists>w2. run (on_session a (on_response_head R (head\<lparr>rh_stream_id := sid\<rparr>))) w1 = Finished w2 () \<and>
       run t w2 = Finished w2 (build_response lib a sid st (head\<lparr>rh_stream_id := sid\<rparr>))) \<and>
    (\<exists>w2 w3 page. run (on_session a (on_stream_reset R sid code message)) w1 = Finished w2 () \<and>
       run t w2 = Finished w3 page \<and> res_status page = 502) \<and>
    (\<exists>w3 page. run t (w1\<lparr>clock := clock w + response_timeout (app_config w)\<rparr>) = Finished w3 page \<and> res_status page = 504 \<and>
       released sview sid st (session_at a w1) (session_at a w3) \<and>
       queued (oview (outbound (session_at a w3))) =
         queued (oview (outbound (session_at a w1))) @ [reset_frame sid ResetTimeout ''edge response timeout''])"
proof -
  note rt = session_runtime.run_await_head [OF assms(1)]
  note fresh = session_runtime.fresh_stream_view [OF assms(1)]
  have room: "outbound_room oview (Suc 1) (session_at a w)" using assms(4) by (simp add: numeral_2_eq_2)
  let ?deadline = "clock w + response_timeout (app_config w)"
  let ?t = "call (await_head R a st ?deadline) (finish_forward R lib a sid st)"
  obtain s where s: "run (forward_local R lib a route req addr) w = Blocked (set_session a s w) ?t"
    "stream_heap s = stream_heap (session_at a w) @ [fresh_stream R (initial_window (session_at a w))]"
    "streams s = (streams (session_at a w))(sid \<mapsto> st)"
    "queued (oview (outbound s)) = queued (oview (outbound (session_at a w))) @ [open_frame lib (session_at a w) route req addr]"
    "outbound_room oview 1 s"
    using session_runtime.forward_local_waits [OF assms(1-3) room assms(5), of lib route req addr]
    unfolding assms(6,7) by blast
  let ?w1 = "set_session a s w"
  have at: "session_at a ?w1 = s" "has_session a ?w1" using assms(2) by simp_all
  have st: "stream_open_at sid st s" "head_tx (stream_heap s ! st)" "hview (head_slot (stream_heap s ! st)) = Waiting"
    "receiver (body_view bview st s)" "length (queued (body_view bview st s)) < capacity (body_view bview st s)"
    using s(2,3) fresh by (simp_all add: stream_open_at_def assms(7) body_view_def STREAM_BUFFER_FRAMES_def)
  note answered = session_runtime.waiting_answered [OF assms(1,2) st(1-3), of head ?deadline lib]
  note refused = session_runtime.waiting_refused [OF assms(1,2) st, of code message ?deadline lib]
  have late: "\<exists>w3 page. run ?t (?w1\<lparr>clock := ?deadline\<rparr>) = Finished w3 page \<and> res_status page = 504 \<and>
      released sview sid st s (session_at a w3) \<and>
      queued (oview (outbound (session_at a w3))) = queued (oview (outbound s)) @ [reset_frame sid ResetTimeout ''edge response timeout'']"
    using session_runtime.finish_timeout [OF assms(1), of a "?w1\<lparr>clock := ?deadline\<rparr>" sid st lib] at st(1,3) s(5)
    by (simp add: run_call rt) blast
  show ?thesis
    by (rule exI [of _ ?w1], rule exI [of _ ?t], intro conjI answered refused) (use s(1,4) late at(1) in auto)
qed

text \<open>C19. No answered request leaks its stream. However the wait for the head ends (a head, a reset, the
  timeout), once the response has been dropped, at its end or because the client hung up, the stream is
  out of the session's table and no longer counted, and an upload still parked on its credit is woken. A client that hangs up before the
  wait has ended is the other case, C38.\<close>

theorem answered_stream_released:
  assumes "session_runtime R sview oview bview hview" "has_session a w" "stream_open_at sid st (session_at a w)"
    and "outbound_room oview 1 (session_at a w)"
  shows "\<exists>w'. run (call (finish_forward R lib a sid st answer) (drop_response R)) w = Finished w' () \<and>
    released sview sid st (session_at a w) (session_at a w')"
proof (cases answer)
  case None
  obtain w' page b where "run (finish_forward R lib a sid st None) w = Finished w' page" "res_body page = FullBody b"
    "released sview sid st (session_at a w) (session_at a w')"
    using session_runtime.finish_timeout [OF assms, of lib] by blast
  with None show ?thesis by (simp add: run_call drop_response_def)
next
  case (Some head)
  show ?thesis
  proof (cases head)
    case None
    obtain w' page b where "run (finish_forward R lib a sid st (Some None)) w = Finished w' page" "res_body page = FullBody b"
      "released sview sid st (session_at a w) (session_at a w')"
      using session_runtime.finish_refused [OF assms(1,2), of lib sid st] assms(3) by blast
    with None Some show ?thesis by (simp add: run_call drop_response_def)
  next
    case (Some h)
    have "res_body (build_response lib a sid st h) = StreamBody a sid st" by (simp add: build_response_def Let_def)
    from session_runtime.drop_stream_response [OF assms(1-3) this] \<open>answer = Some head\<close> Some show ?thesis
      by (simp add: run_call finish_forward_def)
  qed
qed

text \<open>C38. A client that hangs up before the head leaves its stream behind. The guard that gives the stream
  back exists only once there is a response; when the HTTP server drops the waiting handler, only the two
  receivers are dropped, and the stream stays in the table and counts against the session's limit.\<close>

theorem hangup_before_head_keeps_stream:
  assumes "session_runtime R sview oview bview hview" "has_session a w" "\<not> at_stream_limit (session_at a w)"
    and "outbound_room oview 1 (session_at a w)" "0 < response_timeout (app_config w)"
  shows "\<exists>w1 t w2. run (forward_local R lib a route req addr) w = Blocked w1 t \<and>
    run (call (on_session a (drop_head_receiver R (length (stream_heap (session_at a w)))))
      (\<lambda>_. on_session a (drop_body_receiver R (length (stream_heap (session_at a w)))))) w1 = Finished w2 () \<and>
    streams (session_at a w2) (next_stream_id (session_at a w)) \<noteq> None \<and>
    open_streams (session_at a w2) = open_streams (session_at a w) + 1"
proof -
  have room: "outbound_room oview (Suc 0) (session_at a w)" using assms(4) by simp
  from session_runtime.forward_local_waits [OF assms(1-3) room assms(5), of lib route req addr] assms(2) show ?thesis
    by (auto simp: run_call run_on_session drop_head_receiver_def drop_body_receiver_def)
qed

text \<open>The node of the witnesses, with one stream open on its session.\<close>

definition sample_request :: request where
  "sample_request = \<lparr>req_method = ''GET'', req_uri = \<lparr>uri_authority = None, uri_path = ''/'', uri_path_and_query = Some ''/''\<rparr>,
     req_version = ''HTTP/1.1'', req_headers = [(''host'', ''api.tunnel.com'')], req_body = []\<rparr>"

lemma sample_node_ready:
  "has_session 0 sample_node" "\<not> at_stream_limit (session_at 0 sample_node)" "outbound_room id 2 (session_at 0 sample_node)"
  "outbound_room id 1 (session_at 0 sample_node)" "0 < response_timeout (app_config sample_node)"
  "next_stream_id (session_at 0 sample_node) = 1" "stream_heap (session_at 0 sample_node) = []"
  by (simp_all add: has_session_def sample_node_def session_at_def at_stream_limit_def sample_session_simps sample_principal_def
      default_limits_def outbound_room_def response_timeout_def default_config_def)

theorem request_answered_witness:
  "\<exists>w1 t w2. run (forward_local ref_runtime ref_http 0 (example_record ''sess_1'') sample_request ''192.0.2.1:1'') sample_node = Blocked w1 t \<and>
     run (on_session 0 (on_response_head ref_runtime \<lparr>rh_stream_id = 1, rh_status = 204, rh_headers = []\<rparr>)) w1 = Finished w2 () \<and>
     run t w2 = Finished w2 (build_response ref_http 0 1 0 \<lparr>rh_stream_id = 1, rh_status = 204, rh_headers = []\<rparr>)"
  using request_answered [OF ref_rt.session_runtime_axioms sample_node_ready(1-3,5) sample_node_ready(6) [symmetric] refl,
      of ref_http "example_record ''sess_1''" sample_request "''192.0.2.1:1''" "\<lparr>rh_stream_id = 1, rh_status = 204, rh_headers = []\<rparr>"
      ResetInternal "[]"]
  unfolding sample_node_ready(7) by auto

theorem answered_stream_released_witness:
  "\<exists>w'. run (call (finish_forward ref_runtime ref_http 0 1 0 (Some (Some \<lparr>rh_stream_id = 1, rh_status = 204, rh_headers = []\<rparr>)))
      (drop_response ref_runtime)) (set_session 0 (sample_session 4) sample_node) = Finished w' () \<and>
     streams (session_at 0 w') 1 = None"
proof -
  let ?w = "set_session 0 (sample_session 4) sample_node"
  have "has_session 0 ?w" "session_at 0 ?w = sample_session 4" using sample_node_ready(1) by simp_all
  moreover have "stream_open_at 1 0 (sample_session 4)" "outbound_room id 1 (sample_session 4)"
    by (simp_all add: stream_open_at_def outbound_room_def sample_session_simps)
  ultimately show ?thesis
    using answered_stream_released [OF ref_rt.session_runtime_axioms, of 0 ?w 1 0 ref_http] by (fastforce simp: released_def)
qed

theorem hangup_before_head_keeps_stream_witness:
  "\<exists>w1 t w2. run (forward_local ref_runtime ref_http 0 (example_record ''sess_1'') sample_request ''192.0.2.1:1'') sample_node = Blocked w1 t \<and>
     run (call (on_session 0 (drop_head_receiver ref_runtime 0)) (\<lambda>_. on_session 0 (drop_body_receiver ref_runtime 0))) w1 = Finished w2 () \<and>
     streams (session_at 0 w2) 1 \<noteq> None"
  using hangup_before_head_keeps_stream [OF ref_rt.session_runtime_axioms sample_node_ready(1,2,4,5),
      of ref_http "example_record ''sess_1''" sample_request "''192.0.2.1:1''"]
  unfolding sample_node_ready(6,7) by auto

section \<open>What an agent can put into a response\<close>

context http_library
begin

lemma response_header:
  assumes "(n, v) \<in> set (res_headers (build_response lib a sid st head))"
  shows "plain_header (n, v) \<and> clean_value v \<and> n \<notin> set HOP_BY_HOP"
proof (cases "n = ''x-norupo-stream'' \<and> v = show_nat (unat sid)")
  case True
  have "list_all is_ascii_digit v" using show_nat_digits True by blast
  then show ?thesis
    using True by (auto simp: plain_header_def clean_value_def list_all_iff HOP_BY_HOP_def is_ascii_digit_def byte_def)
next
  case False
  then have "(n, v) \<in> set (to_header_map lib (rh_headers head))"
    using assms by (auto simp: build_response_def header_insert_def Let_def)
  from kept_header [OF this] show ?thesis using plain_kept_header by auto
qed

lemma response_values:
  "get_all n (res_headers (build_response lib a sid st head)) =
     (if n = ''x-norupo-stream'' then [show_nat (unat sid)]
      else if n \<in> set HOP_BY_HOP then []
      else map header_value (filter (\<lambda>h. to_ascii_lowercase (header_name h) = n \<and> header_name_try_from lib (header_name h) \<noteq> None \<and>
        header_value_from_bytes lib (header_value h) \<noteq> None) (rh_headers head)))"
proof -
  have "get_all n (to_header_map lib hs) = []" if "n \<in> set HOP_BY_HOP" for hs
    using that kept_header [of n] by (fastforce simp: get_all_def filter_empty_conv)
  then show ?thesis by (auto simp: build_response_def Let_def get_all_insert get_all_to_header_map)
qed

end

text \<open>C31. An agent cannot split a response. Whatever headers the agent puts into its answer, the head that the edge builds from
  it, sent as lines and read back by a reader that takes a bare line feed for the end of a line, is exactly the edge's list of headers, and the
  body begins where the edge put it. For every name the client gets the values of all the agent's well-formed headers of that name, in order
  and with repetitions, except that malformed and hop-by-hop headers are dropped and \<open>x-norupo-stream\<close> is the edge's own. No value holds a
  control character other than a tab, and the status is a three-digit one.\<close>

theorem agent_headers_cannot_split_response:
  assumes "http_library lib"
  shows "let response = build_response lib a sid st head; headers = res_headers response in
    read_head (render_head headers @ rest) = Some (headers, rest) \<and>
    (\<forall>n. get_all n headers =
       (if n = ''x-norupo-stream'' then [show_nat (unat sid)]
        else if n \<in> set HOP_BY_HOP then []
        else map header_value (filter (\<lambda>h. to_ascii_lowercase (header_name h) = n \<and> header_name_try_from lib (header_name h) \<noteq> None \<and>
          header_value_from_bytes lib (header_value h) \<noteq> None) (rh_headers head)))) \<and>
    (\<forall>(n, v) \<in> set headers. clean_value v) \<and> 100 \<le> res_status response \<and> res_status response \<le> 999"
proof -
  let ?response = "build_response lib a sid st head"
  have "100 \<le> res_status ?response \<and> res_status ?response \<le> 999"
    by (auto simp: build_response_def Let_def http_library.status_law [OF assms])
  moreover have "read_head (render_head (res_headers ?response) @ rest) = Some (res_headers ?response, rest)"
    using http_library.response_header [OF assms] by (intro read_render_head) auto
  ultimately show ?thesis
    using http_library.response_header [OF assms] http_library.response_values [OF assms] by (auto simp: Let_def)
qed

theorem agent_headers_cannot_split_response_witness:
  "\<exists>response. response = build_response ref_http 0 7 0 \<lparr>rh_stream_id = 7, rh_status = 200, rh_headers = [\<lparr>header_name = ''X-Good'', header_value = ''1''\<rparr>,
      \<lparr>header_name = ''x-bad'', header_value = ''a'' @ [CHR 0x0D, CHR 0x0A] @ ''set-cookie: b''\<rparr>,
      \<lparr>header_name = ''transfer-encoding'', header_value = ''chunked''\<rparr>]\<rparr> \<and>
    read_head (render_head (res_headers response) @ ''hi'') = Some (res_headers response, ''hi'') \<and>
    get_all ''x-good'' (res_headers response) = [''1''] \<and> get_all ''x-bad'' (res_headers response) = [] \<and>
    get_all ''transfer-encoding'' (res_headers response) = []"
proof -
  let ?head = "\<lparr>rh_stream_id = 7, rh_status = 200, rh_headers = [\<lparr>header_name = ''X-Good'', header_value = ''1''\<rparr>,
      \<lparr>header_name = ''x-bad'', header_value = ''a'' @ [CHR 0x0D, CHR 0x0A] @ ''set-cookie: b''\<rparr>,
      \<lparr>header_name = ''transfer-encoding'', header_value = ''chunked''\<rparr>]\<rparr>"
  have names: "to_ascii_lowercase ''X-Good'' = ''x-good''" "to_ascii_lowercase ''x-bad'' = ''x-bad''"
    "to_ascii_lowercase ''transfer-encoding'' = ''transfer-encoding''" by code_simp+
  have good: "header_name_try_from ref_http ''X-Good'' \<noteq> None" "header_value_from_bytes ref_http ''1'' \<noteq> None"
    "header_value_from_bytes ref_http (''a'' @ [CHR 0x0D, CHR 0x0A] @ ''set-cookie: b'') = None" by code_simp+
  note split = agent_headers_cannot_split_response [OF ref_http.http_library_axioms, of 0 7 0 ?head "''hi''", unfolded Let_def]
  show ?thesis
    using split [THEN conjunct1] split [THEN conjunct2, THEN conjunct1, THEN spec, of "''x-good''"]
      split [THEN conjunct2, THEN conjunct1, THEN spec, of "''x-bad''"]
      split [THEN conjunct2, THEN conjunct1, THEN spec, of "''transfer-encoding''"] names good
    by (auto simp: HOP_BY_HOP_def)
qed

end
