(* ===== verification/Credit_Edge.thy ===== *)
theory Credit_Edge
  imports Ingress_Properties
begin

text \<open>
  The accounts of one stream, kept in coins. Whatever a stream may send, in either direction, is a coin that is somewhere: in
  the credit of one side, on a queue, on the wire, in the hands of a task. No step of either side makes a
  coin, so there are never more of them than the window. This theory has the coins and the edge's side:
  every operation of a session accounts for the coins it takes and gives.
\<close>

section \<open>Coins\<close>

text \<open>For one stream id: \<open>UpByte\<close> and \<open>DownByte\<close> are a byte that the edge or the agent may send, is sending or has had acknowledged; \<open>Unopened\<close>
  is the right to enter the id into the edge's table, \<open>Unserved\<close> the right to have the agent register it, which travels as the Open
  frame; a cell says where in the heap a side keeps the credit, if it does yet, a reference that a task knows it. \<open>Number\<close>
  counts the stream ids that have been or may be drawn, and nobody ever has a \<open>Forged\<close>.\<close>

datatype coin = Number | Unopened | Unserved | UpByte | DownByte | Forged
  | EdgeCell "nat option" | EdgeRef nat | AgentCell "nat option" | AgentRef nat

definition budget :: "nat \<Rightarrow> coin multiset \<Rightarrow> bool" where
  "budget W T \<longleftrightarrow> count T Number < 2 ^ 64 \<and> Forged \<notin># T \<and> count T UpByte \<le> W \<and> count T DownByte \<le> W \<and>
     count T Unopened \<le> 1 \<and> count T Unserved \<le> 1 \<and>
     (Unopened \<in># T \<longrightarrow> UpByte \<notin># T \<and> DownByte \<notin># T \<and> Unserved \<notin># T \<and>
        (\<forall>b. EdgeCell b \<in># T \<longrightarrow> b = None) \<and> (\<forall>b. AgentCell b \<in># T \<longrightarrow> b = None)) \<and>
     (Unserved \<in># T \<longrightarrow> DownByte \<notin># T \<and> (\<forall>b. AgentCell b \<in># T \<longrightarrow> b = None)) \<and>
     (\<forall>x. EdgeRef x \<in># T \<longrightarrow> EdgeCell (Some x) \<in># T) \<and> (\<forall>x. AgentRef x \<in># T \<longrightarrow> AgentCell (Some x) \<in># T) \<and>
     (\<forall>b. count T (EdgeCell b) \<le> 1 \<and> count T (AgentCell b) \<le> 1) \<and>
     (\<forall>b b'. EdgeCell b \<in># T \<longrightarrow> EdgeCell b' \<in># T \<longrightarrow> b = b') \<and> (\<forall>b b'. AgentCell b \<in># T \<longrightarrow> AgentCell b' \<in># T \<longrightarrow> b = b')"

text \<open>All but cells can be thrown away.\<close>

definition loose :: "coin multiset \<Rightarrow> bool" where
  "loose X \<longleftrightarrow> (\<forall>x. EdgeCell x \<notin># X \<and> AgentCell x \<notin># X)"

lemma loose_simps [simp]:
  "loose {#}" "loose (X + Y) \<longleftrightarrow> loose X \<and> loose Y"
  "loose (add_mset c X) \<longleftrightarrow> (\<forall>x. c \<noteq> EdgeCell x \<and> c \<noteq> AgentCell x) \<and> loose X"
  "loose (replicate_mset n UpByte)" "loose (replicate_mset n DownByte)"
  by (auto simp: loose_def)

lemma budget_drop:
  assumes "budget W (X + T)" "loose X"
  shows "budget W T"
proof -
  have "count T c \<le> count (X + T) c" for c by simp
  then have "count T Number < 2 ^ 64" "count T UpByte \<le> W" "count T DownByte \<le> W" "count T Unopened \<le> 1" "count T Unserved \<le> 1"
    "count T (EdgeCell b) \<le> 1" "count T (AgentCell b) \<le> 1" for b
    using assms(1) unfolding budget_def by (metis le_less_trans le_trans)+
  with assms show ?thesis by (auto simp: budget_def loose_def)
qed

text \<open>The coins of a frame.\<close>

definition down_coins :: "u64 \<Rightarrow> u32 \<Rightarrow> server_frame \<Rightarrow> coin multiset" where
  "down_coins sid window frame = (case frame of
     Some (SOpen req) \<Rightarrow> if so_stream_id req \<noteq> sid then {#} else if so_initial_window req = window then {#Unserved#} else {#Forged#}
   | Some (SData d) \<Rightarrow> if sd_stream_id d = sid then replicate_mset (length (sd_payload d)) UpByte else {#}
   | Some (SWindowUpdate u) \<Rightarrow> if wu_stream_id u = sid then replicate_mset (unat (wu_increment u)) DownByte else {#}
   | _ \<Rightarrow> {#})"

definition up_coins :: "u64 \<Rightarrow> client_frame \<Rightarrow> coin multiset" where
  "up_coins sid frame = (case frame of
     Some (CData d) \<Rightarrow> if sd_stream_id d = sid then replicate_mset (length (sd_payload d)) DownByte else {#}
   | Some (CWindowUpdate u) \<Rightarrow> if wu_stream_id u = sid then replicate_mset (unat (wu_increment u)) UpByte else {#}
   | _ \<Rightarrow> {#})"

definition item_coins :: "u64 \<Rightarrow> u32 \<Rightarrow> outbound_item \<Rightarrow> coin multiset" where
  "item_coins sid window item = (case item of Ok frame \<Rightarrow> down_coins sid window frame | Err _ \<Rightarrow> {#})"

lemma item_coins_Ok [simp]: "item_coins sid window (Ok frame) = down_coins sid window frame"
  by (simp add: item_coins_def)

lemma loose_frames [simp]: "loose (down_coins sid window frame)" "loose (up_coins sid cframe)"
  by (auto simp: down_coins_def up_coins_def split: option.splits server_payload.splits client_payload.splits)

section \<open>The coins of a session\<close>

definition edge_fits :: "u64 \<Rightarrow> u32 \<Rightarrow> nat option \<Rightarrow> ('m, 'qo, 'qb, 'o) session \<Rightarrow> bool" where
  "edge_fits sid window b s \<longleftrightarrow> initial_window s = window \<and> (\<forall>x y. streams s x = Some y \<longrightarrow> y < length (stream_heap s)) \<and>
     (case b of None \<Rightarrow> streams s sid = None
      | Some y \<Rightarrow> y < length (stream_heap s) \<and> (streams s sid = None \<or> streams s sid = Some y) \<and> (\<forall>x. x \<noteq> sid \<longrightarrow> streams s x \<noteq> Some y))"

definition edge_cell :: "('m \<Rightarrow> sem_view) \<Rightarrow> nat option \<Rightarrow> ('m, 'qo, 'qb, 'o) session \<Rightarrow> coin multiset" where
  "edge_cell sview b s = add_mset (EdgeCell b) (case b of None \<Rightarrow> {#} | Some y \<Rightarrow> replicate_mset (stream_credit sview y s) UpByte)"

definition edge_coins ::
    "('m \<Rightarrow> sem_view) \<Rightarrow> ('qo \<Rightarrow> outbound_item chan_view) \<Rightarrow> u64 \<Rightarrow> u32 \<Rightarrow> nat option \<Rightarrow> ('m, 'qo, 'qb, 'o) session \<Rightarrow> coin multiset" where
  "edge_coins sview oview sid window b s =
     replicate_mset (unat (next_stream_id s)) Number + (if unat (next_stream_id s) \<le> unat sid then {#Unopened#} else {#}) +
     edge_cell sview b s + sum_list (map (item_coins sid window) (queued (oview (outbound s))))"

definition edge_ledger ::
    "('m \<Rightarrow> sem_view) \<Rightarrow> ('qo \<Rightarrow> outbound_item chan_view) \<Rightarrow> u64 \<Rightarrow> u32 \<Rightarrow> coin multiset \<Rightarrow> ('m, 'qo, 'qb, 'o) session \<Rightarrow> bool" where
  "edge_ledger sview oview sid window M s \<longleftrightarrow>
     (\<exists>b. edge_fits sid window b s \<and> budget (unat window) (edge_coins sview oview sid window b s + M))"

lemma edge_ledger_drop: "edge_ledger sview oview sid window (X + M) s \<Longrightarrow> loose X \<Longrightarrow> edge_ledger sview oview sid window M s"
  unfolding edge_ledger_def union_lcomm [of _ X M] using budget_drop by blast

text \<open>Steps that touch neither the table, the credits, the numbers nor the queue, or that only take coins away.\<close>

lemma edge_ledger_frame:
  assumes "edge_ledger sview oview sid window M s" "initial_window s' = initial_window s" "next_stream_id s' = next_stream_id s"
    "streams s' = streams s" "outbound s' = outbound s" "length (stream_heap s') = length (stream_heap s)"
    "\<And>y. stream_credit sview y s' = stream_credit sview y s"
  shows "edge_ledger sview oview sid window M s'"
proof -
  have "edge_fits sid window b s' = edge_fits sid window b s" "edge_coins sview oview sid window b s' = edge_coins sview oview sid window b s" for b
    using assms(2-7) by (simp_all add: edge_fits_def edge_coins_def edge_cell_def cong: option.case_cong)
  with assms(1) show ?thesis by (simp add: edge_ledger_def)
qed

lemma edge_ledger_remove:
  assumes "edge_ledger sview oview sid window M s"
  shows "edge_ledger sview oview sid window M (s\<lparr>streams := (streams s)(x := None)\<rparr>)"
proof -
  have "edge_fits sid window b s \<Longrightarrow> edge_fits sid window b (s\<lparr>streams := (streams s)(x := None)\<rparr>)" for b
    by (auto simp: edge_fits_def split: option.splits)
  moreover have "edge_coins sview oview sid window b (s\<lparr>streams := (streams s)(x := None)\<rparr>) = edge_coins sview oview sid window b s" for b
    by (simp add: edge_coins_def edge_cell_def stream_credit_def split: option.split)
  ultimately show ?thesis using assms unfolding edge_ledger_def by metis
qed

text \<open>A frame goes on the queue or is taken from it.\<close>

lemma edge_fits_outbound [simp]: "edge_fits sid window b (s\<lparr>outbound := q\<rparr>) = edge_fits sid window b s"
  by (simp add: edge_fits_def split: option.split)

lemma edge_ledger_send:
  assumes "edge_ledger sview oview sid window (down_coins sid window frame + M) s" "queued (oview q) = queued (oview (outbound s)) @ [Ok frame]"
  shows "edge_ledger sview oview sid window M (s\<lparr>outbound := q\<rparr>)"
proof -
  have "edge_coins sview oview sid window b (s\<lparr>outbound := q\<rparr>) = edge_coins sview oview sid window b s + down_coins sid window frame" for b
    using assms(2) by (simp add: edge_coins_def edge_cell_def stream_credit_def ac_simps split: option.split)
  with assms(1) show ?thesis by (simp add: edge_ledger_def add.assoc)
qed

lemma edge_ledger_take:
  assumes "edge_ledger sview oview sid window M s" "queued (oview (outbound s)) = item # queued (oview q)"
  shows "edge_ledger sview oview sid window (item_coins sid window item + M) (s\<lparr>outbound := q\<rparr>)"
proof -
  have "edge_coins sview oview sid window b (s\<lparr>outbound := q\<rparr>) + item_coins sid window item = edge_coins sview oview sid window b s" for b
    using assms(2) by (simp add: edge_coins_def edge_cell_def stream_credit_def ac_simps split: option.split)
  then show ?thesis using assms(1) by (simp add: edge_ledger_def flip: add.assoc)
qed

text \<open>Credit is drawn, by a task that knows the cell or by another, and comes back.\<close>

lemma replicate_mset_add: "replicate_mset (m + n) x = replicate_mset m x + replicate_mset n x"
  by (rule multiset_eqI) simp

lemma edge_fits_set_stream [simp]: "edge_fits sid window b (set_stream a f s) = edge_fits sid window b s"
  by (simp add: edge_fits_def cong: option.case_cong)

lemma edge_coins_set_stream:
  "edge_coins sview oview sid window b (set_stream a f s) + edge_cell sview b s =
   edge_coins sview oview sid window b s + edge_cell sview b (set_stream a f s)"
  by (simp add: edge_coins_def ac_simps)

lemma edge_cell_other: "b \<noteq> Some a \<Longrightarrow> edge_cell sview b (set_stream a f s) = edge_cell sview b s"
  by (cases b) (auto simp: edge_cell_def stream_credit_def)

lemma edge_ref_known:
  assumes "budget W (edge_coins sview oview sid window b s + M)" "EdgeRef a \<in># M"
  shows "b = Some a"
proof -
  have "EdgeCell (Some a) \<in># edge_coins sview oview sid window b s + M" using assms unfolding budget_def by (meson union_iff)
  moreover have "EdgeCell b \<in># edge_coins sview oview sid window b s + M" by (simp add: edge_coins_def edge_cell_def)
  ultimately show ?thesis using assms(1) unfolding budget_def by metis
qed

text \<open>The cell of the stream at hand, with more or less credit.\<close>

lemma edge_coins_credit:
  assumes "b = Some a" "edge_fits sid window b s"
  shows "edge_coins sview oview sid window b (set_stream a (\<lambda>st. st\<lparr>send_credit := m\<rparr>) s) + replicate_mset (stream_credit sview a s) UpByte =
    edge_coins sview oview sid window b s + replicate_mset (permits (sview m)) UpByte"
proof -
  have "stream_credit sview a (set_stream a (\<lambda>st. st\<lparr>send_credit := m\<rparr>) s) = permits (sview m)"
    using assms by (simp add: stream_credit_def edge_fits_def)
  then show ?thesis using assms(1) by (simp add: edge_coins_def edge_cell_def ac_simps)
qed

lemma edge_coins_other:
  "b \<noteq> Some a \<Longrightarrow> edge_coins sview oview sid window b (set_stream a f s) = edge_coins sview oview sid window b s"
  by (simp add: edge_coins_def edge_cell_other)

lemma edge_ledger_draw:
  assumes "edge_ledger sview oview sid window ({#EdgeRef a#} + M) s" "permits (sview m) + n = stream_credit sview a s"
  shows "edge_ledger sview oview sid window ({#EdgeRef a#} + replicate_mset n UpByte + M) (set_stream a (\<lambda>st. st\<lparr>send_credit := m\<rparr>) s)"
proof -
  let ?s = "set_stream a (\<lambda>st. st\<lparr>send_credit := m\<rparr>) s"
  obtain b where b: "edge_fits sid window b s" "budget (unat window) (edge_coins sview oview sid window b s + ({#EdgeRef a#} + M))"
    using assms(1) by (auto simp: edge_ledger_def)
  have "b = Some a" using edge_ref_known [OF b(2), of a] by simp
  then have "edge_coins sview oview sid window b ?s + replicate_mset n UpByte = edge_coins sview oview sid window b s"
    using edge_coins_credit [of b a sid window s sview oview m] b(1) assms(2) [symmetric] by (simp add: replicate_mset_add ac_simps)
  then have "edge_coins sview oview sid window b ?s + ({#EdgeRef a#} + replicate_mset n UpByte + M) =
      edge_coins sview oview sid window b s + ({#EdgeRef a#} + M)"
    by (metis add.assoc add.left_commute)
  with b show ?thesis unfolding edge_ledger_def by (metis edge_fits_set_stream)
qed

lemma edge_ledger_waste:
  assumes "edge_ledger sview oview sid window M s" "permits (sview m) + n = stream_credit sview a s"
  shows "edge_ledger sview oview sid window M (set_stream a (\<lambda>st. st\<lparr>send_credit := m\<rparr>) s)"
proof -
  let ?s = "set_stream a (\<lambda>st. st\<lparr>send_credit := m\<rparr>) s"
  obtain b where b: "edge_fits sid window b s" "budget (unat window) (edge_coins sview oview sid window b s + M)"
    using assms(1) by (auto simp: edge_ledger_def)
  have "budget (unat window) (edge_coins sview oview sid window b ?s + M)"
  proof (cases "b = Some a")
    case True
    then have "edge_coins sview oview sid window b s + M = replicate_mset n UpByte + (edge_coins sview oview sid window b ?s + M)"
      using edge_coins_credit [of b a sid window s sview oview m] b(1) assms(2) [symmetric] by (simp add: replicate_mset_add ac_simps)
    with b(2) have "budget (unat window) (replicate_mset n UpByte + (edge_coins sview oview sid window b ?s + M))" by metis
    then show ?thesis by (rule budget_drop) simp
  qed (use b in \<open>simp add: edge_coins_other\<close>)
  with b(1) show ?thesis unfolding edge_ledger_def by auto
qed

lemma edge_ledger_grant:
  assumes "edge_ledger sview oview sid window ((if x = sid then replicate_mset n UpByte else {#}) + M) s" "streams s x = Some a"
    and "permits (sview m) = stream_credit sview a s + n"
  shows "edge_ledger sview oview sid window M (set_stream a (\<lambda>st. st\<lparr>send_credit := m\<rparr>) s)"
proof -
  let ?s = "set_stream a (\<lambda>st. st\<lparr>send_credit := m\<rparr>) s" and ?M = "(if x = sid then replicate_mset n UpByte else {#}) + M"
  obtain b where b: "edge_fits sid window b s" "budget (unat window) (edge_coins sview oview sid window b s + ?M)"
    using assms(1) by (auto simp: edge_ledger_def)
  have "budget (unat window) (edge_coins sview oview sid window b ?s + M)"
  proof (cases "x = sid")
    case True
    then have "b = Some a" using assms(2) b(1) by (auto simp: edge_fits_def split: option.splits)
    then have "edge_coins sview oview sid window b ?s = edge_coins sview oview sid window b s + replicate_mset n UpByte"
      using edge_coins_credit [of b a sid window s sview oview m] b(1) assms(3) by (simp add: replicate_mset_add ac_simps)
    with b(2) True show ?thesis by (simp add: ac_simps)
  next
    case False
    then have "b \<noteq> Some a" using assms(2) b(1) by (auto simp: edge_fits_def)
    with b(2) False show ?thesis by (simp add: edge_coins_other)
  qed
  with b(1) show ?thesis unfolding edge_ledger_def by auto
qed

section \<open>Every operation of a session accounts for its coins\<close>

text \<open>Drawing a number and entering the table.\<close>

definition to_open :: "u64 \<Rightarrow> u64 \<Rightarrow> coin multiset" where
  "to_open sid x = (if x = sid then {#Unopened#} else {#})"

definition to_serve :: "u64 \<Rightarrow> u64 \<Rightarrow> coin multiset" where
  "to_serve sid x = (if x = sid then {#Unserved#} else {#})"

lemma edge_ledger_number:
  assumes "edge_ledger sview oview sid window ({#Number#} + M) s"
  shows "edge_ledger sview oview sid window (to_open sid (next_stream_id s) + M) (s\<lparr>next_stream_id := next_stream_id s + 1\<rparr>)"
proof -
  let ?n = "next_stream_id s" and ?s = "s\<lparr>next_stream_id := next_stream_id s + 1\<rparr>"
  obtain b where b: "edge_fits sid window b s" "budget (unat window) (edge_coins sview oview sid window b s + ({#Number#} + M))"
    using assms by (auto simp: edge_ledger_def)
  then have "unat ?n + 1 < 2 ^ 64" by (simp add: budget_def edge_coins_def)
  then have n: "unat (?n + 1) = Suc (unat ?n)" by (simp add: unat_word_ariths)
  have cell: "edge_cell sview b ?s = edge_cell sview b s" by (simp add: edge_cell_def stream_credit_def split: option.split)
  have "edge_coins sview oview sid window b ?s + (to_open sid ?n + M) = edge_coins sview oview sid window b s + ({#Number#} + M)"
    by (rule multiset_eqI) (simp add: edge_coins_def n cell to_open_def word_unat_eq_iff [of ?n])
  moreover have "edge_fits sid window b ?s" using b(1) by (simp add: edge_fits_def split: option.splits)
  ultimately show ?thesis using b(2) unfolding edge_ledger_def by metis
qed

lemma budget_enter:
  assumes "budget W (add_mset (EdgeCell None) (add_mset Unopened X))"
  shows "budget W (add_mset (EdgeCell (Some k)) (replicate_mset W UpByte + add_mset Unserved X))"
proof -
  have "EdgeCell b \<notin># X" for b
  proof (cases b)
    case None
    have "count (add_mset (EdgeCell None) (add_mset Unopened X)) (EdgeCell None) \<le> 1" using assms unfolding budget_def by blast
    with None show ?thesis by (simp add: not_in_iff)
  qed (use assms in \<open>auto simp: budget_def\<close>)
  moreover have "UpByte \<notin># X" "DownByte \<notin># X" "Unserved \<notin># X" "Unopened \<notin># X" "Forged \<notin># X" "count X Number < 2 ^ 64" "EdgeRef x \<notin># X" for x
    using assms calculation by (auto simp: budget_def not_in_iff)
  moreover from calculation have "count X UpByte = 0" "count X DownByte = 0" "count X Unserved = 0" "count X Unopened = 0" "count X (EdgeCell b) = 0" for b
    by (simp_all add: count_eq_zero_iff)
  moreover have "AgentCell b \<in># X \<Longrightarrow> b = None" "AgentCell b \<in># X \<Longrightarrow> AgentCell b' \<in># X \<Longrightarrow> b = b'" "AgentRef x \<notin># X" "count X (AgentCell b) \<le> 1" for x b b'
    using assms by (auto simp: budget_def split: if_splits)
  ultimately show ?thesis by (auto simp: budget_def)
qed

lemma edge_ledger_enter:
  assumes "edge_ledger sview oview sid window (to_open sid x + M) s" "permits (sview (send_credit st)) = unat window"
  shows "edge_ledger sview oview sid window (to_serve sid x + M)
    (s\<lparr>stream_heap := stream_heap s @ [st], streams := (streams s)(x \<mapsto> length (stream_heap s))\<rparr>)" (is "edge_ledger _ _ _ _ _ ?s")
proof -
  let ?k = "length (stream_heap s)"
  obtain b where b: "edge_fits sid window b s" "budget (unat window) (edge_coins sview oview sid window b s + (to_open sid x + M))"
    using assms(1) by (auto simp: edge_ledger_def)
  have coins: "edge_coins sview oview sid window b' ?s =
      replicate_mset (unat (next_stream_id s)) Number + (if unat (next_stream_id s) \<le> unat sid then {#Unopened#} else {#}) +
      edge_cell sview b' ?s + sum_list (map (item_coins sid window) (queued (oview (outbound s))))" for b'
    by (simp add: edge_coins_def)
  show ?thesis
  proof (cases "x = sid")
    case True
    have "EdgeCell b \<in># edge_coins sview oview sid window b s + (to_open sid x + M)" by (simp add: edge_coins_def edge_cell_def)
    then have "b = None" using b(2) True by (auto simp: budget_def to_open_def)
    have fits: "edge_fits sid window (Some ?k) ?s" using b(1) by (auto simp: edge_fits_def True less_Suc_eq split: if_splits)
    let ?X = "replicate_mset (unat (next_stream_id s)) Number + (if unat (next_stream_id s) \<le> unat sid then {#Unopened#} else {#}) +
      sum_list (map (item_coins sid window) (queued (oview (outbound s)))) + M"
    have "edge_coins sview oview sid window b s + (to_open sid x + M) = add_mset (EdgeCell None) (add_mset Unopened ?X)"
      by (simp add: edge_coins_def edge_cell_def \<open>b = None\<close> to_open_def True)
    moreover have "edge_coins sview oview sid window (Some ?k) ?s + (to_serve sid x + M) =
        add_mset (EdgeCell (Some ?k)) (replicate_mset (unat window) UpByte + add_mset Unserved ?X)"
      unfolding coins using assms(2) by (simp add: edge_cell_def stream_credit_def to_serve_def True)
    ultimately have "budget (unat window) (edge_coins sview oview sid window (Some ?k) ?s + (to_serve sid x + M))"
      using b(2) budget_enter by metis
    with fits show ?thesis unfolding edge_ledger_def by blast
  next
    case False
    have y: "y < ?k" if "b = Some y" for y using b(1) that by (simp add: edge_fits_def)
    then have "edge_cell sview b ?s = edge_cell sview b s" by (auto simp: edge_cell_def stream_credit_def nth_append split: option.split)
    then have "edge_coins sview oview sid window b ?s = edge_coins sview oview sid window b s" unfolding coins by (simp add: edge_coins_def)
    moreover have "edge_fits sid window b ?s" using b(1) False by (auto simp: edge_fits_def less_Suc_eq split: option.splits if_splits)
    ultimately show ?thesis using b(2) False unfolding edge_ledger_def by (metis to_open_def to_serve_def)
  qed
qed

lemma edge_ledger_ref:
  assumes "edge_ledger sview oview sid window M s" "streams s sid = Some a"
  shows "edge_ledger sview oview sid window ({#EdgeRef a#} + M) s"
proof -
  obtain b where b: "edge_fits sid window b s" "budget (unat window) (edge_coins sview oview sid window b s + M)"
    using assms(1) by (auto simp: edge_ledger_def)
  then have "b = Some a" using assms(2) by (auto simp: edge_fits_def split: option.splits)
  then have "EdgeCell (Some a) \<in># edge_coins sview oview sid window b s + M" by (simp add: edge_coins_def edge_cell_def)
  with b(2) have "budget (unat window) (edge_coins sview oview sid window b s + ({#EdgeRef a#} + M))"
    by (auto simp: budget_def)
  with b(1) show ?thesis unfolding edge_ledger_def by blast
qed

definition grant_coins :: "coin \<Rightarrow> u64 \<Rightarrow> u64 \<Rightarrow> nat \<Rightarrow> coin multiset" where
  "grant_coins c sid x n = (if x = sid then replicate_mset n c else {#})"

lemma loose_grant [simp]: "loose (grant_coins UpByte sid x n)" "loose (grant_coins DownByte sid x n)"
  by (simp_all add: grant_coins_def)

lemma grant_coins_0 [simp]: "grant_coins c sid x 0 = {#}"
  by (simp add: grant_coins_def)

lemma grant_coins_split: "m \<le> n \<Longrightarrow> grant_coins c sid x n = grant_coins c sid x (n - m) + grant_coins c sid x m"
  by (simp add: grant_coins_def flip: replicate_mset_add)

lemma down_coins_frames [simp]:
  "down_coins sid window (Some (SData \<lparr>sd_stream_id = x, sd_payload = d\<rparr>)) = grant_coins UpByte sid x (length d)"
  "down_coins sid window (Some (SWindowUpdate \<lparr>wu_stream_id = x, wu_increment = n\<rparr>)) = grant_coins DownByte sid x (unat n)"
  "down_coins sid window (Some (SOpen \<lparr>so_stream_id = x, so_tunnel_id = tid, so_kind = k, so_http = h, so_remote_addr = addr,
     so_initial_window = window\<rparr>)) = to_serve sid x"
  "down_coins sid window (Some (SEnd e)) = {#}" "down_coins sid window (Some (SReset r)) = {#}" "down_coins sid window (Some (SPing p)) = {#}"
  "down_coins sid window (Some (STunnelStatus st)) = {#}" "down_coins sid window (Some (SWelcome w)) = {#}"
  "down_coins sid window (Some (SShutdown notice)) = {#}" "down_coins sid window (Some (SResponseHead head)) = {#}" "down_coins sid window None = {#}"
  by (simp_all add: down_coins_def grant_coins_def to_serve_def)

lemma up_coins_frames [simp]:
  "up_coins sid (Some (CData d)) = grant_coins DownByte sid (sd_stream_id d) (length (sd_payload d))"
  "up_coins sid (Some (CWindowUpdate u)) = grant_coins UpByte sid (wu_stream_id u) (unat (wu_increment u))"
  "up_coins sid None = {#}" "up_coins sid (Some (CHello h)) = {#}" "up_coins sid (Some (COpenTunnel t)) = {#}"
  "up_coins sid (Some (CCloseTunnel tid)) = {#}" "up_coins sid (Some (CResponseHead head)) = {#}" "up_coins sid (Some (CEnd e)) = {#}"
  "up_coins sid (Some (CReset r)) = {#}" "up_coins sid (Some (CPong p)) = {#}"
  by (simp_all add: up_coins_def grant_coins_def)

context session_runtime
begin

abbreviation "ledger \<equiv> edge_ledger sview oview"

lemma settled_spare: "loose X \<Longrightarrow> settled (ledger sid window) r t \<Longrightarrow> settled (ledger sid window) (X + r) t"
  by (rule accounts.Exchange [of _ _ r]) (simp_all add: edge_ledger_drop add.assoc)

lemma ledger_set_stream:
  assumes "ledger sid window M s" "\<And>st. permits (sview (send_credit (f st))) = permits (sview (send_credit st))"
  shows "ledger sid window M (set_stream a f s)"
proof (rule edge_ledger_frame [OF assms(1)])
  show "stream_credit sview y (set_stream a f s) = stream_credit sview y s" for y
    using assms(2) by (cases "a < length (stream_heap s)") (auto simp: stream_credit_def set_stream_def nth_list_update list_update_beyond)
qed simp_all

lemma coins_set_stream:
  "(\<And>st. permits (sview (send_credit (f st))) = permits (sview (send_credit st))) \<Longrightarrow>
   neutral (ledger sid window) (update (set_stream a f))"
  by (rule neutral_update) (rule ledger_set_stream)

lemma coins_session_send: "accounts (ledger sid window) (down_coins sid window frame + r) (session_send R frame) (\<lambda>_. r)"
  unfolding session_send_def
proof (rule accounts_await, goal_cases)
  case (1 s s' sent F)
  show ?case
  proof (cases "chan_send (rt_out R) (outbound s) (Ok frame)")
    case (Ready q)
    then have "queued (oview q) = queued (oview (outbound s)) @ [Ok frame]" using out.send_Ready by simp
    with 1 Ready show ?thesis by (auto simp: add.assoc intro: edge_ledger_send)
  next
    case Gone
    with 1 show ?thesis by (auto simp: add.assoc intro: edge_ledger_drop)
  qed (use 1 in simp)
qed

lemma coins_send_as: "down_coins sid window frame = X \<Longrightarrow> accounts (ledger sid window) (X + r) (session_send R frame) (\<lambda>_. r)"
  using coins_session_send by blast

lemma coins_plain_send: "down_coins sid window frame = {#} \<Longrightarrow> neutral (ledger sid window) (session_send R frame)"
  using coins_session_send [of sid window frame] by (simp add: neutral_def)

lemma coins_try_send: "down_coins sid window frame = {#} \<Longrightarrow> neutral (ledger sid window) (session_try_send R frame)"
  unfolding session_try_send_def
proof (rule neutral_atomically, goal_cases)
  case (1 s M)
  show ?case
  proof (cases "chan_send (rt_out R) (outbound s) (Ok frame)")
    case (Ready q)
    then have "queued (oview q) = queued (oview (outbound s)) @ [Ok frame]" using out.send_Ready by simp
    with 1 Ready show ?thesis by (auto simp: out.try_send_law intro!: edge_ledger_send)
  qed (use 1 in \<open>auto simp: out.try_send_law\<close>)
qed

lemma coins_close_stream [neutral_intros]: "neutral (ledger sid window) (close_stream R x)"
proof -
  have "neutral (ledger sid window) (atomically (\<lambda>s. (s\<lparr>streams := (streams s)(x := None)\<rparr>, streams s x)))"
    by (rule neutral_atomically) (simp add: edge_ledger_remove)
  moreover have "neutral (ledger sid window) (update (\<lambda>s. s\<lparr>open_streams := open_streams s - 1\<rparr>))"
    by (rule neutral_update, erule edge_ledger_frame) (simp_all add: stream_credit_def)
  ultimately show ?thesis
    unfolding close_stream_def
    by (auto intro!: neutral_intros coins_set_stream simp: sem.sem_close_law drop_stream_senders_def)
qed

lemma coins_receivers [neutral_intros]:
  "neutral (ledger sid window) (drop_head_receiver R a)" "neutral (ledger sid window) (drop_body_receiver R a)"
  "neutral (ledger sid window) (drop_body_sender R a)"
  unfolding drop_head_receiver_def drop_body_receiver_def drop_body_sender_def by (simp_all add: coins_set_stream)


text \<open>Opening a stream draws a number, enters the table and tells the agent.\<close>

lemma coins_number_then:
  assumes "\<And>x. settled (ledger sid window) (to_open sid x) (k x)"
  shows "settled (ledger sid window) {#Number#} (call (atomically (\<lambda>s. (s\<lparr>next_stream_id := next_stream_id s + 1\<rparr>, next_stream_id s))) k)"
proof (rule accounts_atomically_then, goal_cases)
  case (1 s F)
  show ?case by (rule exI [of _ "to_open sid (next_stream_id s)"]) (use 1 assms edge_ledger_number in auto)
qed

lemma coins_enter_then:
  assumes "\<And>a. settled (ledger sid window) (to_serve sid x) (k a)"
  shows "settled (ledger sid window) (to_open sid x)
    (call (atomically (\<lambda>s. (s\<lparr>stream_heap := stream_heap s @ [fresh_stream R (initial_window s)],
                              streams := (streams s)(x \<mapsto> length (stream_heap s))\<rparr>, length (stream_heap s)))) k)"
proof (rule accounts_atomically_then, goal_cases)
  case (1 s F)
  then have "initial_window s = window" by (auto simp: edge_ledger_def edge_fits_def)
  moreover have "unat window \<le> MAX_PERMITS" using unsigned_less [where ?'a = nat and w = window] by (simp add: MAX_PERMITS_def)
  ultimately have "permits (sview (send_credit (fresh_stream R (initial_window s)))) = unat window"
    by (simp add: fresh_stream_def sem.sem_new_law)
  with 1 assms show ?case by (auto intro!: exI [of _ "to_serve sid x"] edge_ledger_enter)
qed

lemma coins_tell:
  "settled (ledger sid window) (to_serve sid x) (call (read initial_window) (\<lambda>w.
     call (session_send R (Some (SOpen \<lparr>so_stream_id = x, so_tunnel_id = tid, so_kind = k, so_http = h,
       so_remote_addr = addr, so_initial_window = w\<rparr>))) (\<lambda>opened.
     if \<not> opened then
       call (close_stream R x) (\<lambda>_. call (drop_body_receiver R a) (\<lambda>_. call (drop_head_receiver R a) (\<lambda>_. Return gone)))
     else Return resp)))"
proof (rule accounts_read_then, goal_cases)
  case (1 s F)
  then have w: "initial_window s = window" by (auto simp: edge_ledger_def edge_fits_def)
  with 1 show ?case
    by (intro exI [of _ "to_serve sid x + {#}"] conjI accounts_call [OF coins_send_as])
      (auto intro!: settled_neutral neutral_intros)
qed

lemma coins_open_http_stream: "settled (ledger sid window) {#Number#} (open_http_stream R tid head addr)"
  unfolding open_http_stream_def
proof (rule accounts_read_then, goal_cases)
  case (1 s F)
  have counted: "neutral (ledger sid window) (update (\<lambda>s. s\<lparr>open_streams := open_streams s + 1\<rparr>))"
    by (rule neutral_update, erule edge_ledger_frame) (simp_all add: stream_credit_def)
  show ?case
  proof (cases "at_stream_limit s")
    case True
    with edge_ledger_drop [OF 1] show ?thesis by (auto intro: exI [of _ "{#}"])
  next
    case False
    show ?thesis
      unfolding prod.case using 1 False
      by (intro exI [of _ "{#Number#}"])
        (auto intro!: coins_number_then coins_enter_then coins_tell accounts_call [OF neutralD [OF counted]])
  qed
qed

lemma coins_acquire:
  "accounts (ledger sid window) {#EdgeRef a#} (acquire_credit R a n) (\<lambda>ok. if ok then {#EdgeRef a#} + replicate_mset n UpByte else {#})"
  "neutral (ledger sid window) (acquire_credit R a n)"
proof -
  have drawn: "permits (sview m) + n = stream_credit sview a s" if "sem_acquire (rt_sem R) (send_credit (stream_heap s ! a)) n = Ready m" for s m
    using sem.acquire_Ready [OF that] by (simp add: stream_credit_def)
  show "accounts (ledger sid window) {#EdgeRef a#} (acquire_credit R a n) (\<lambda>ok. if ok then {#EdgeRef a#} + replicate_mset n UpByte else {#})"
    unfolding acquire_credit_def
    by (rule accounts_await)
      (auto split: poll.splits intro: edge_ledger_draw [simplified] edge_ledger_drop [where X = "{#EdgeRef a#}"] drawn)
  show "neutral (ledger sid window) (acquire_credit R a n)"
    unfolding acquire_credit_def
    by (rule neutral_await) (auto split: poll.splits intro: edge_ledger_waste drawn)
qed

lemma coins_send_chunks:
  "\<forall>c \<in> set cs. length c \<le> MAX_CHUNK \<Longrightarrow> settled (ledger sid window) (if x = sid then {#EdgeRef a#} else {#}) (send_chunks R a x cs)"
proof (induction cs)
  case Nil
  show ?case by (auto intro: settled_spare [where r = 0, simplified])
next
  case (Cons c cs)
  let ?ref = "if x = sid then {#EdgeRef a#} else {#}"
  have len: "unat (u32_saturating (length c)) = length c" using Cons.prems by (simp add: unat_chunk_len)
  have sent: "settled (ledger sid window) (grant_coins UpByte sid x (length c) + ?ref)
      (call (session_send R (Some (SData \<lparr>sd_stream_id = x, sd_payload = c\<rparr>))) (\<lambda>sent.
       if \<not> sent then Return False else send_chunks R a x cs))"
    using Cons by (intro accounts_call [OF coins_send_as]) (auto intro: settled_spare [where r = 0, simplified])
  have drawn: "accounts (ledger sid window) ?ref (acquire_credit R a (length c))
      (\<lambda>ok. if ok then grant_coins UpByte sid x (length c) + ?ref else {#})"
    using coins_acquire(1) [of sid window a "length c"] neutralD [OF coins_acquire(2) [of sid window a "length c"], of "{#}"]
    by (auto simp: grant_coins_def add.commute cong: if_cong)
  show ?case unfolding send_chunks.simps len by (rule accounts_call [OF drawn]) (use sent in auto)
qed

lemma coins_send_stream_data: "settled (ledger sid window) {#} (send_stream_data R x payload)"
  unfolding send_stream_data_def
proof (rule accounts_read_then, goal_cases)
  case (1 s F)
  have chunks: "settled (ledger sid window) (if x = sid then {#EdgeRef a#} else {#}) (send_chunks R a x (split_chunks payload))" for a
    by (rule coins_send_chunks) (simp add: split_chunks_bounded)
  show ?case
  proof (cases "streams s x")
    case (Some a)
    with 1 chunks show ?thesis
      by (intro exI [of _ "if x = sid then {#EdgeRef a#} else {#}"]) (auto dest: edge_ledger_ref)
  qed (use 1 in \<open>auto intro: exI [of _ "{#}"]\<close>)
qed

lemma coins_on_window_update: "settled (ledger sid window) (grant_coins UpByte sid x (unat n)) (on_window_update R x n)"
  unfolding on_window_update_def
proof (rule accounts_access, goal_cases)
  case (1 s s' u F)
  show ?case
  proof (cases "streams s x")
    case None
    with 1 show ?thesis by (auto intro: edge_ledger_drop)
  next
    case (Some a)
    with 1(2) obtain m where m: "sem_add (rt_sem R) (send_credit (stream_heap s ! a)) (unat n) = Some m"
      "s' = set_stream a (\<lambda>st. st\<lparr>send_credit := m\<rparr>) s" by (auto split: option.splits)
    have "permits (sview m) = stream_credit sview a s + unat n" using sem.add_Some [OF m(1)] by (simp add: stream_credit_def)
    with 1(1) Some m(2) show ?thesis by (auto simp: grant_coins_def intro!: edge_ledger_grant [where x = x and n = "unat n"])
  qed
qed (simp add: edge_ledger_drop)

lemma coins_grant_window: "settled (ledger sid window) (grant_coins DownByte sid x (unat n)) (grant_window R x n)"
  unfolding grant_window_def using coins_send_as [OF down_coins_frames(2), where r = "{#}"] by auto

lemma coins_small [neutral_intros]:
  "neutral (ledger sid window) (send_stream_end R x)" "neutral (ledger sid window) (reset_stream R x code message)"
  "neutral (ledger sid window) (close_all_streams R keys)" "neutral (ledger sid window) (guard_drop R x)"
  unfolding send_stream_end_def reset_stream_def close_all_streams_def guard_drop_def
  by (auto intro!: neutral_intros coins_plain_send coins_try_send)

lemma coins_body_ops [neutral_intros]:
  "neutral (ledger sid window) (on_response_head R head)" "neutral (ledger sid window) (stream_body_sender R x)"
  "neutral (ledger sid window) (body_send R a chunk)" "neutral (ledger sid window) (poll_body R lib a)"
proof -
  show "neutral (ledger sid window) (on_response_head R head)"
    unfolding on_response_head_def by (rule neutral_update) (auto split: option.splits intro!: ledger_set_stream)
  show "neutral (ledger sid window) (stream_body_sender R x)"
    unfolding stream_body_sender_def by (rule neutral_atomically) (auto split: option.splits intro!: ledger_set_stream)
  show "neutral (ledger sid window) (body_send R a chunk)"
    unfolding body_send_def by (rule neutral_await) (auto split: poll.splits intro!: ledger_set_stream)
  show "neutral (ledger sid window) (poll_body R lib a)"
    unfolding poll_body_def by (rule neutral_await) (auto intro!: ledger_set_stream)
qed

lemma coins_tunnels [neutral_intros]:
  "neutral (ledger sid window) (update (insert_tunnel t))" "neutral (ledger sid window) (atomically (remove_tunnel tid))"
  by (auto intro!: neutral_update neutral_atomically elim!: edge_ledger_frame simp: insert_tunnel_def remove_tunnel_def stream_credit_def)

lemma coins_on_stream_data:
  "accounts (ledger sid window) (grant_coins DownByte sid x (length d)) (on_stream_data R x d) (grant_coins DownByte sid x)"
proof -
  let ?X = "grant_coins DownByte sid x (length d)"
  have none: "accounts (ledger sid window) ?X (Return 0) (grant_coins DownByte sid x)"
    by (rule accounts.Exchange [where r' = "{#}"]) (auto intro: accounts_Return edge_ledger_drop)
  have all: "accounts (ledger sid window) ?X (Return (length d)) (grant_coins DownByte sid x)" by (rule accounts.Return)
  show ?thesis
    unfolding on_stream_data_def
    by (auto intro!: none all accounts_call [OF neutralD] neutral_intros split: option.split)
qed

end

end
