(* ===== verification/Credit_Node.thy ===== *)
theory Credit_Node
  imports Credit_Edge
begin

text \<open>
  The accounts of one stream on a node: the tasks of a node account for the coins of a stream of one of its sessions. The frames of
  the agent bring coins, a public request brings the right to draw a number, and everything else, on this session or on
  another, neither takes nor gives.
\<close>

definition node_ledger ::
    "('m \<Rightarrow> sem_view) \<Rightarrow> ('qo \<Rightarrow> outbound_item chan_view) \<Rightarrow> nat \<Rightarrow> u64 \<Rightarrow> u32 \<Rightarrow> coin multiset \<Rightarrow> ('m, 'qo, 'qb, 'o, 'r) server \<Rightarrow> bool" where
  "node_ledger sview oview a sid window M w \<longleftrightarrow> has_session a w \<and> edge_ledger sview oview sid window M (session_at a w)"

lemma node_ledger_drop:
  "node_ledger sview oview a sid window (X + M) w \<Longrightarrow> loose X \<Longrightarrow> node_ledger sview oview a sid window M w"
  unfolding node_ledger_def using edge_ledger_drop by blast

lemma node_ledger_frame:
  "session_heap (app_sessions w') = session_heap (app_sessions w) \<Longrightarrow>
   node_ledger sview oview a sid window M w' = node_ledger sview oview a sid window M w"
  by (simp add: node_ledger_def has_session_def session_at_def)

lemma node_ledger_elsewhere:
  "b \<noteq> a \<Longrightarrow> node_ledger sview oview a sid window M (set_session b s w) = node_ledger sview oview a sid window M w"
  by (simp add: node_ledger_def)

text \<open>An await that can be cancelled and takes no coins.\<close>

lemma settled_cancellable_step:
  assumes "\<And>s s' t F. J F s \<Longrightarrow> f s = Some (s', t) \<Longrightarrow> J F s' \<and> (\<exists>a. t = Return a)"
  shows "settled J 0 (cancellable c (Step f))"
  unfolding cancellable.simps
proof (rule accounts.Step, goal_cases)
  case (1 s s' t F)
  show ?case
  proof (cases "c s")
    case False
    with 1 obtain u where "f s = Some (s', u)" "t = cancellable c u" by auto
    with 1 assms [of F s s' u] show ?thesis by (auto intro!: exI [of _ 0])
  qed (use 1 in \<open>auto intro: exI [of _ 0]\<close>)
qed

context session_runtime
begin

abbreviation "purse \<equiv> node_ledger sview oview"

lemma coins_on_session:
  assumes "accounts (ledger sid window) r t Q"
  shows "accounts (purse a sid window) r (on_session a t) Q"
  unfolding on_session_def
  by (rule accounts_zoom [OF assms, where rest = "\<lambda>x w. x = {#} \<and> has_session a w"]) (auto simp: node_ledger_def)

lemma neutral_on_session [neutral_intros]:
  "neutral (ledger sid window) t \<Longrightarrow> neutral (purse a sid window) (on_session a t)"
  unfolding neutral_def by (blast intro: coins_on_session)

lemma settled_on_session: "settled (ledger sid window) r t \<Longrightarrow> settled (purse a sid window) r (on_session a t)"
  by (rule coins_on_session)

lemma settled_elsewhere:
  assumes "b \<noteq> a"
  shows "settled (purse a sid window) {#} (on_session b t)"
  unfolding on_session_def
proof (induction t rule: task_induct)
  case (Step f)
  show ?case
    unfolding zoom.simps
    by (rule accounts.Step) (use Step assms in \<open>auto simp: node_ledger_elsewhere intro!: exI [of _ "{#}"]\<close>)
qed (auto intro: accounts.Spawn [where r = "{#}" and r' = "{#}", simplified])

lemma purse_spare: "loose X \<Longrightarrow> settled (purse a sid window) r t \<Longrightarrow> settled (purse a sid window) (X + r) t"
  by (rule accounts.Exchange [of _ _ r]) (simp_all add: node_ledger_drop add.assoc)

lemma coins_registry [neutral_intros]:
  "neutral (purse a sid window) (registry_claim G record ttl)" "neutral (purse a sid window) (registry_lookup G key)"
  "neutral (purse a sid window) (registry_renew G key s ttl)" "neutral (purse a sid window) (registry_release G key s)"
  unfolding registry_claim_def registry_lookup_def registry_renew_def registry_release_def
  by (auto intro!: neutral_atomically simp: node_ledger_def has_session_def session_at_def split: prod.splits)

lemma coins_register_tunnel: "neutral (purse a sid window) (register_tunnel G a ent req)"
  unfolding register_tunnel_def
  by (auto intro!: neutral_intros simp: Let_def split: result.split claim.split)

lemma coins_handle_client_frame: "settled (purse a sid window) (up_coins sid frame) (handle_client_frame R G a ent frame)"
proof -
  have granted: "settled (purse a sid window) (grant_coins DownByte sid x n)
      (call (on_session a (grant_window R x (u32_saturating n))) (\<lambda>_. Return ()))" for x n
  proof -
    have "unat (u32_saturating n) \<le> n" by (simp add: unat_u32_saturating)
    moreover have "settled (purse a sid window) (grant_coins DownByte sid x (unat (u32_saturating n)))
        (call (on_session a (grant_window R x (u32_saturating n))) (\<lambda>_. Return ()))"
      by (intro settled_call settled_on_session coins_grant_window) simp
    ultimately show ?thesis
      using grant_coins_split [of "unat (u32_saturating n)" n DownByte sid x] by (auto intro!: purse_spare)
  qed
  have data: "settled (purse a sid window) (grant_coins DownByte sid x (length d))
      (call (on_session a (on_stream_data R x d)) (\<lambda>accepted.
       if 0 < accepted then call (on_session a (grant_window R x (u32_saturating accepted))) (\<lambda>_. Return ()) else Return ()))" for x d
    by (rule accounts_call [OF coins_on_session [OF coins_on_stream_data]]) (auto intro: granted)
  have update: "settled (purse a sid window) (grant_coins UpByte sid x (unat n)) (on_session a (on_window_update R x n))" for x n
    by (intro settled_on_session coins_on_window_update)
  show ?thesis
  proof (cases frame)
    case (Some payload)
    then show ?thesis
      using data update
      by (cases payload) (auto simp: handle_client_frame_def on_stream_end_def on_stream_reset_def
          intro!: settled_neutral neutral_intros coins_register_tunnel coins_plain_send)
  qed (simp add: handle_client_frame_def)
qed

text \<open>Public requests. One that goes to this session draws a number.\<close>

lemma settled_pump_body: "settled (ledger sid window) {#} (pump_body R x frames)"
  by (induction frames)
    (auto intro!: settled_call coins_send_stream_data settled_neutral [OF coins_small(1)] settled_neutral [OF coins_small(2)]
      split: result.split body_frame.split)

lemma coins_finish_forward: "neutral (purse a sid window) (finish_forward R lib a x st answer)"
  unfolding finish_forward_def by (auto intro!: neutral_intros split: option.split)

lemma coins_await_head: "neutral (purse a sid window) (await_head R b st deadline)"
  unfolding await_head_def by (rule neutral_await) (auto split: option.splits if_splits)

lemma settled_finish_elsewhere:
  "b \<noteq> a \<Longrightarrow> settled (purse a sid window) {#} (finish_forward R lib b x st answer)"
  unfolding finish_forward_def by (auto intro!: settled_call settled_elsewhere settled_neutral [OF neutral_read] split: option.split)

lemma settled_forward_local: "settled (purse a sid window) {#Number#} (forward_local R lib b record req addr)"
proof -
  have finish: "settled (purse a sid window) {#} (finish_forward R lib b x st answer)" for x st answer
    by (cases "b = a") (auto intro: settled_neutral coins_finish_forward settled_finish_elsewhere)
  have pump: "settled (purse a sid window) {#} (on_session b (pump_body R x frames))" for x frames
    by (cases "b = a") (auto intro: settled_on_session settled_pump_body settled_elsewhere)
  have opened: "settled (purse a sid window) {#Number#} (on_session b (open_http_stream R tid head addr))" for tid head
    by (cases "b = a") (auto intro: settled_on_session coins_open_http_stream settled_elsewhere purse_spare [where r = "{#}", simplified])
  show ?thesis
    unfolding forward_local_def
    by (auto intro!: settled_call opened finish settled_neutral [OF coins_await_head] settled_neutral [OF neutral_read]
        settled_spawn [where r = "{#}" and r' = "{#}", simplified] pump simp: Let_def split: result.split open_error.split)
qed

lemma coins_peer_forward: "neutral (purse a sid window) (peer_forward lib P record req)"
  unfolding peer_forward_def by (auto intro!: neutral_intros neutral_await split: result.split)

lemma purse_number: "settled (purse a sid window) {#} t \<Longrightarrow> settled (purse a sid window) {#Number#} t"
  by (rule purse_spare [where r = "{#}", simplified]) auto

lemma settled_handle: "settled (purse a sid window) {#Number#} (handle R G lib js keys tkeys P role req addr)"
proof -
  note pass = accounts_call [OF neutralD [OF coins_registry(2)]] accounts_call [OF neutralD [OF neutral_read]]
  note ends = purse_number [OF settled_Return] purse_number [OF settled_neutral [OF coins_peer_forward]]
    purse_number [OF settled_neutral [OF neutral_read]] purse_number [OF settled_neutral [OF neutral_call [OF coins_registry(4) neutral_Return]]]
  show ?thesis
    unfolding handle_def by (auto intro!: pass ends settled_forward_local split: option.split result.split)
qed

text \<open>The heartbeat, and what the HTTP server does with a response body.\<close>

lemma settled_tick: "settled (purse a sid window) {#} (tick b due)"
  unfolding tick_def await_def by (rule settled_cancellable_step) (auto split: if_splits)

lemma settled_beat_send:
  assumes "down_coins sid window frame = {#}"
  shows "settled (purse a sid window) {#} (cancellable c (on_session b (session_send R frame)))"
  unfolding on_session_def session_send_def await_def zoom.simps
proof (rule settled_cancellable_step, goal_cases)
  case (1 w w' t F)
  show ?case
  proof (cases "chan_send (rt_out R) (outbound (session_at b w)) (Ok frame)")
    case (Ready q)
    then have "queued (oview q) = queued (oview (outbound (session_at b w))) @ [Ok frame]" using out.send_Ready by simp
    then have "ledger sid window F (session_at b w) \<Longrightarrow> ledger sid window F ((session_at b w)\<lparr>outbound := q\<rparr>)"
      using edge_ledger_send [where frame = frame and sview = sview and oview = oview and sid = sid and window = window and M = F] assms by simp
    with 1 Ready show ?thesis by (cases "b = a") (auto simp: node_ledger_def)
  qed (use 1 in \<open>auto simp: node_ledger_def\<close>)
qed

lemma settled_renew_tunnel: "settled (purse a sid window) {#} (renew_tunnel R G a s ttl t)"
proof -
  have "settled (purse a sid window) {#} (cancellable c (registry_renew G key x ttl))" for c key x
    unfolding registry_renew_def atomically_def
    by (rule settled_cancellable_step) (auto simp: node_ledger_def has_session_def session_at_def split: prod.splits)
  then show ?thesis
    unfolding renew_tunnel_def notify_tunnel_lost_def
    by (auto intro!: settled_call settled_beat_send settled_neutral [OF neutral_on_session [OF coins_tunnels(2)]] split: result.split bool.split)
qed

lemma settled_heartbeat: "settled (purse a sid window) {#} (heartbeat_task R G tkeys a ps)"
proof -
  have "settled (purse a sid window) {#} (beat R G tkeys a ttl p)" for ttl p
    unfolding beat_def
    by (auto intro!: settled_call settled_beat_send settled_for_each settled_renew_tunnel settled_neutral [OF neutral_read])
  then have "settled (purse a sid window) {#} (heartbeat_loop R G tkeys a interval ttl due ps)" for interval ttl due
    by (induction ps arbitrary: due) (auto intro!: settled_call settled_tick)
  then show ?thesis
    unfolding heartbeat_task_def by (auto intro!: settled_call settled_tick settled_neutral [OF neutral_read])
qed

lemma coins_teardown: "neutral (purse a sid window) (teardown R G tkeys skeys a)"
proof -
  have "neutral (purse a sid window) (update (\<lambda>w. w\<lparr>app_sessions := fst (manager_remove x (app_sessions w))\<rparr>))" for x
    by (rule neutral_update) (simp add: node_ledger_def has_session_def session_at_def manager_remove_def)
  then show ?thesis unfolding teardown_def by (auto intro!: neutral_intros)
qed

end

end
