(* ===== verification/Client_Config.thy ===== *)
theory Client_Config
  imports Rust_Str
begin

text \<open>
  \<open>norupo-client/src/config.rs\<close>: the agent's command line, the parsing of its forward target and the
  reconnect schedule. Reading flags and environment variables is \<open>clap\<close>'s; an error of \<open>anyhow\<close> is its
  message, a duration its number of milliseconds.
\<close>

section \<open>Model\<close>

record http_args =
  ha_target :: string
  ha_subdomain :: "string option"
  ha_domain :: "string option"
  ha_rewrite_host :: bool
  ha_max_retries :: u32

datatype command = Http http_args | Doctor

record cli =
  cli_server :: string
  cli_token :: string
  cli_log :: string
  cli_command :: command

definition strip_scheme :: "string \<Rightarrow> string" where
  "strip_scheme s = (case strip_prefix ''http://'' s of
     Some rest \<Rightarrow> rest
   | None \<Rightarrow> (case strip_prefix ''https://'' s of Some rest \<Rightarrow> rest | None \<Rightarrow> s))"

definition parse_forward_target :: "string \<Rightarrow> (string, string) result" where
  "parse_forward_target raw =
     (let trimmed = trim raw in
      if trimmed = [] then Err ''forward target must not be empty''
      else (case parse_u16 trimmed of
        Some port \<Rightarrow>
          if port = 0 then Err ''port 0 is not a valid forward target''
          else Ok (''127.0.0.1:'' @ show_nat (unat port))
      | None \<Rightarrow>
          let authority = hd (split_on (CHR ''/'') (strip_scheme trimmed)) in
          (case rsplit_once (CHR '':'') authority of
             None \<Rightarrow> Err (''could not parse `'' @ raw @
               ''` as a forward target; use a port (3000) or host:port (127.0.0.1:3000)'')
           | Some (host, port) \<Rightarrow>
               if host = [] then Err (''forward target `'' @ raw @ ''` is missing a host'')
               else (case parse_u16 port of
                   None \<Rightarrow> Err (''`'' @ port @ ''` in `'' @ raw @ ''` is not a valid port'')
                 | Some _ \<Rightarrow> Ok authority))))"

definition forward_addr_of :: "http_args \<Rightarrow> (string, string) result" where
  "forward_addr_of args = parse_forward_target (ha_target args)"

definition BASE_MS :: u64 where
  "BASE_MS = 250"

definition MAX_MS :: u64 where
  "MAX_MS = 30000"

definition reconnect_delay :: "u32 \<Rightarrow> nat" where
  "reconnect_delay attempt =
     (let millis = u64_saturating (unat BASE_MS * unat (push_bit (min (unat attempt) 8) (1 :: u64)))
      in unat (min millis MAX_MS))"

section \<open>The reconnect schedule\<close>

lemma unat_power_lower_small: "(2 :: nat) ^ k \<le> 256 \<Longrightarrow> unat ((2 :: u64) ^ k) = 2 ^ k"
  using unat_of_nat [of "2 ^ k", where ?'a = 64] by simp

lemma reconnect_delay_eq: "reconnect_delay attempt = min (250 * 2 ^ min (unat attempt) 8) 30000"
proof -
  let ?k = "min (unat attempt) 8"
  have "(2 :: nat) ^ ?k \<le> 2 ^ 8" by (rule power_increasing) simp_all
  then have small: "(2 :: nat) ^ ?k \<le> 256" by simp
  have "unat (push_bit ?k (1 :: u64)) = 2 ^ ?k"
    using small by (simp add: push_bit_of_1 unat_power_lower_small)
  then have millis: "unat (u64_saturating (unat BASE_MS * unat (push_bit ?k (1 :: u64)))) = 250 * 2 ^ ?k"
    using small by (simp add: BASE_MS_def unat_u64_saturating)
  have least: "unat (min x y) = min (unat x) (unat y)" for x y :: u64
    by (simp add: min_def word_le_nat_alt)
  show ?thesis
    unfolding reconnect_delay_def Let_def least millis by (simp add: MAX_MS_def)
qed

lemma reconnect_delay_mono: "unat a \<le> unat b \<Longrightarrow> reconnect_delay a \<le> reconnect_delay b"
  unfolding reconnect_delay_eq by (intro min.mono mult_le_mono2 power_increasing) auto

text \<open>The wait before a reconnect starts at a quarter of a second, doubles with every failed attempt,
  never shrinks as attempts go on and never exceeds thirty seconds, for every value the attempt counter
  can have: the shift cannot overflow.\<close>

lemma reconnect_delay_schedule:
  "reconnect_delay 0 = 250 \<and> (\<forall>n. 250 \<le> reconnect_delay n \<and> reconnect_delay n \<le> 30000) \<and>
   (\<forall>n < 6. reconnect_delay (of_nat (Suc n)) = 2 * reconnect_delay (of_nat n)) \<and>
   (\<forall>a b. unat a \<le> unat b \<longrightarrow> reconnect_delay a \<le> reconnect_delay b)"
proof (intro conjI allI impI)
  fix n :: nat
  assume "n < 6"
  then have "n \<in> {0, 1, 2, 3, 4, 5}" by auto
  then show "reconnect_delay (of_nat (Suc n)) = 2 * reconnect_delay (of_nat n)"
    by (auto simp: reconnect_delay_eq unat_of_nat)
qed (simp_all add: reconnect_delay_mono, simp_all add: reconnect_delay_eq)

section \<open>Forward targets\<close>

lemma hd_split_on: "hd (split_on c s) = takeWhile (\<lambda>x. x \<noteq> c) s"
proof (induction s)
  case (Cons x s)
  then show ?case by (cases "split_on c s") auto
qed simp

lemma digit_solid: "is_ascii_digit c \<Longrightarrow> solid c"
  by (simp add: is_ascii_digit_def solid_def)

lemma trim_show_nat: "trim (show_nat n) = show_nat n"
proof (rule trim_solid)
  show "solid (hd (show_nat n))" "solid (last (show_nat n))"
    using show_nat_digits [of n] by (auto simp: list_all_iff intro: digit_solid)
qed simp

text \<open>A forward target is either refused or a dialable address: a non-empty host, a colon and a port
  number, with no path left; and a bare port is the loopback address at that port, the bare zero
  excepted.\<close>

lemma forward_target_dialable:
  assumes "parse_forward_target raw = Ok addr"
  shows "(\<exists>host port n. addr = host @ '':'' @ port \<and> host \<noteq> [] \<and> parse_u16 port = Some n \<and> CHR ''/'' \<notin> set addr) \<and>
    (\<forall>p. 0 < p \<longrightarrow> p < 65536 \<longrightarrow> parse_forward_target (show_nat p) = Ok (''127.0.0.1:'' @ show_nat p)) \<and>
    parse_forward_target ''0'' = Err ''port 0 is not a valid forward target''"
proof (intro conjI allI impI)
  show "\<exists>host port n. addr = host @ '':'' @ port \<and> host \<noteq> [] \<and> parse_u16 port = Some n \<and> CHR ''/'' \<notin> set addr"
  proof (cases "parse_u16 (trim raw)")
    case None
    then obtain host port where "rsplit_once (CHR '':'') (hd (split_on (CHR ''/'') (strip_scheme (trim raw)))) = Some (host, port)"
      "addr = hd (split_on (CHR ''/'') (strip_scheme (trim raw)))" "host \<noteq> []" "parse_u16 port \<noteq> None"
      using assms by (auto simp: parse_forward_target_def Let_def split: if_splits option.splits)
    moreover from this(2) have "CHR ''/'' \<notin> set addr" by (auto simp: hd_split_on dest: set_takeWhileD)
    ultimately show ?thesis by (intro exI [of _ host] exI [of _ port]) (auto simp: rsplit_once_Some_iff)
  next
    case (Some port)
    then have addr: "addr = ''127.0.0.1:'' @ show_nat (unat port)"
      using assms by (auto simp: parse_forward_target_def Let_def split: if_splits)
    have "unat port \<le> 65535" using unsigned_less [of port, where ?'a = nat] by simp
    then have "parse_u16 (show_nat (unat port)) = Some port" by (simp add: parse_u16_def parse_unsigned_show_nat)
    moreover have "CHR ''/'' \<notin> set addr"
      using show_nat_digits [of "unat port"] by (auto simp: addr list_all_iff is_ascii_digit_def byte_def)
    ultimately show ?thesis
      unfolding addr by (intro exI [of _ "''127.0.0.1''"] exI [of _ "show_nat (unat port)"] exI [of _ port]) simp
  qed
next
  fix p :: nat
  assume "0 < p" "p < 65536"
  then have "parse_u16 (show_nat p) = Some (of_nat p)" "unat (of_nat p :: u16) = p"
    by (simp_all add: parse_u16_def parse_unsigned_show_nat unat_of_nat)
  moreover from this \<open>0 < p\<close> have "(of_nat p :: u16) \<noteq> 0" by auto
  ultimately show "parse_forward_target (show_nat p) = Ok (''127.0.0.1:'' @ show_nat p)"
    by (simp add: parse_forward_target_def trim_show_nat Let_def)
next
  have "trim ''0'' = ''0''" by code_simp
  moreover have "parse_u16 ''0'' = Some 0"
    by (simp add: parse_u16_def parse_unsigned_def is_ascii_digit_def digits_value_def byte_def)
  ultimately show "parse_forward_target ''0'' = Err ''port 0 is not a valid forward target''"
    by (simp add: parse_forward_target_def)
qed

end
