(* ===== verification/Agent.thy ===== *)
theory Agent
  imports Http Client_Config
begin

text \<open>
  \<open>norupo-client/src/agent.rs\<close> and the wiring of \<open>main.rs\<close>: the agent. One session context per connection,
  with the queue towards the edge and the table of open streams; a read loop that dispatches the
  edge's frames; one task per public request that calls the local service and relays its answer; and
  the reconnect loop around it all.

  A stream's state sits in a heap, as in the edge's session: its body queue, its credit, and the
  exchange with the local service (the request handed to the HTTP client and the answer, which
  the local service fills in). Replacing the entry's sender by a dead one, which ends the request body,
  is \<open>ss_live\<close>. The wire, the HTTP client's parsers and the wall clock are parameters; what a connection
  delivers is a list.
\<close>

section \<open>Types\<close>

definition AGENT_MAX_CHUNK :: nat where
  "AGENT_MAX_CHUNK = 64 * 1024"

definition AGENT_OUTBOUND_QUEUE :: nat where
  "AGENT_OUTBOUND_QUEUE = 1024"

definition BODY_QUEUE :: nat where
  "BODY_QUEUE = 16"

definition AGENT_VERSION :: string where
  "AGENT_VERSION = ''0.1.1''"

record agent_options =
  opt_server :: string
  opt_token :: string
  opt_forward_addr :: string
  opt_subdomain :: "string option"
  opt_domain :: "string option"
  opt_rewrite_host :: bool
  opt_max_retries :: u32

datatype agent_event =
    Connected string string
  | TunnelReady tunnel_status
  | TunnelRejected string
  | Disconnected string

type_synonym local_frame = "(body_frame, string) result"

record local_request =
  lq_method :: string
  lq_uri :: string
  lq_headers :: header_map

record local_response =
  lr_status :: u16
  lr_headers :: header_map
  lr_body :: "local_frame list"

record ('m, 'qb) stream_state =
  ss_body :: 'qb
  ss_live :: bool
  ss_credit :: 'm
  ss_request :: "local_request option"
  ss_answer :: "(local_response, string) result option"

record ('m, 'qo, 'qb) session_ctx =
  ctx_outbound :: 'qo
  ctx_heap :: "('m, 'qb) stream_state list"
  ctx_streams :: "u64 \<rightharpoonup> nat"
  ctx_options :: agent_options

record ('m, 'qo, 'qb, 'e) agent_runtime =
  ar_sem :: "'m sem_ops"
  ar_out :: "('qo, client_frame) chan_ops"
  ar_body :: "('qb, local_frame) chan_ops"
  ar_events :: "('e, agent_event) chan_ops"

record request_lib =
  rl_method :: "string \<Rightarrow> (string, string) result"
  rl_uri :: "string \<Rightarrow> (string, string) result"
  rl_header_error :: string

section \<open>The session context\<close>

definition set_state ::
    "nat \<Rightarrow> (('m, 'qb) stream_state \<Rightarrow> ('m, 'qb) stream_state) \<Rightarrow> ('m, 'qo, 'qb) session_ctx \<Rightarrow> ('m, 'qo, 'qb) session_ctx" where
  "set_state a f c = c\<lparr>ctx_heap := (ctx_heap c)[a := f (ctx_heap c ! a)]\<rparr>"

definition ctx_send ::
    "('m, 'qo, 'qb, 'e) agent_runtime \<Rightarrow> client_payload \<Rightarrow> (('m, 'qo, 'qb) session_ctx, bool) task" where
  "ctx_send R payload = await (\<lambda>c. case chan_send (ar_out R) (ctx_outbound c) (Some payload) of
     Ready q \<Rightarrow> Some (c\<lparr>ctx_outbound := q\<rparr>, True)
   | Gone \<Rightarrow> Some (c, False)
   | NotReady \<Rightarrow> None)"

text \<open>Dropping the sender of an entry.\<close>

definition drop_body_tx ::
    "('m, 'qo, 'qb, 'e) agent_runtime \<Rightarrow> ('m, 'qb) stream_state \<Rightarrow> ('m, 'qb) stream_state" where
  "drop_body_tx R st = st\<lparr>ss_live := False,
     ss_body := (if ss_live st then chan_drop_tx (ar_body R) (ss_body st) else ss_body st)\<rparr>"

definition drop_stream :: "('m, 'qo, 'qb, 'e) agent_runtime \<Rightarrow> u64 \<Rightarrow> (('m, 'qo, 'qb) session_ctx, unit) task" where
  "drop_stream R sid = update (\<lambda>c. case ctx_streams c sid of
     None \<Rightarrow> c
   | Some a \<Rightarrow>
       (set_state a (\<lambda>st. drop_body_tx R (st\<lparr>ss_credit := sem_close (ar_sem R) (ss_credit st)\<rparr>)) c)
         \<lparr>ctx_streams := (ctx_streams c)(sid := None)\<rparr>)"

text \<open>Registering a stream; an entry it replaces loses its sender.\<close>

definition fresh_state :: "('m, 'qo, 'qb, 'e) agent_runtime \<Rightarrow> u32 \<Rightarrow> ('m, 'qb) stream_state" where
  "fresh_state R window = \<lparr>ss_body = chan_new (ar_body R) BODY_QUEUE, ss_live = True,
     ss_credit = sem_new (ar_sem R) (unat window), ss_request = None, ss_answer = None\<rparr>"

definition register_stream ::
    "('m, 'qo, 'qb, 'e) agent_runtime \<Rightarrow> stream_open \<Rightarrow> (('m, 'qo, 'qb) session_ctx, nat) task" where
  "register_stream R req = atomically (\<lambda>c.
     let a = length (ctx_heap c);
         c1 = (case ctx_streams c (so_stream_id req) of None \<Rightarrow> c | Some b \<Rightarrow> set_state b (drop_body_tx R) c)
     in (c1\<lparr>ctx_heap := ctx_heap c1 @ [fresh_state R (so_initial_window req)],
            ctx_streams := (ctx_streams c)(so_stream_id req \<mapsto> a)\<rparr>, a))"

definition agent_reset ::
    "('m, 'qo, 'qb, 'e) agent_runtime \<Rightarrow> u64 \<Rightarrow> reset_code \<Rightarrow> string \<Rightarrow> (('m, 'qo, 'qb) session_ctx, unit) task" where
  "agent_reset R sid code message =
     call (ctx_send R (CReset \<lparr>sr_stream_id = sid, sr_code = reset_code_i32 code, sr_message = message\<rparr>)) (\<lambda>_. Return ())"

definition close_request_body :: "('m, 'qo, 'qb, 'e) agent_runtime \<Rightarrow> u64 \<Rightarrow> (('m, 'qo, 'qb) session_ctx, unit) task" where
  "close_request_body R sid = update (\<lambda>c. case ctx_streams c sid of None \<Rightarrow> c | Some a \<Rightarrow> set_state a (drop_body_tx R) c)"

section \<open>Request bodies\<close>

text \<open>Cloning an entry's sender: the clone is a live sender or a dead one.\<close>

definition body_sender ::
    "('m, 'qo, 'qb, 'e) agent_runtime \<Rightarrow> u64 \<Rightarrow> (('m, 'qo, 'qb) session_ctx, (nat \<times> bool) option) task" where
  "body_sender R sid = atomically (\<lambda>c. case ctx_streams c sid of
     None \<Rightarrow> (c, None)
   | Some a \<Rightarrow>
       if ss_live (ctx_heap c ! a)
       then (set_state a (\<lambda>st. st\<lparr>ss_body := chan_clone_tx (ar_body R) (ss_body st)\<rparr>) c, Some (a, True))
       else (c, Some (a, False)))"

definition local_send ::
    "('m, 'qo, 'qb, 'e) agent_runtime \<Rightarrow> nat \<times> bool \<Rightarrow> local_frame \<Rightarrow> (('m, 'qo, 'qb) session_ctx, bool) task" where
  "local_send R tx frame = (case tx of (a, live) \<Rightarrow>
     if live then await (\<lambda>c. case chan_send (ar_body R) (ss_body (ctx_heap c ! a)) frame of
         Ready q \<Rightarrow> Some (set_state a (\<lambda>st. st\<lparr>ss_body := q\<rparr>) c, True)
       | Gone \<Rightarrow> Some (c, False)
       | NotReady \<Rightarrow> None)
     else Return False)"

definition drop_local_sender :: "('m, 'qo, 'qb, 'e) agent_runtime \<Rightarrow> nat \<times> bool \<Rightarrow> (('m, 'qo, 'qb) session_ctx, unit) task" where
  "drop_local_sender R tx = (case tx of (a, live) \<Rightarrow>
     if live then update (set_state a (\<lambda>st. st\<lparr>ss_body := chan_drop_tx (ar_body R) (ss_body st)\<rparr>)) else Return ())"

definition on_data :: "('m, 'qo, 'qb, 'e) agent_runtime \<Rightarrow> stream_data \<Rightarrow> (('m, 'qo, 'qb) session_ctx, unit) task" where
  "on_data R data =
     call (body_sender R (sd_stream_id data)) (\<lambda>sender. case sender of
       None \<Rightarrow> Return ()
     | Some tx \<Rightarrow>
         call (local_send R tx (Ok (DataFrame (sd_payload data)))) (\<lambda>ok.
         call (if ok
               then call (ctx_send R (CWindowUpdate \<lparr>wu_stream_id = sd_stream_id data,
                      wu_increment = u32_saturating (length (sd_payload data))\<rparr>)) (\<lambda>_. Return ())
               else drop_stream R (sd_stream_id data)) (\<lambda>_.
           drop_local_sender R tx)))"

definition on_window ::
    "('m, 'qo, 'qb, 'e) agent_runtime \<Rightarrow> window_update \<Rightarrow> (('m, 'qo, 'qb) session_ctx, unit) task" where
  "on_window R upd = access ''a semaphore may not have more than MAX_PERMITS permits'' (\<lambda>c.
     case ctx_streams c (wu_stream_id upd) of
       None \<Rightarrow> Some (c, ())
     | Some a \<Rightarrow>
         (case sem_add (ar_sem R) (ss_credit (ctx_heap c ! a)) (unat (wu_increment upd)) of
            None \<Rightarrow> None
          | Some m \<Rightarrow> Some (set_state a (\<lambda>st. st\<lparr>ss_credit := m\<rparr>) c, ())))"

section \<open>Serving one request\<close>

text \<open>The headers of the public request that the builder takes.\<close>

fun forwarded_headers :: "http_lib \<Rightarrow> bool \<Rightarrow> header list \<Rightarrow> header_map" where
  "forwarded_headers lib rewrite [] = []"
| "forwarded_headers lib rewrite (h # hs) =
     (let lower = to_ascii_lowercase (header_name h) in
      if lower = ''host'' \<and> rewrite then forwarded_headers lib rewrite hs
      else case (header_name_try_from lib (header_name h), header_value_from_bytes lib (header_value h)) of
        (Some name, Some value) \<Rightarrow> (name, value) # forwarded_headers lib rewrite hs
      | _ \<Rightarrow> forwarded_headers lib rewrite hs)"

text \<open>\<open>builder.header(name, text)\<close>, and the whole request.\<close>

definition builder_header ::
    "http_lib \<Rightarrow> request_lib \<Rightarrow> string \<Rightarrow> string \<Rightarrow> (header_map, string) result \<Rightarrow> (header_map, string) result" where
  "builder_header lib L name text builder = bind_result builder (\<lambda>hs.
     case header_value_from_str lib text of Some v \<Rightarrow> Ok (header_append name v hs) | None \<Rightarrow> Err (rl_header_error L))"

definition build_local_request ::
    "http_lib \<Rightarrow> request_lib \<Rightarrow> agent_options \<Rightarrow> stream_open \<Rightarrow> http_request_head \<Rightarrow> (local_request, string) result" where
  "build_local_request lib L opts req head =
     bind_result (rl_method L (rq_method head)) (\<lambda>method.
     bind_result (rl_uri L (''http://'' @ opt_forward_addr opts @ rq_path head)) (\<lambda>uri.
     let b0 = Ok (forwarded_headers lib (opt_rewrite_host opts) (rq_headers head));
         b1 = (if opt_rewrite_host opts then builder_header lib L ''host'' (opt_forward_addr opts) b0 else b0);
         b2 = (case rsplit_once (CHR '':'') (so_remote_addr req) of
                 Some (ip, _) \<Rightarrow> builder_header lib L ''x-forwarded-for'' (trim_matches_any {CHR ''['', CHR '']''} ip) b1
               | None \<Rightarrow> b1);
         b3 = builder_header lib L ''x-forwarded-host'' (rq_authority head) b2;
         b4 = builder_header lib L ''x-forwarded-proto'' ''https'' b3
     in bind_result b4 (\<lambda>hs. Ok \<lparr>lq_method = method, lq_uri = uri, lq_headers = hs\<rparr>)))"

definition draw_credit :: "('m, 'qo, 'qb, 'e) agent_runtime \<Rightarrow> nat \<Rightarrow> nat \<Rightarrow> (('m, 'qo, 'qb) session_ctx, bool) task" where
  "draw_credit R a n = await (\<lambda>c. case sem_acquire (ar_sem R) (ss_credit (ctx_heap c ! a)) n of
     Ready m \<Rightarrow> Some (set_state a (\<lambda>st. st\<lparr>ss_credit := m\<rparr>) c, True)
   | Gone \<Rightarrow> Some (c, False)
   | NotReady \<Rightarrow> None)"

function send_payload ::
    "('m, 'qo, 'qb, 'e) agent_runtime \<Rightarrow> nat \<Rightarrow> u64 \<Rightarrow> bytes \<Rightarrow> (('m, 'qo, 'qb) session_ctx, bool) task" where
  "send_payload R a sid payload =
     (if payload = [] then Return True
      else
        let n = min (length payload) AGENT_MAX_CHUNK; chunk = take n payload in
        call (draw_credit R a (unat (u32_saturating (length chunk)))) (\<lambda>ok.
        if \<not> ok then Return False else
        call (ctx_send R (CData \<lparr>sd_stream_id = sid, sd_payload = chunk\<rparr>)) (\<lambda>sent.
        if \<not> sent then Return False else send_payload R a sid (drop n payload))))"
  by pat_completeness auto
termination
  by (relation "measure (\<lambda>(R, a, sid, payload). length payload)") (auto simp: AGENT_MAX_CHUNK_def)

declare send_payload.simps [simp del]

definition proto_headers :: "header_map \<Rightarrow> header list" where
  "proto_headers hs = map (\<lambda>(n, v). \<lparr>header_name = n, header_value = v\<rparr>) hs"

primrec relay_body ::
    "('m, 'qo, 'qb, 'e) agent_runtime \<Rightarrow> nat \<Rightarrow> u64 \<Rightarrow> header list \<Rightarrow> local_frame list \<Rightarrow>
     (('m, 'qo, 'qb) session_ctx, unit) task" where
  "relay_body R a sid trailers [] =
     call (ctx_send R (CEnd \<lparr>se_stream_id = sid, se_trailers = trailers\<rparr>)) (\<lambda>_. drop_stream R sid)"
| "relay_body R a sid trailers (frame # frames) =
     (case frame of
        Ok (DataFrame data) \<Rightarrow>
          call (send_payload R a sid data) (\<lambda>ok. if \<not> ok then drop_stream R sid else relay_body R a sid trailers frames)
      | Ok (TrailersFrame hs) \<Rightarrow> relay_body R a sid (proto_headers hs) frames
      | Err e \<Rightarrow> call (agent_reset R sid ResetInternal (''local body error: '' @ e)) (\<lambda>_. drop_stream R sid))"

text \<open>The receiver of a request body that never reaches the local service goes with the task.\<close>

definition drop_local_receiver :: "('m, 'qo, 'qb, 'e) agent_runtime \<Rightarrow> nat \<Rightarrow> (('m, 'qo, 'qb) session_ctx, unit) task" where
  "drop_local_receiver R a = update (set_state a (\<lambda>st. st\<lparr>ss_body := chan_drop_rx (ar_body R) (ss_body st)\<rparr>))"

definition call_local_service :: "nat \<Rightarrow> local_request \<Rightarrow> (('m, 'qo, 'qb) session_ctx, (local_response, string) result) task" where
  "call_local_service a request =
     call (update (set_state a (\<lambda>st. st\<lparr>ss_request := Some request\<rparr>))) (\<lambda>_.
       await (\<lambda>c. map_option (Pair c) (ss_answer (ctx_heap c ! a))))"

definition serve_stream ::
    "('m, 'qo, 'qb, 'e) agent_runtime \<Rightarrow> http_lib \<Rightarrow> request_lib \<Rightarrow> nat \<Rightarrow> stream_open \<Rightarrow> (('m, 'qo, 'qb) session_ctx, unit) task" where
  "serve_stream R lib L a req =
     (let sid = so_stream_id req in
      case so_http req of
        None \<Rightarrow>
          call (agent_reset R sid ResetProtocolError ''Open frame without an HTTP head'') (\<lambda>_.
          call (drop_stream R sid) (\<lambda>_. drop_local_receiver R a))
      | Some head \<Rightarrow>
          call (read ctx_options) (\<lambda>opts.
          case build_local_request lib L opts req head of
            Err e \<Rightarrow>
              call (drop_local_receiver R a) (\<lambda>_.
              call (agent_reset R sid ResetProtocolError (''bad request: '' @ e)) (\<lambda>_. drop_stream R sid))
          | Ok request \<Rightarrow>
              call (call_local_service a request) (\<lambda>answer. case answer of
                Err e \<Rightarrow>
                  call (agent_reset R sid ResetLocalUnreachable (''cannot reach '' @ opt_forward_addr opts @ '': '' @ e)) (\<lambda>_.
                    drop_stream R sid)
              | Ok response \<Rightarrow>
                  call (ctx_send R (CResponseHead \<lparr>rh_stream_id = sid, rh_status = ucast (lr_status response),
                          rh_headers = proto_headers (lr_headers response)\<rparr>)) (\<lambda>sent.
                  if \<not> sent then drop_stream R sid else relay_body R a sid [] (lr_body response)))))"

section \<open>The agent\<close>

record ('m, 'qo, 'qb, 'e) agent =
  ag_ctxs :: "('m, 'qo, 'qb) session_ctx list"
  ag_events :: 'e
  ag_shutdown :: bool
  ag_clock :: nat

definition ctx_at :: "nat \<Rightarrow> ('m, 'qo, 'qb, 'e) agent \<Rightarrow> ('m, 'qo, 'qb) session_ctx" where
  "ctx_at i w = ag_ctxs w ! i"

definition set_ctx :: "nat \<Rightarrow> ('m, 'qo, 'qb) session_ctx \<Rightarrow> ('m, 'qo, 'qb, 'e) agent \<Rightarrow> ('m, 'qo, 'qb, 'e) agent" where
  "set_ctx i c w = w\<lparr>ag_ctxs := (ag_ctxs w)[i := c]\<rparr>"

definition on_ctx :: "nat \<Rightarrow> (('m, 'qo, 'qb) session_ctx, 'x) task \<Rightarrow> (('m, 'qo, 'qb, 'e) agent, 'x) task" where
  "on_ctx i = zoom (ctx_at i) (set_ctx i)"

definition emit :: "('m, 'qo, 'qb, 'e) agent_runtime \<Rightarrow> agent_event \<Rightarrow> (('m, 'qo, 'qb, 'e) agent, unit) task" where
  "emit R event = await (\<lambda>w. case chan_send (ar_events R) (ag_events w) event of
     Ready q \<Rightarrow> Some (w\<lparr>ag_events := q\<rparr>, ())
   | Gone \<Rightarrow> Some (w, ())
   | NotReady \<Rightarrow> None)"

text \<open>The agent's time stamps.\<close>

definition agent_now_ms :: "wall_clock \<Rightarrow> int" where
  "agent_now_ms t = (if t < 0 then 0 else if t < 2 ^ 63 then t else 2 ^ 63 - 1)"

definition build_open_tunnel :: "agent_options \<Rightarrow> wall_clock \<Rightarrow> open_tunnel" where
  "build_open_tunnel opts now =
     \<lparr>ot_request_id = ''req_'' @ show_nat (nat (agent_now_ms now)),
      ot_spec = Some (HttpSpec \<lparr>hs_subdomain = (case opt_subdomain opts of Some s \<Rightarrow> s | None \<Rightarrow> []),
        hs_custom_domain = (case opt_domain opts of Some d \<Rightarrow> d | None \<Rightarrow> []),
        hs_forward_to = opt_forward_addr opts, hs_rewrite_host_header = opt_rewrite_host opts\<rparr>)\<rparr>"

definition handle_server_frame ::
    "('m, 'qo, 'qb, 'e) agent_runtime \<Rightarrow> http_lib \<Rightarrow> request_lib \<Rightarrow> nat \<Rightarrow> wall_clock \<Rightarrow> server_payload \<Rightarrow>
     (('m, 'qo, 'qb, 'e) agent, unit) task" where
  "handle_server_frame R lib L i now payload =
     (case payload of
        SWelcome w \<Rightarrow>
          call (emit R (Connected (w_session_id w) (w_node_id w))) (\<lambda>_.
          call (read (\<lambda>w. ctx_options (ctx_at i w))) (\<lambda>opts.
          call (on_ctx i (ctx_send R (COpenTunnel (build_open_tunnel opts now)))) (\<lambda>_. Return ())))
      | STunnelStatus status \<Rightarrow>
          if st_accepted status then emit R (TunnelReady status) else emit R (TunnelRejected (st_error status))
      | SOpen req \<Rightarrow>
          call (on_ctx i (register_stream R req)) (\<lambda>a. spawn (on_ctx i (serve_stream R lib L a req)) (Return ()))
      | SData data \<Rightarrow> on_ctx i (on_data R data)
      | SEnd end' \<Rightarrow> on_ctx i (close_request_body R (se_stream_id end'))
      | SReset reset \<Rightarrow> on_ctx i (drop_stream R (sr_stream_id reset))
      | SWindowUpdate upd \<Rightarrow> on_ctx i (on_window R upd)
      | SPing ping \<Rightarrow>
          call (on_ctx i (ctx_send R (CPong \<lparr>pong_nonce = ping_nonce ping, pong_client_time_ms = agent_now_ms now\<rparr>))) (\<lambda>_. Return ())
      | SShutdown notice \<Rightarrow> Return ()
      | SResponseHead head \<Rightarrow> Return ())"

datatype session_error = Transient string | Fatal string

datatype agent_input = InFrame server_frame | InError status | InShutdown

primrec agent_loop ::
    "('m, 'qo, 'qb, 'e) agent_runtime \<Rightarrow> http_lib \<Rightarrow> request_lib \<Rightarrow> (status \<Rightarrow> string) \<Rightarrow> nat \<Rightarrow> (agent_input \<times> wall_clock) list \<Rightarrow>
     (('m, 'qo, 'qb, 'e) agent, (unit, session_error) result) task" where
  "agent_loop R lib L show_status i [] = Return (Ok ())"
| "agent_loop R lib L show_status i (item # items) =
     (case item of
        (InFrame (Some payload), now) \<Rightarrow>
          call (handle_server_frame R lib L i now payload) (\<lambda>_. agent_loop R lib L show_status i items)
      | (InFrame None, now) \<Rightarrow> agent_loop R lib L show_status i items
      | (InError status, now) \<Rightarrow> Return (Err (Transient (''stream error: '' @ show_status status)))
      | (InShutdown, now) \<Rightarrow> await (\<lambda>w. if ag_shutdown w then Some (w, Ok ()) else None))"

definition rpc_error :: "(status \<Rightarrow> string) \<Rightarrow> status \<Rightarrow> session_error" where
  "rpc_error show_status status = (case status_code status of
     Unauthenticated \<Rightarrow> Fatal (''authentication failed: '' @ status_message status)
   | PermissionDenied \<Rightarrow> Fatal (''authentication failed: '' @ status_message status)
   | FailedPrecondition \<Rightarrow> Fatal (''edge refused the session: '' @ status_message status)
   | _ \<Rightarrow> Transient (''session RPC failed: '' @ show_status status))"

record process_env =
  env_os :: string
  env_arch :: string
  env_hostname :: "string option"
  env_computername :: "string option"

definition agent_metadata :: "process_env \<Rightarrow> (string \<rightharpoonup> string)" where
  "agent_metadata env = [''os'' \<mapsto> env_os env, ''arch'' \<mapsto> env_arch env, ''hostname'' \<mapsto> (case env_hostname env of
     Some h \<Rightarrow> h
   | None \<Rightarrow> (case env_computername env of Some h \<Rightarrow> h | None \<Rightarrow> ''unknown''))]"

text \<open>What happens on one connection: whether the edge could be reached, how the RPC started, what it
  delivered.\<close>

record connection =
  cn_connect :: "(unit, string) result"
  cn_rpc :: "(unit, status) result"
  cn_inbound :: "(agent_input \<times> wall_clock) list"

definition hello_frame :: "process_env \<Rightarrow> agent_options \<Rightarrow> client_payload" where
  "hello_frame env opts = CHello \<lparr>hello_token = opt_token opts, hello_agent_version = AGENT_VERSION,
     hello_protocol_version = PROTOCOL_VERSION, hello_metadata = agent_metadata env\<rparr>"

definition new_ctx :: "('m, 'qo, 'qb, 'e) agent_runtime \<Rightarrow> agent_options \<Rightarrow> ('m, 'qo, 'qb) session_ctx" where
  "new_ctx R opts = \<lparr>ctx_outbound = chan_new (ar_out R) AGENT_OUTBOUND_QUEUE, ctx_heap = [], ctx_streams = Map.empty,
     ctx_options = opts\<rparr>"

definition agent_session ::
    "('m, 'qo, 'qb, 'e) agent_runtime \<Rightarrow> http_lib \<Rightarrow> request_lib \<Rightarrow> (status \<Rightarrow> string) \<Rightarrow> process_env \<Rightarrow> agent_options \<Rightarrow>
     connection \<Rightarrow> (('m, 'qo, 'qb, 'e) agent, (unit, session_error) result) task" where
  "agent_session R lib L show_status env opts conn =
     (case cn_connect conn of
        Err e \<Rightarrow> Return (Err (Transient (''connect to '' @ opt_server opts @ '': '' @ e)))
      | Ok _ \<Rightarrow>
          call (atomically (\<lambda>w. (w\<lparr>ag_ctxs := ag_ctxs w @ [new_ctx R opts]\<rparr>, length (ag_ctxs w)))) (\<lambda>i.
          call (on_ctx i (ctx_send R (hello_frame env opts))) (\<lambda>sent.
          if \<not> sent then Return (Err (Transient ''outbound queue closed''))
          else case cn_rpc conn of
            Err status \<Rightarrow> Return (Err (rpc_error show_status status))
          | Ok _ \<Rightarrow> agent_loop R lib L show_status i (cn_inbound conn))))"

text \<open>What the reconnect loop does after a session.\<close>

datatype next_move = Stop string | GiveUp u32 | RetryAfter nat u32

definition after_session :: "agent_options \<Rightarrow> u32 \<Rightarrow> (unit, session_error) result \<Rightarrow> next_move" where
  "after_session opts attempt outcome = (case outcome of
     Err (Fatal e) \<Rightarrow> Stop e
   | _ \<Rightarrow>
       let attempt = (case outcome of Ok _ \<Rightarrow> 0 | Err _ \<Rightarrow> attempt) in
       if 0 < opt_max_retries opts \<and> opt_max_retries opts \<le> attempt then GiveUp (opt_max_retries opts)
       else RetryAfter (reconnect_delay attempt) (u32_saturating (unat attempt + 1)))"

text \<open>The sleep between two sessions: true when it is over, false when the shutdown came first.\<close>

definition sleep_or_shutdown :: "nat \<Rightarrow> (('m, 'qo, 'qb, 'e) agent, bool) task" where
  "sleep_or_shutdown delay =
     call (read (\<lambda>w. ag_clock w + delay)) (\<lambda>due.
       await (\<lambda>w. if ag_shutdown w then Some (w, False) else if due \<le> ag_clock w then Some (w, True) else None))"

primrec agent_run ::
    "('m, 'qo, 'qb, 'e) agent_runtime \<Rightarrow> http_lib \<Rightarrow> request_lib \<Rightarrow> (status \<Rightarrow> string) \<Rightarrow> process_env \<Rightarrow> agent_options \<Rightarrow>
     connection list \<Rightarrow> u32 \<Rightarrow> (('m, 'qo, 'qb, 'e) agent, (unit, string) result) task" where
  "agent_run R lib L show_status env opts [] attempt = Halt"
| "agent_run R lib L show_status env opts (conn # conns) attempt =
     call (read ag_shutdown) (\<lambda>stop.
     if stop then Return (Ok ()) else
     call (agent_session R lib L show_status env opts conn) (\<lambda>outcome.
     case after_session opts attempt outcome of
       Stop e \<Rightarrow> Return (Err e)
     | move \<Rightarrow>
       call (case outcome of Err (Transient e) \<Rightarrow> emit R (Disconnected e) | _ \<Rightarrow> Return ()) (\<lambda>_.
       call (read ag_shutdown) (\<lambda>stop.
       if stop then Return (Ok ()) else
       case move of
         RetryAfter delay attempt' \<Rightarrow>
           call (sleep_or_shutdown delay) (\<lambda>woken.
           if woken then agent_run R lib L show_status env opts conns attempt' else Return (Ok ()))
       | GiveUp n \<Rightarrow> Return (Err (''giving up after '' @ show_nat (unat n) @ '' reconnect attempts''))
       | Stop e \<Rightarrow> Return (Err e)))))"

section \<open>The command line\<close>

definition main_options :: "cli \<Rightarrow> http_args \<Rightarrow> (agent_options, string) result" where
  "main_options cli args = bind_result (forward_addr_of args) (\<lambda>forward.
     Ok \<lparr>opt_server = cli_server cli, opt_token = cli_token cli, opt_forward_addr = forward,
         opt_subdomain = ha_subdomain args, opt_domain = ha_domain args, opt_rewrite_host = ha_rewrite_host args,
         opt_max_retries = ha_max_retries args\<rparr>)"

text \<open>What an event prints: lines on standard output or on standard error.\<close>

datatype printed = Out string | ErrOut string

definition render_event :: "string \<Rightarrow> agent_event \<Rightarrow> printed list" where
  "render_event forward event = (case event of
     Connected session node \<Rightarrow> [Out (''connected  session='' @ session @ '' node='' @ node)]
   | TunnelReady status \<Rightarrow> [Out [], Out (''  '' @ st_public_url status @ ''  ->  '' @ forward), Out [], Out ''  press Ctrl-C to stop'']
   | TunnelRejected reason \<Rightarrow> [ErrOut (''tunnel rejected: '' @ reason)]
   | Disconnected reason \<Rightarrow> [ErrOut (''disconnected: '' @ reason @ '' (reconnecting)'')])"

definition doctor_report :: "health_response \<Rightarrow> printed list" where
  "doctor_report health =
     [Out ''  reachable      yes'', Out (''  node           '' @ hr_node_id health),
      Out (''  server version '' @ hr_server_version health), Out (''  sessions       '' @ show_nat (unat (hr_active_sessions health))),
      Out (''  tunnels        '' @ show_nat (unat (hr_active_tunnels health))),
      Out (''  agent protocol v'' @ show_nat (unat PROTOCOL_VERSION))]"

end
