(* ===== verification/Agent_Properties.thy ===== *)
theory Agent_Properties
  imports Agent Flow
begin

text \<open>
  What the agent guarantees: responses stay within the edge's window and arrive intact, request bodies
  reach the local service with their credit returned, failures reset the stream, and the reconnect
  loop gives up when it should.
\<close>

locale agent_services =
  sem: semaphore "ar_sem R" sview + out: channel "ar_out R" oview +
  bod: channel "ar_body R" bview + evs: channel "ar_events R" eview
  for R :: "('m, 'qo, 'qb, 'e) agent_runtime" and sview :: "'m \<Rightarrow> sem_view"
    and oview :: "'qo \<Rightarrow> client_frame chan_view" and bview :: "'qb \<Rightarrow> local_frame chan_view"
    and eview :: "'e \<Rightarrow> agent_event chan_view"

definition ref_agent_runtime ::
    "(sem_view, client_frame chan_view, local_frame chan_view, agent_event chan_view) agent_runtime" where
  "ref_agent_runtime = \<lparr>ar_sem = ref_sem, ar_out = ref_chan, ar_body = ref_chan, ar_events = ref_chan\<rparr>"

interpretation ref_ar: agent_services ref_agent_runtime id id id id
  unfolding agent_services_def ref_agent_runtime_def
  by (simp add: ref_sem.semaphore_axioms ref_chan.channel_axioms)

section \<open>Writing the heap\<close>

lemma ctx_heap_set_state [simp]: "length (ctx_heap (set_state a f c)) = length (ctx_heap c)"
  by (simp add: set_state_def)

lemma set_state_at [simp]: "a < length (ctx_heap c) \<Longrightarrow> ctx_heap (set_state a f c) ! a = f (ctx_heap c ! a)"
  by (simp add: set_state_def)

lemma set_state_other [simp]: "b \<noteq> a \<Longrightarrow> ctx_heap (set_state a f c) ! b = ctx_heap c ! b"
  by (simp add: set_state_def)

lemma set_state_fields [simp]:
  "ctx_outbound (set_state a f c) = ctx_outbound c" "ctx_streams (set_state a f c) = ctx_streams c"
  "ctx_options (set_state a f c) = ctx_options c"
  by (simp_all add: set_state_def)

section \<open>Cutting responses into frames\<close>

text \<open>Sending a given list of chunks, one after the other.\<close>

primrec send_frames ::
    "('m, 'qo, 'qb, 'e) agent_runtime \<Rightarrow> nat \<Rightarrow> u64 \<Rightarrow> bytes list \<Rightarrow> (('m, 'qo, 'qb) session_ctx, bool) task" where
  "send_frames R a sid [] = Return True"
| "send_frames R a sid (c # cs) =
     call (draw_credit R a (unat (u32_saturating (length c)))) (\<lambda>ok.
     if \<not> ok then Return False else
     call (ctx_send R (CData \<lparr>sd_stream_id = sid, sd_payload = c\<rparr>)) (\<lambda>sent.
     if \<not> sent then Return False else send_frames R a sid cs))"

definition response_chunks :: "bytes \<Rightarrow> bytes list" where
  "response_chunks payload = (if payload = [] then [] else split_chunks payload)"

lemma AGENT_MAX_CHUNK_eq: "AGENT_MAX_CHUNK = MAX_CHUNK"
  by (simp add: AGENT_MAX_CHUNK_def MAX_CHUNK_def)

lemma response_chunks_step:
  "payload \<noteq> [] \<Longrightarrow> response_chunks payload =
     take (min (length payload) AGENT_MAX_CHUNK) payload # response_chunks (drop (min (length payload) AGENT_MAX_CHUNK) payload)"
  by (auto simp: response_chunks_def split_chunks_loop split_loop.simps [of payload] AGENT_MAX_CHUNK_eq min_def)

lemma send_payload_frames: "send_payload R a sid payload = send_frames R a sid (response_chunks payload)"
proof (induction R a sid payload rule: send_payload.induct)
  case (1 R a sid payload)
  show ?case
  proof (cases "payload = []")
    case True
    then show ?thesis by (simp add: send_payload.simps response_chunks_def)
  next
    case False
    with 1 [OF False refl refl, of True True] show ?thesis
      by (simp add: send_payload.simps [of R a sid payload] response_chunks_step Let_def cong: if_cong)
  qed
qed

lemma response_chunks_bounded: "c \<in> set (response_chunks payload) \<Longrightarrow> length c \<le> MAX_CHUNK"
  by (auto simp: response_chunks_def split_chunks_bounded split: if_splits)

text \<open>C33. The agent cuts a response the way the edge cuts an upload: its sending loop is exactly the sending,
  one after the other, of the chunks into which the edge's chunking function splits the same bytes (an empty payload
  sends nothing).\<close>

theorem agent_chunks_like_the_edge:
  "send_payload R a sid payload = send_frames R a sid (if payload = [] then [] else split_chunks payload)"
  by (simp add: send_payload_frames response_chunks_def)

section \<open>Responses within the window\<close>

definition state_credit :: "('m \<Rightarrow> sem_view) \<Rightarrow> nat \<Rightarrow> ('m, 'qo, 'qb) session_ctx \<Rightarrow> nat" where
  "state_credit sview a c = permits (sview (ss_credit (ctx_heap c ! a)))"

definition client_bytes :: "u64 \<Rightarrow> client_frame \<Rightarrow> nat" where
  "client_bytes sid frame = (case frame of
     Some (CData d) \<Rightarrow> if sd_stream_id d = sid then length (sd_payload d) else 0
   | _ \<Rightarrow> 0)"

definition queued_response :: "('qo \<Rightarrow> client_frame chan_view) \<Rightarrow> u64 \<Rightarrow> ('m, 'qo, 'qb) session_ctx \<Rightarrow> nat" where
  "queued_response oview sid c = sum_list (map (client_bytes sid) (queued (oview (ctx_outbound c))))"

definition allocated :: "nat \<Rightarrow> ('m, 'qo, 'qb) session_ctx \<Rightarrow> bool" where
  "allocated a c \<longleftrightarrow> a < length (ctx_heap c)"

context agent_services
begin

abbreviation "paid sid a \<equiv> solvent (allocated a) (state_credit sview a) (queued_response oview sid)"

lemma paid_ctx_send: "client_bytes sid (Some payload) \<le> n \<Longrightarrow> paid sid a n (ctx_send R payload)"
  unfolding ctx_send_def await_def
proof (rule solvent.Step)
  fix c c' :: "('m, 'qo, 'qb) session_ctx" and t :: "(('m, 'qo, 'qb) session_ctx, bool) task"
  assume n: "client_bytes sid (Some payload) \<le> n" and ok: "allocated a c"
    and step: "map_option (map_prod id Return)
      (case chan_send (ar_out R) (ctx_outbound c) (Some payload) of
        Ready q \<Rightarrow> Some (c\<lparr>ctx_outbound := q\<rparr>, True) | Gone \<Rightarrow> Some (c, False) | NotReady \<Rightarrow> None) = Some (c', t)"
  show "allocated a c' \<and> (\<exists>n'. queued_response oview sid c' - queued_response oview sid c + n' + state_credit sview a c'
      \<le> n + state_credit sview a c \<and> paid sid a n' t)"
  proof (cases "chan_send (ar_out R) (ctx_outbound c) (Some payload)")
    case (Ready q)
    with step have c': "c' = c\<lparr>ctx_outbound := q\<rparr>" "t = Return True" by auto
    have "queued_response oview sid c' = queued_response oview sid c + client_bytes sid (Some payload)"
      using out.send_Ready [OF Ready] c' by (simp add: queued_response_def)
    with ok n c' show ?thesis
      by (auto simp: allocated_def state_credit_def intro!: exI [of _ 0] solvent.Return)
  qed (use step ok in \<open>auto intro!: exI [of _ 0] solvent.Return\<close>)
qed

lemma paid_draw_credit:
  assumes "\<And>ok. paid sid a (if ok then n else 0) (k ok)"
  shows "paid sid a 0 (call (draw_credit R a n) k)"
  unfolding draw_credit_def await_def call.simps
proof (rule solvent.Step)
  fix c c' :: "('m, 'qo, 'qb) session_ctx" and t
  assume ok: "allocated a c"
    and step: "map_option (map_prod id (\<lambda>t. call t k)) (map_option (map_prod id Return)
      (case sem_acquire (ar_sem R) (ss_credit (ctx_heap c ! a)) n of
        Ready m \<Rightarrow> Some (set_state a (\<lambda>st. st\<lparr>ss_credit := m\<rparr>) c, True)
      | Gone \<Rightarrow> Some (c, False) | NotReady \<Rightarrow> None)) = Some (c', t)"
  show "allocated a c' \<and> (\<exists>n'. queued_response oview sid c' - queued_response oview sid c + n' + state_credit sview a c'
      \<le> 0 + state_credit sview a c \<and> paid sid a n' t)"
  proof (cases "sem_acquire (ar_sem R) (ss_credit (ctx_heap c ! a)) n")
    case (Ready m)
    with step have c': "c' = set_state a (\<lambda>st. st\<lparr>ss_credit := m\<rparr>) c" "t = k True" by auto
    have "state_credit sview a c' + n = state_credit sview a c" "queued_response oview sid c' = queued_response oview sid c"
      "allocated a c'"
      using sem.acquire_Ready [OF Ready] ok c' by (auto simp: state_credit_def queued_response_def allocated_def)
    then show ?thesis using assms [of True] c'(2) by (intro conjI exI [of _ n]) auto
  next
    case Gone
    with step ok assms [of False] show ?thesis by (auto intro!: exI [of _ 0])
  qed (use step in simp)
qed

lemma paid_update:
  assumes "\<And>c. allocated a c \<Longrightarrow> allocated a (f c) \<and> state_credit sview a (f c) = state_credit sview a c \<and>
    ctx_outbound (f c) = ctx_outbound c"
  shows "paid sid a 0 (update f)"
  unfolding update_def atomically_def
  by (rule solvent.Step) (use assms in \<open>fastforce simp: queued_response_def intro!: exI [of _ 0] solvent.Return\<close>)

lemma paid_set_state:
  assumes "\<And>st. permits (sview (ss_credit (f st))) = permits (sview (ss_credit st))"
  shows "paid sid a 0 (update (set_state b f))"
proof (rule paid_update, goal_cases)
  case (1 c)
  then show ?case using assms by (cases "b = a") (auto simp: allocated_def state_credit_def)
qed

lemma paid_drop_stream: "paid sid a 0 (drop_stream R sid')"
  unfolding drop_stream_def
proof (rule paid_update, goal_cases)
  case (1 c)
  then show ?case
  proof (cases "ctx_streams c sid'")
    case (Some b)
    with 1 show ?thesis
      by (cases "b = a") (auto simp: allocated_def state_credit_def drop_body_tx_def sem.sem_close_law)
  qed simp
qed

lemma paid_agent_reset: "paid sid a 0 (agent_reset R sid' code message)"
  unfolding agent_reset_def by (intro solvent_call paid_ctx_send solvent.Return) (simp add: client_bytes_def)

lemma paid_send_frames: "list_all (\<lambda>c. length c \<le> MAX_CHUNK) cs \<Longrightarrow> paid sid a 0 (send_frames R a sid cs)"
proof (induction cs)
  case Nil
  show ?case by (simp add: solvent.Return)
next
  case (Cons c cs)
  then have "unat (u32_saturating (length c)) = length c" by (simp add: unat_u32_saturating MAX_CHUNK_def)
  with Cons show ?case
    using paid_ctx_send [of sid "CData \<lparr>sd_stream_id = sid, sd_payload = c\<rparr>" "length c" a]
    by (auto simp: client_bytes_def intro!: paid_draw_credit solvent_call solvent.Return)
qed

lemma paid_send_payload: "paid sid a 0 (send_payload R a sid payload)"
  unfolding send_payload_frames by (rule paid_send_frames) (simp add: list_all_iff response_chunks_bounded)

lemma paid_relay_body: "paid sid a 0 (relay_body R a sid trailers frames)"
proof (induction frames arbitrary: trailers)
  case Nil
  show ?case by (auto intro!: solvent_call paid_ctx_send paid_drop_stream simp: client_bytes_def)
next
  case (Cons frame frames)
  then show ?case
    by (auto intro!: solvent_call paid_send_payload paid_drop_stream paid_agent_reset split: result.split body_frame.split)
qed

lemma paid_call_local_service: "paid sid a 0 (call_local_service b request)"
  unfolding call_local_service_def
proof (rule solvent_call)
  show "paid sid a 0 (update (set_state b (\<lambda>st. st\<lparr>ss_request := Some request\<rparr>)))" by (rule paid_set_state) simp
  show "paid sid a 0 (await (\<lambda>c. map_option (Pair c) (ss_answer (ctx_heap c ! b))))" for x :: unit
    unfolding await_def by (rule solvent.Step) (auto intro!: exI [of _ 0] solvent.Return)
qed

lemma paid_read: "paid sid a 0 (read f)"
  unfolding read_def atomically_def by (rule solvent.Step) (auto intro!: exI [of _ 0] solvent.Return)

lemma paid_serve_stream: "so_stream_id req = sid \<Longrightarrow> paid sid a 0 (serve_stream R lib L a req)"
proof -
  have "paid sid a 0 (drop_local_receiver R b)" for b
    unfolding drop_local_receiver_def by (rule paid_set_state) simp
  then show "so_stream_id req = sid \<Longrightarrow> paid sid a 0 (serve_stream R lib L a req)"
    unfolding serve_stream_def Let_def
    by (auto intro!: solvent_call paid_read paid_agent_reset paid_drop_stream paid_call_local_service paid_relay_body
        paid_ctx_send simp: client_bytes_def split: option.split result.split)
qed

end

text \<open>C15. A response never outruns the edge's window. Whatever the local service answers and whatever
  happens to the agent's other streams in between, the response bytes that serving a request has put on
  the queue towards the edge and the credit that is left never exceed the credit the stream started with
  and the credit the edge has granted since.\<close>

theorem response_within_window:
  assumes "agent_services R sview oview bview eview" "a < length (ctx_heap c)" "so_stream_id req = sid"
    and "metered (allocated a) (state_credit sview a) (queued_response oview sid) c (serve_stream R lib L a req) c' t sent given"
  shows "sent + state_credit sview a c' \<le> state_credit sview a c + given"
  using metered_solvent [OF assms(4) _ agent_services.paid_serve_stream [OF assms(1,3)]] assms(2) by (simp add: allocated_def)

text \<open>One answered request: a head, four bytes and the end.\<close>

definition sample_options :: agent_options where
  "sample_options = \<lparr>opt_server = ''http://127.0.0.1:7000'', opt_token = ''tok_a'', opt_forward_addr = ''127.0.0.1:3000'',
     opt_subdomain = None, opt_domain = None, opt_rewrite_host = False, opt_max_retries = 3\<rparr>"

definition sample_open :: stream_open where
  "sample_open = \<lparr>so_stream_id = 1, so_tunnel_id = ''tun_1'', so_kind = 1,
     so_http = Some \<lparr>rq_method = ''GET'', rq_path = ''/'', rq_authority = ''api.tunnel.com'', rq_headers = [],
       rq_version = ''HTTP/1.1'', rq_upgrade = []\<rparr>, so_remote_addr = ''192.0.2.1:1'', so_initial_window = 4\<rparr>"

definition sample_response :: local_response where
  "sample_response = \<lparr>lr_status = 200, lr_headers = [], lr_body = [Ok (DataFrame ''ab''), Ok (DataFrame ''cd'')]\<rparr>"

definition ref_lib :: request_lib where
  "ref_lib = \<lparr>rl_method = Ok, rl_uri = Ok, rl_header_error = ''failed to parse header value''\<rparr>"

definition sample_ctx :: "(sem_view, client_frame chan_view, local_frame chan_view) session_ctx" where
  "sample_ctx = \<lparr>ctx_outbound = chan_new ref_chan AGENT_OUTBOUND_QUEUE,
     ctx_heap = [(fresh_state ref_agent_runtime 4)\<lparr>ss_answer := Some (Ok sample_response)\<rparr>], ctx_streams = [1 \<mapsto> 0],
     ctx_options = sample_options\<rparr>"

lemmas sample_ctx_simps = sample_ctx_def fresh_state_def ref_agent_runtime_def ref_chan_def ref_sem_def AGENT_OUTBOUND_QUEUE_def
  BODY_QUEUE_def

section \<open>Relaying a response\<close>

definition ctx_room :: "('qo \<Rightarrow> client_frame chan_view) \<Rightarrow> nat \<Rightarrow> ('m, 'qo, 'qb) session_ctx \<Rightarrow> bool" where
  "ctx_room oview n c \<longleftrightarrow> receiver (oview (ctx_outbound c)) \<and>
     length (queued (oview (ctx_outbound c))) + n \<le> capacity (oview (ctx_outbound c))"

text \<open>The stream at \<open>a\<close> is open, has \<open>m\<close> bytes of credit, and the queue has room for \<open>n\<close> frames.\<close>

definition ready_to_send ::
    "('m \<Rightarrow> sem_view) \<Rightarrow> ('qo \<Rightarrow> client_frame chan_view) \<Rightarrow> nat \<Rightarrow> nat \<Rightarrow> nat \<Rightarrow> ('m, 'qo, 'qb) session_ctx \<Rightarrow> bool" where
  "ready_to_send sview oview a n m c \<longleftrightarrow> a < length (ctx_heap c) \<and> \<not> sem_closed (sview (ss_credit (ctx_heap c ! a))) \<and>
     m \<le> state_credit sview a c \<and> ctx_room oview n c"

abbreviation (input) frames_to_edge :: "('qo \<Rightarrow> client_frame chan_view) \<Rightarrow> ('m, 'qo, 'qb) session_ctx \<Rightarrow> client_frame list" where
  "frames_to_edge oview c \<equiv> queued (oview (ctx_outbound c))"

definition response_data :: "u64 \<Rightarrow> bytes \<Rightarrow> client_frame" where
  "response_data sid d = Some (CData \<lparr>sd_stream_id = sid, sd_payload = d\<rparr>)"

text \<open>The trailers that the end of a body carries: those of its last trailers frame.\<close>

primrec relayed_trailers :: "header list \<Rightarrow> local_frame list \<Rightarrow> header list" where
  "relayed_trailers ts [] = ts"
| "relayed_trailers ts (f # fs) = (case f of Ok (TrailersFrame hs) \<Rightarrow> relayed_trailers (proto_headers hs) fs | _ \<Rightarrow> relayed_trailers ts fs)"

definition response_end :: "u64 \<Rightarrow> header list \<Rightarrow> client_frame" where
  "response_end sid ts = Some (CEnd \<lparr>se_stream_id = sid, se_trailers = ts\<rparr>)"

context agent_services
begin

abbreviation "can_send \<equiv> ready_to_send sview oview"

lemma run_ctx_send:
  assumes "ctx_room oview (Suc n) c"
  obtains q where "run (ctx_send R payload) c = Finished (c\<lparr>ctx_outbound := q\<rparr>) True"
    "queued (oview q) = frames_to_edge oview c @ [Some payload]" "ctx_room oview n (c\<lparr>ctx_outbound := q\<rparr>)"
proof -
  have "receiver (oview (ctx_outbound c))" "length (queued (oview (ctx_outbound c))) < capacity (oview (ctx_outbound c))"
    using assms by (simp_all add: ctx_room_def)
  from out.send_room [OF this, of "Some payload"] assms show ?thesis
    by (auto simp: ctx_send_def ctx_room_def intro!: that)
qed

lemma run_drop_stream:
  "ctx_streams c sid = Some a \<Longrightarrow> run (drop_stream R sid) c = Finished
     ((set_state a (\<lambda>st. drop_body_tx R (st\<lparr>ss_credit := sem_close (ar_sem R) (ss_credit st)\<rparr>)) c)
       \<lparr>ctx_streams := (ctx_streams c)(sid := None)\<rparr>) ()"
  by (simp add: drop_stream_def)

lemma run_send_frames:
  assumes "can_send a (length cs + n) (sum_list (map length cs) + m) c" "list_all (\<lambda>c. length c \<le> MAX_CHUNK) cs"
  shows "\<exists>c'. run (send_frames R a sid cs) c = Finished c' True \<and>
    frames_to_edge oview c' = frames_to_edge oview c @ map (response_data sid) cs \<and> can_send a n m c' \<and> ctx_streams c' = ctx_streams c"
  using assms
proof (induction cs arbitrary: c)
  case (Cons x cs)
  let ?k = "unat (u32_saturating (length x))"
  have k: "?k = length x" using Cons.prems(2) by (simp add: unat_u32_saturating MAX_CHUNK_def)
  have a: "a < length (ctx_heap c)" "\<not> sem_closed (sview (ss_credit (ctx_heap c ! a)))" "length x \<le> state_credit sview a c"
    using Cons.prems(1) by (simp_all add: ready_to_send_def)
  obtain m1 where m1: "sem_acquire (ar_sem R) (ss_credit (ctx_heap c ! a)) ?k = Ready m1"
    "sview m1 = (sview (ss_credit (ctx_heap c ! a)))\<lparr>permits := state_credit sview a c - length x\<rparr>"
    using sem.acquire_takes [OF a(2), of ?k] a(3) k by (auto simp: state_credit_def)
  let ?c1 = "set_state a (\<lambda>st. st\<lparr>ss_credit := m1\<rparr>) c"
  have room: "ctx_room oview (Suc (length cs + n)) ?c1" using Cons.prems(1) by (simp add: ready_to_send_def ctx_room_def)
  obtain q where q: "run (ctx_send R (CData \<lparr>sd_stream_id = sid, sd_payload = x\<rparr>)) ?c1 = Finished (?c1\<lparr>ctx_outbound := q\<rparr>) True"
    "queued (oview q) = frames_to_edge oview ?c1 @ [Some (CData \<lparr>sd_stream_id = sid, sd_payload = x\<rparr>)]"
    "ctx_room oview (length cs + n) (?c1\<lparr>ctx_outbound := q\<rparr>)"
    by (rule run_ctx_send [OF room])
  let ?c2 = "?c1\<lparr>ctx_outbound := q\<rparr>"
  have "can_send a (length cs + n) (sum_list (map length cs) + m) ?c2"
    using a m1(2) q(3) Cons.prems(1) by (auto simp: ready_to_send_def state_credit_def)
  then obtain c' where "run (send_frames R a sid cs) ?c2 = Finished c' True"
    "frames_to_edge oview c' = frames_to_edge oview ?c2 @ map (response_data sid) cs" "can_send a n m c'"
    "ctx_streams c' = ctx_streams ?c2"
    using Cons.IH [of ?c2] Cons.prems(2) by auto
  then show ?case using m1(1) q(1,2) by (intro exI [of _ c']) (simp add: run_call draw_credit_def response_data_def)
qed simp

lemma run_relay_body:
  assumes "can_send a (Suc (length (upload_chunks frames))) (sum_list (map length (body_data frames))) c" "list_all is_ok frames"
    "ctx_streams c sid = Some a"
  shows "\<exists>c'. run (relay_body R a sid ts frames) c = Finished c' () \<and> ctx_streams c' = (ctx_streams c)(sid := None) \<and>
    frames_to_edge oview c' = frames_to_edge oview c @ map (response_data sid) (upload_chunks frames) @
      [response_end sid (relayed_trailers ts frames)]"
  using assms
proof (induction frames arbitrary: c ts)
  case Nil
  then have room: "ctx_room oview (Suc 0) c" by (simp add: ready_to_send_def)
  obtain q where q: "run (ctx_send R (CEnd \<lparr>se_stream_id = sid, se_trailers = ts\<rparr>)) c = Finished (c\<lparr>ctx_outbound := q\<rparr>) True"
    "queued (oview q) = frames_to_edge oview c @ [Some (CEnd \<lparr>se_stream_id = sid, se_trailers = ts\<rparr>)]"
    by (rule run_ctx_send [OF room])
  then show ?case using Nil.prems(3) by (simp add: run_call run_drop_stream response_end_def fun_upd_def)
next
  case (Cons frame frames)
  from Cons.prems(2) obtain f where f: "frame = Ok f" "list_all is_ok frames" by (cases frame) auto
  show ?case
  proof (cases f)
    case (TrailersFrame hs)
    then show ?thesis using Cons.IH [of c "proto_headers hs"] Cons.prems f by simp
  next
    case (DataFrame d)
    let ?cs = "response_chunks d"
    have len: "length ?cs + length (upload_chunks frames) = length (upload_chunks (frame # frames))"
      "sum_list (map length ?cs) + sum_list (map length (body_data frames)) = sum_list (map length (body_data (frame # frames)))"
      "map (response_data sid) ?cs @ map (response_data sid) (upload_chunks frames) = map (response_data sid) (upload_chunks (frame # frames))"
      using f(1) DataFrame by (simp_all add: response_chunks_def sum_split_chunks)
    have "can_send a (length ?cs + Suc (length (upload_chunks frames))) (sum_list (map length ?cs) + sum_list (map length (body_data frames))) c"
      using Cons.prems(1) len by (simp add: ready_to_send_def)
    moreover have "list_all (\<lambda>c. length c \<le> MAX_CHUNK) ?cs" by (simp add: list_all_iff response_chunks_bounded)
    ultimately obtain c1 where c1: "run (send_frames R a sid ?cs) c = Finished c1 True"
      "frames_to_edge oview c1 = frames_to_edge oview c @ map (response_data sid) ?cs"
      "can_send a (Suc (length (upload_chunks frames))) (sum_list (map length (body_data frames))) c1" "ctx_streams c1 = ctx_streams c"
      using run_send_frames by blast
    have reg: "ctx_streams c1 sid = Some a" using c1(4) Cons.prems(3) by simp
    obtain c' where "run (relay_body R a sid ts frames) c1 = Finished c' ()" "ctx_streams c' = (ctx_streams c1)(sid := None)"
      "frames_to_edge oview c' = frames_to_edge oview c1 @ map (response_data sid) (upload_chunks frames) @ [response_end sid (relayed_trailers ts frames)]"
      using Cons.IH [OF c1(3) f(2) reg, of ts] by blast
    then show ?thesis using c1 f(1) DataFrame len(3) [symmetric]
      by (intro exI [of _ c']) (simp add: run_call send_payload_frames del: upload_chunks_simps)
  qed
qed

end

definition response_head :: "u64 \<Rightarrow> local_response \<Rightarrow> client_frame" where
  "response_head sid resp = Some (CResponseHead \<lparr>rh_stream_id = sid, rh_status = ucast (lr_status resp),
     rh_headers = proto_headers (lr_headers resp)\<rparr>)"

definition client_reset :: "u64 \<Rightarrow> reset_code \<Rightarrow> string \<Rightarrow> client_frame" where
  "client_reset sid code message = Some (CReset \<lparr>sr_stream_id = sid, sr_code = reset_code_i32 code, sr_message = message\<rparr>)"

context agent_services
begin

lemma run_serve_answered:
  assumes "so_http req = Some head" "build_local_request lib L (ctx_options c) req head = Ok request"
    "ss_answer (ctx_heap c ! a) = Some (Ok resp)" "ctx_streams c (so_stream_id req) = Some a" "list_all is_ok (lr_body resp)"
    "can_send a (Suc (Suc (length (upload_chunks (lr_body resp))))) (sum_list (map length (body_data (lr_body resp)))) c"
  shows "\<exists>c'. run (serve_stream R lib L a req) c = Finished c' () \<and>
    ctx_streams c' = (ctx_streams c)(so_stream_id req := None) \<and>
    frames_to_edge oview c' = frames_to_edge oview c @ [response_head (so_stream_id req) resp] @
      map (response_data (so_stream_id req)) (upload_chunks (lr_body resp)) @
      [response_end (so_stream_id req) (relayed_trailers [] (lr_body resp))]"
proof -
  let ?sid = "so_stream_id req"
  let ?head = "CResponseHead \<lparr>rh_stream_id = ?sid, rh_status = ucast (lr_status resp), rh_headers = proto_headers (lr_headers resp)\<rparr>"
  let ?c1 = "set_state a (\<lambda>st. st\<lparr>ss_request := Some request\<rparr>) c"
  have a: "a < length (ctx_heap c)" using assms(6) by (simp add: ready_to_send_def)
  have room: "ctx_room oview (Suc (Suc (length (upload_chunks (lr_body resp))))) ?c1"
    using assms(6) by (simp add: ready_to_send_def ctx_room_def)
  obtain q where q: "run (ctx_send R ?head) ?c1 = Finished (?c1\<lparr>ctx_outbound := q\<rparr>) True"
    "queued (oview q) = frames_to_edge oview ?c1 @ [Some ?head]"
    "ctx_room oview (Suc (length (upload_chunks (lr_body resp)))) (?c1\<lparr>ctx_outbound := q\<rparr>)"
    by (rule run_ctx_send [OF room])
  let ?c2 = "?c1\<lparr>ctx_outbound := q\<rparr>"
  have ready: "can_send a (Suc (length (upload_chunks (lr_body resp)))) (sum_list (map length (body_data (lr_body resp)))) ?c2"
    using assms(6) q(3) a by (simp add: ready_to_send_def state_credit_def)
  have reg: "ctx_streams ?c2 ?sid = Some a" using assms(4) by simp
  obtain c' where c': "run (relay_body R a ?sid [] (lr_body resp)) ?c2 = Finished c' ()" "ctx_streams c' = (ctx_streams ?c2)(?sid := None)"
    "frames_to_edge oview c' = frames_to_edge oview ?c2 @ map (response_data ?sid) (upload_chunks (lr_body resp)) @
      [response_end ?sid (relayed_trailers [] (lr_body resp))]"
    using run_relay_body [OF ready assms(5) reg, of "[]"] by blast
  have "run (serve_stream R lib L a req) c = Finished c' ()"
    using assms(1-3) a q(1) c'(1) by (simp add: serve_stream_def Let_def call_local_service_def run_call)
  then show ?thesis using c' q(2) by (intro exI [of _ c']) (simp add: response_head_def)
qed

lemma run_serve_failed:
  assumes "so_http req = Some head" "build_local_request lib L (ctx_options c) req head = Ok request"
    "ss_answer (ctx_heap c ! a) = Some (Err e)" "ctx_streams c (so_stream_id req) = Some a" "a < length (ctx_heap c)"
    "ctx_room oview (Suc n) c"
  shows "\<exists>c'. run (serve_stream R lib L a req) c = Finished c' () \<and>
    ctx_streams c' = (ctx_streams c)(so_stream_id req := None) \<and>
    frames_to_edge oview c' = frames_to_edge oview c @
      [client_reset (so_stream_id req) ResetLocalUnreachable (''cannot reach '' @ opt_forward_addr (ctx_options c) @ '': '' @ e)]"
proof -
  let ?reset = "CReset \<lparr>sr_stream_id = so_stream_id req, sr_code = reset_code_i32 ResetLocalUnreachable,
    sr_message = ''cannot reach '' @ opt_forward_addr (ctx_options c) @ '': '' @ e\<rparr>"
  let ?c1 = "set_state a (\<lambda>st. st\<lparr>ss_request := Some request\<rparr>) c"
  have room: "ctx_room oview (Suc n) ?c1" using assms(6) by (simp add: ctx_room_def)
  obtain q where q: "run (ctx_send R ?reset) ?c1 = Finished (?c1\<lparr>ctx_outbound := q\<rparr>) True"
    "queued (oview q) = frames_to_edge oview ?c1 @ [Some ?reset]"
    by (rule run_ctx_send [OF room])
  have reg: "ctx_streams (?c1\<lparr>ctx_outbound := q\<rparr>) (so_stream_id req) = Some a" using assms(4) by simp
  show ?thesis
    using assms(1-3,5) q run_drop_stream [OF reg]
    by (simp add: serve_stream_def Let_def call_local_service_def run_call agent_reset_def client_reset_def)
qed

end

text \<open>C20. A response reaches the edge whole. When the local service answers, serving the request ends: the
  edge is sent the head, then the body's bytes in order in frames that fit, then one end with the
  body's last trailers, and the stream is given back. When the local service cannot be reached, the edge is sent one reset that
  says so, and the stream is given back.\<close>

theorem response_relayed_whole:
  assumes "agent_services R sview oview bview eview" "so_http req = Some head" "so_stream_id req = sid"
    and "build_local_request lib L (ctx_options c) req head = Ok request" "ctx_streams c sid = Some a"
    and "ss_answer (ctx_heap c ! a) = Some answer" "a < length (ctx_heap c)"
    and "case answer of
        Ok resp \<Rightarrow> list_all is_ok (lr_body resp) \<and>
          ready_to_send sview oview a (length (upload_chunks (lr_body resp)) + 2) (sum_list (map length (body_data (lr_body resp)))) c
      | Err e \<Rightarrow> ctx_room oview 1 c"
  shows "\<exists>c'. run (serve_stream R lib L a req) c = Finished c' () \<and> ctx_streams c' = (ctx_streams c)(sid := None) \<and>
    (case answer of
       Ok resp \<Rightarrow> \<exists>cs. queued (oview (ctx_outbound c')) = queued (oview (ctx_outbound c)) @ [response_head sid resp] @
           map (response_data sid) cs @ [response_end sid (relayed_trailers [] (lr_body resp))] \<and>
         concat cs = concat (body_data (lr_body resp)) \<and> (\<forall>x \<in> set cs. length x \<le> MAX_CHUNK)
     | Err e \<Rightarrow> queued (oview (ctx_outbound c')) = queued (oview (ctx_outbound c)) @
         [client_reset sid ResetLocalUnreachable (''cannot reach '' @ opt_forward_addr (ctx_options c) @ '': '' @ e)])"
proof (cases answer)
  case (Ok resp)
  have "\<forall>x \<in> set (upload_chunks (lr_body resp)). length x \<le> MAX_CHUNK" by (auto simp: upload_chunks_def split_chunks_bounded)
  moreover have "concat (upload_chunks (lr_body resp)) = concat (body_data (lr_body resp))" by (rule concat_upload_chunks)
  moreover have "\<exists>c'. run (serve_stream R lib L a req) c = Finished c' () \<and> ctx_streams c' = (ctx_streams c)(sid := None) \<and>
      queued (oview (ctx_outbound c')) = queued (oview (ctx_outbound c)) @ [response_head sid resp] @
        map (response_data sid) (upload_chunks (lr_body resp)) @ [response_end sid (relayed_trailers [] (lr_body resp))]"
    using agent_services.run_serve_answered [OF assms(1,2,4), of a resp] assms(3,5,6,8) Ok by simp
  ultimately show ?thesis unfolding Ok by auto
next
  case (Err e)
  then show ?thesis
    using agent_services.run_serve_failed [OF assms(1,2,4), of a e 0] assms(3,5-8) by simp
qed

lemma sample_ctx_build:
  "\<exists>request. build_local_request ref_http ref_lib (ctx_options sample_ctx) sample_open
     \<lparr>rq_method = ''GET'', rq_path = ''/'', rq_authority = ''api.tunnel.com'', rq_headers = [], rq_version = ''HTTP/1.1'',
      rq_upgrade = []\<rparr> = Ok request"
  by (simp add: build_local_request_def ref_lib_def builder_header_def ref_http_def sample_open_def sample_ctx_def sample_options_def
      rsplit_once_def trim_matches_any_def clean_value_def byte_def)

lemma sample_ctx_chunks: "upload_chunks (lr_body sample_response) = [''ab'', ''cd'']"
  by (simp add: sample_response_def split_chunks_def MAX_CHUNK_def)

lemma sample_ctx_facts:
  "so_http sample_open = Some \<lparr>rq_method = ''GET'', rq_path = ''/'', rq_authority = ''api.tunnel.com'', rq_headers = [],
     rq_version = ''HTTP/1.1'', rq_upgrade = []\<rparr>"
  "so_stream_id sample_open = 1" "ctx_streams sample_ctx 1 = Some 0" "ss_answer (ctx_heap sample_ctx ! 0) = Some (Ok sample_response)"
  "0 < length (ctx_heap sample_ctx)" "list_all is_ok (lr_body sample_response)"
  "ready_to_send id id 0 (length (upload_chunks (lr_body sample_response)) + 2) (sum_list (map length (body_data (lr_body sample_response)))) sample_ctx"
  "queued (ctx_outbound sample_ctx) = []"
  unfolding sample_ctx_chunks
  by (simp_all add: sample_open_def sample_ctx_simps sample_response_def ready_to_send_def state_credit_def ctx_room_def)

theorem response_relayed_whole_witness:
  "\<exists>c' cs. run (serve_stream ref_agent_runtime ref_http ref_lib 0 sample_open) sample_ctx = Finished c' () \<and>
     queued (ctx_outbound c') = [response_head 1 sample_response] @ map (response_data 1) cs @ [response_end 1 []] \<and> concat cs = ''abcd''"
proof -
  obtain request where "build_local_request ref_http ref_lib (ctx_options sample_ctx) sample_open
     \<lparr>rq_method = ''GET'', rq_path = ''/'', rq_authority = ''api.tunnel.com'', rq_headers = [], rq_version = ''HTTP/1.1'',
      rq_upgrade = []\<rparr> = Ok request" using sample_ctx_build by blast
  from response_relayed_whole [OF ref_ar.agent_services_axioms sample_ctx_facts(1,2) this sample_ctx_facts(3-5)] sample_ctx_facts(6-8)
  show ?thesis by (auto simp: sample_response_def)
qed

theorem response_within_window_witness:
  "\<exists>c' sent. metered (allocated 0) (state_credit id 0) (queued_response id 1) sample_ctx
      (serve_stream ref_agent_runtime ref_http ref_lib 0 sample_open) c' (Return ()) sent 0 \<and> 4 \<le> sent \<and> sent + state_credit id 0 c' \<le> 4"
proof -
  let ?t = "serve_stream ref_agent_runtime ref_http ref_lib 0 sample_open"
  obtain request where "build_local_request ref_http ref_lib (ctx_options sample_ctx) sample_open
     \<lparr>rq_method = ''GET'', rq_path = ''/'', rq_authority = ''api.tunnel.com'', rq_headers = [], rq_version = ''HTTP/1.1'',
      rq_upgrade = []\<rparr> = Ok request" using sample_ctx_build by blast
  from ref_ar.run_serve_answered [OF sample_ctx_facts(1) this sample_ctx_facts(4)] sample_ctx_facts(2,3,5-8)
  obtain c' where c': "run ?t sample_ctx = Finished c' ()"
    "queued (ctx_outbound c') = [response_head 1 sample_response] @ map (response_data 1) [''ab'', ''cd''] @ [response_end 1 []]"
    unfolding sample_ctx_chunks by (auto simp: sample_response_def)
  have bytes: "queued_response id 1 c' = 4" "queued_response id 1 sample_ctx = 0" "state_credit id 0 sample_ctx = 4"
    using c'(2) by (simp_all add: queued_response_def client_bytes_def response_head_def response_data_def response_end_def
        sample_ctx_simps state_credit_def)
  obtain sent where sent: "4 \<le> sent" "metered (allocated 0) (state_credit id 0) (queued_response id 1) sample_ctx ?t c' (Return ()) sent 0"
    using metered_run [where ok = "allocated 0" and credit = "state_credit id 0" and sent = "queued_response id 1",
        OF metered.start c'(1)] bytes by auto
  from response_within_window [OF ref_ar.agent_services_axioms sample_ctx_facts(5,2) sent(2)] bytes(3) sent show ?thesis
    by (intro exI [of _ c'] exI [of _ sent]) simp
qed

section \<open>Request bodies\<close>

definition local_body :: "('qb \<Rightarrow> local_frame chan_view) \<Rightarrow> nat \<Rightarrow> ('m, 'qo, 'qb) session_ctx \<Rightarrow> local_frame chan_view" where
  "local_body bview a c = bview (ss_body (ctx_heap c ! a))"

text \<open>The stream is registered at \<open>a\<close> and its request body is still open.\<close>

definition receiving :: "u64 \<Rightarrow> nat \<Rightarrow> ('m, 'qo, 'qb) session_ctx \<Rightarrow> bool" where
  "receiving sid a c \<longleftrightarrow> ctx_streams c sid = Some a \<and> a < length (ctx_heap c) \<and> ss_live (ctx_heap c ! a)"

definition window_frame :: "u64 \<Rightarrow> bytes \<Rightarrow> client_frame" where
  "window_frame sid d = Some (CWindowUpdate \<lparr>wu_stream_id = sid, wu_increment = u32_saturating (length d)\<rparr>)"

context agent_services
begin

lemma run_on_data:
  assumes "receiving sid a c" "receiver (local_body bview a c)"
    "length (queued (local_body bview a c)) < capacity (local_body bview a c)" "ctx_room oview (Suc n) c"
  shows "\<exists>c'. run (on_data R \<lparr>sd_stream_id = sid, sd_payload = d\<rparr>) c = Finished c' () \<and> receiving sid a c' \<and> ctx_room oview n c' \<and>
    local_body bview a c' = (local_body bview a c)\<lparr>queued := queued (local_body bview a c) @ [Ok (DataFrame d)]\<rparr> \<and>
    frames_to_edge oview c' = frames_to_edge oview c @ [window_frame sid d]"
proof -
  have a: "a < length (ctx_heap c)" "ctx_streams c sid = Some a" "ss_live (ctx_heap c ! a)" using assms(1) by (simp_all add: receiving_def)
  let ?c1 = "set_state a (\<lambda>st. st\<lparr>ss_body := chan_clone_tx (ar_body R) (ss_body st)\<rparr>) c"
  have v1: "bview (ss_body (ctx_heap ?c1 ! a)) = (local_body bview a c)\<lparr>senders := senders (local_body bview a c) + 1\<rparr>"
    using a by (simp add: local_body_def bod.clone_tx_law)
  obtain q where q: "chan_send (ar_body R) (ss_body (ctx_heap ?c1 ! a)) (Ok (DataFrame d)) = Ready q"
    "bview q = (bview (ss_body (ctx_heap ?c1 ! a)))\<lparr>queued := queued (local_body bview a c) @ [Ok (DataFrame d)]\<rparr>"
    using bod.send_room [of "ss_body (ctx_heap ?c1 ! a)" "Ok (DataFrame d)"] assms(2,3) v1 by auto
  let ?c2 = "set_state a (\<lambda>st. st\<lparr>ss_body := q\<rparr>) ?c1"
  have room: "ctx_room oview (Suc n) ?c2" using assms(4) by (simp add: ctx_room_def)
  let ?frame = "CWindowUpdate \<lparr>wu_stream_id = sid, wu_increment = u32_saturating (length d)\<rparr>"
  obtain p where p: "run (ctx_send R ?frame) ?c2 = Finished (?c2\<lparr>ctx_outbound := p\<rparr>) True"
    "queued (oview p) = frames_to_edge oview ?c2 @ [Some ?frame]" "ctx_room oview n (?c2\<lparr>ctx_outbound := p\<rparr>)"
    by (rule run_ctx_send [OF room])
  let ?c4 = "set_state a (\<lambda>st. st\<lparr>ss_body := chan_drop_tx (ar_body R) (ss_body st)\<rparr>) (?c2\<lparr>ctx_outbound := p\<rparr>)"
  have "run (on_data R \<lparr>sd_stream_id = sid, sd_payload = d\<rparr>) c = Finished ?c4 ()"
    using a q(1) p(1) by (simp add: on_data_def run_call body_sender_def local_send_def drop_local_sender_def)
  moreover have "receiving sid a ?c4" using a by (simp add: receiving_def)
  moreover have "ctx_room oview n ?c4" using p(3) by (simp add: ctx_room_def)
  moreover have "local_body bview a ?c4 = (local_body bview a c)\<lparr>queued := queued (local_body bview a c) @ [Ok (DataFrame d)]\<rparr>"
    using a q(2) v1 by (simp add: local_body_def bod.drop_tx_law)
  moreover have "frames_to_edge oview ?c4 = frames_to_edge oview c @ [window_frame sid d]"
    using p(2) by (simp add: window_frame_def)
  ultimately show ?thesis by blast
qed

lemma run_all_data:
  assumes "receiving sid a c" "receiver (local_body bview a c)"
    "length (queued (local_body bview a c)) + length ds \<le> capacity (local_body bview a c)" "ctx_room oview (length ds) c"
  shows "\<exists>c'. run (for_each (\<lambda>d. on_data R \<lparr>sd_stream_id = sid, sd_payload = d\<rparr>) ds) c = Finished c' () \<and> receiving sid a c' \<and>
    local_body bview a c' = (local_body bview a c)\<lparr>queued := queued (local_body bview a c) @ map (\<lambda>d. Ok (DataFrame d)) ds\<rparr> \<and>
    frames_to_edge oview c' = frames_to_edge oview c @ map (window_frame sid) ds"
  using assms
proof (induction ds arbitrary: c)
  case (Cons d ds)
  obtain c1 where c1: "run (on_data R \<lparr>sd_stream_id = sid, sd_payload = d\<rparr>) c = Finished c1 ()" "receiving sid a c1"
    "ctx_room oview (length ds) c1" "frames_to_edge oview c1 = frames_to_edge oview c @ [window_frame sid d]"
    "local_body bview a c1 = (local_body bview a c)\<lparr>queued := queued (local_body bview a c) @ [Ok (DataFrame d)]\<rparr>"
    using run_on_data [OF Cons.prems(1,2), of "length ds" d] Cons.prems(3,4) by auto
  have "receiver (local_body bview a c1)" "length (queued (local_body bview a c1)) + length ds \<le> capacity (local_body bview a c1)"
    using c1(5) Cons.prems(2,3) by simp_all
  from Cons.IH [OF c1(2) this c1(3)] c1(1,4,5) show ?case by (auto simp: run_call)
qed simp

lemma run_close_request_body:
  assumes "receiving sid a c"
  shows "\<exists>c'. run (close_request_body R sid) c = Finished c' () \<and> ctx_outbound c' = ctx_outbound c \<and>
    local_body bview a c' = (local_body bview a c)\<lparr>senders := senders (local_body bview a c) - 1\<rparr>"
  using assms by (simp add: close_request_body_def receiving_def local_body_def drop_body_tx_def bod.drop_tx_law)

end

section \<open>Reconnecting\<close>

text \<open>A driver that lets half a minute pass whenever the agent waits, which is enough for any of its waits
  between two sessions.\<close>

fun let_time_pass :: "nat \<Rightarrow> (('m, 'qo, 'qb, 'e) agent, 'a) task \<Rightarrow> ('m, 'qo, 'qb, 'e) agent \<Rightarrow> (('m, 'qo, 'qb, 'e) agent, 'a) outcome" where
  "let_time_pass 0 t w = run t w"
| "let_time_pass (Suc n) t w = (case run t w of
     Blocked w' t' \<Rightarrow> let_time_pass n t' (w'\<lparr>ag_clock := ag_clock w' + 30000\<rparr>)
   | r \<Rightarrow> r)"

definition events_room :: "('e \<Rightarrow> agent_event chan_view) \<Rightarrow> nat \<Rightarrow> ('m, 'qo, 'qb, 'e) agent \<Rightarrow> bool" where
  "events_room eview n w \<longleftrightarrow> receiver (eview (ag_events w)) \<and>
     length (queued (eview (ag_events w))) + n \<le> capacity (eview (ag_events w))"

lemma let_time_pass_cong: "run t w = run t' w' \<Longrightarrow> let_time_pass n t w = let_time_pass n t' w'"
  by (cases n) simp_all

lemma pass_sleep:
  assumes "\<not> ag_shutdown w" "0 < d" "d \<le> 30000"
  shows "let_time_pass (Suc n) (call (sleep_or_shutdown d) k) w = let_time_pass n (k True) (w\<lparr>ag_clock := ag_clock w + 30000\<rparr>)"
  using assms by (auto simp: sleep_or_shutdown_def run_call intro: let_time_pass_cong)

context agent_services
begin

lemma run_emit:
  assumes "events_room eview (Suc n) w"
  obtains q where "run (emit R event) w = Finished (w\<lparr>ag_events := q\<rparr>) ()"
    "queued (eview q) = queued (eview (ag_events w)) @ [event]" "events_room eview n (w\<lparr>ag_events := q\<rparr>)"
proof -
  have "receiver (eview (ag_events w))" "length (queued (eview (ag_events w))) < capacity (eview (ag_events w))"
    using assms by (simp_all add: events_room_def)
  from evs.send_room [OF this, of event] assms show ?thesis by (auto simp: emit_def events_room_def intro!: that)
qed

text \<open>One refused connection below the limit: the failure is reported, and the loop goes on after the delay.\<close>

lemma agent_run_retries:
  assumes "opt_max_retries opts = of_nat n" "n < 2 ^ 32" "j < n" "\<not> ag_shutdown w" "events_room eview (Suc m) w" "cn_connect conn = Err e"
  obtains w' where "let_time_pass (Suc k) (agent_run R lib L show_status env opts (conn # rest) (of_nat j)) w =
      let_time_pass k (agent_run R lib L show_status env opts rest (of_nat (Suc j))) w'"
    "length (queued (eview (ag_events w'))) = Suc (length (queued (eview (ag_events w))))" "events_room eview m w'" "\<not> ag_shutdown w'"
proof -
  let ?e = "''connect to '' @ opt_server opts @ '': '' @ e" and ?d = "reconnect_delay (of_nat j :: u32)"
  obtain q where q: "run (emit R (Disconnected ?e)) w = Finished (w\<lparr>ag_events := q\<rparr>) ()"
    "queued (eview q) = queued (eview (ag_events w)) @ [Disconnected ?e]" "events_room eview m (w\<lparr>ag_events := q\<rparr>)"
    by (rule run_emit [OF assms(5)])
  have sat: "u32_saturating (unat (of_nat j :: u32) + 1) = of_nat (Suc j)"
    using assms(2,3) by (simp add: u32_saturating_def unat_of_nat)
  define att :: u32 where "att = of_nat (Suc j)"
  have "after_session opts (of_nat j) (Err (Transient ?e)) = RetryAfter ?d att"
    using assms(1-3) sat unfolding att_def by (simp add: after_session_def Let_def word_le_nat_alt unat_of_nat)
  then have same: "run (agent_run R lib L show_status env opts (conn # rest) (of_nat j)) w =
      run (call (sleep_or_shutdown ?d) (\<lambda>woken. if woken then agent_run R lib L show_status env opts rest att
        else Return (Ok ()))) (w\<lparr>ag_events := q\<rparr>)"
    using assms(4,6) q(1) by (simp add: run_call agent_session_def)
  have d: "0 < ?d" "?d \<le> 30000" by (simp_all add: reconnect_delay_eq)
  have up: "\<not> ag_shutdown (w\<lparr>ag_events := q\<rparr>)" using assms(4) by simp
  have "let_time_pass (Suc k) (agent_run R lib L show_status env opts (conn # rest) (of_nat j)) w =
      let_time_pass k (agent_run R lib L show_status env opts rest att) (w\<lparr>ag_events := q, ag_clock := ag_clock w + 30000\<rparr>)"
    by (subst let_time_pass_cong [OF same], subst pass_sleep [OF up d]) simp
  then show ?thesis
    by (rule that [unfolded att_def [symmetric]]) (use q(2,3) up in \<open>simp_all add: events_room_def\<close>)
qed

lemma agent_run_unreachable:
  assumes "opt_max_retries opts = of_nat n" "0 < n" "n < 2 ^ 32" "j \<le> n" "\<not> ag_shutdown w" "events_room eview (Suc (n - j)) w"
    "\<forall>conn \<in> set conns. \<exists>e. cn_connect conn = Err e" "length conns = Suc (n - j)"
  shows "\<exists>w'. let_time_pass (n - j) (agent_run R lib L show_status env opts conns (of_nat j)) w =
      Finished w' (Err (''giving up after '' @ show_nat n @ '' reconnect attempts'')) \<and>
    length (queued (eview (ag_events w'))) = length (queued (eview (ag_events w))) + Suc (n - j)"
  using assms(4-8)
proof (induction "n - j" arbitrary: j w conns)
  case 0
  then have j: "j = n" by simp
  from 0 obtain conn where conns: "conns = [conn]" by (cases conns) auto
  then obtain e where e: "cn_connect conn = Err e" using 0 by auto
  let ?e = "''connect to '' @ opt_server opts @ '': '' @ e"
  obtain q where q: "run (emit R (Disconnected ?e)) w = Finished (w\<lparr>ag_events := q\<rparr>) ()"
    "queued (eview q) = queued (eview (ag_events w)) @ [Disconnected ?e]"
    by (rule run_emit [OF 0(4)])
  have "after_session opts (of_nat n) (Err (Transient ?e)) = GiveUp (of_nat n)"
    using assms(1-3) by (simp add: after_session_def Let_def word_gt_0 of_nat_eq_0_iff word_less_nat_alt unat_of_nat)
  then show ?case
    using 0(3) q e assms(1,3) by (simp add: j conns run_call agent_session_def unat_of_nat)
next
  case (Suc k)
  then have j: "j < n" "n - Suc j = k" by simp_all
  from Suc obtain conn rest where conns: "conns = conn # rest" "length rest = Suc k" by (cases conns) auto
  then obtain e where e: "cn_connect conn = Err e" using Suc by auto
  have room: "events_room eview (Suc (Suc k)) w" using Suc(5) Suc(2) by simp
  obtain w1 where w1: "let_time_pass (Suc k) (agent_run R lib L show_status env opts conns (of_nat j)) w =
      let_time_pass k (agent_run R lib L show_status env opts rest (of_nat (Suc j))) w1"
    "length (queued (eview (ag_events w1))) = Suc (length (queued (eview (ag_events w))))" "events_room eview (Suc k) w1" "\<not> ag_shutdown w1"
    unfolding conns(1) by (rule agent_run_retries [OF assms(1,3) j(1) Suc(4) room e])
  obtain w' where "let_time_pass k (agent_run R lib L show_status env opts rest (of_nat (Suc j))) w1 =
      Finished w' (Err (''giving up after '' @ show_nat n @ '' reconnect attempts''))"
    "length (queued (eview (ag_events w'))) = length (queued (eview (ag_events w1))) + Suc k"
    using Suc(1) [of "Suc j" w1 rest] j Suc(6) conns w1(3,4) by auto
  then show ?case using w1(1,2) by (intro exI [of _ w']) (simp flip: Suc(2))
qed

end

text \<open>C22. An agent with a retry limit ends. When the edge cannot be reached and nobody stops the agent, the
  reconnect loop with a limit of \<open>n\<close> retries makes exactly \<open>n + 1\<close> attempts, reports each of them, waits at most
  half a minute after each but the last, and then returns the error that says so; it neither ends earlier nor goes on.\<close>

theorem agent_gives_up:
  assumes "agent_services R sview oview bview eview" "opt_max_retries opts = of_nat n" "0 < n" "n < 2 ^ 32"
    and "\<not> ag_shutdown w" "events_room eview (Suc n) w" "length conns = Suc n"
    and "\<forall>conn \<in> set conns. \<exists>e. cn_connect conn = Err e"
  shows "\<exists>w'. let_time_pass n (agent_run R lib L show_status env opts conns 0) w =
      Finished w' (Err (''giving up after '' @ show_nat n @ '' reconnect attempts'')) \<and>
    length (queued (eview (ag_events w'))) = length (queued (eview (ag_events w))) + Suc n"
  using agent_services.agent_run_unreachable [OF assms(1-4), of 0 w conns] assms(5-8) by simp

definition stranded_agent ::
    "(sem_view, client_frame chan_view, local_frame chan_view, agent_event chan_view) agent" where
  "stranded_agent = \<lparr>ag_ctxs = [], ag_events = chan_new ref_chan 64, ag_shutdown = False, ag_clock = 0\<rparr>"

definition sample_env :: process_env where
  "sample_env = \<lparr>env_os = ''linux'', env_arch = ''x86_64'', env_hostname = None, env_computername = None\<rparr>"

definition refused_connection :: connection where
  "refused_connection = \<lparr>cn_connect = Err ''refused'', cn_rpc = Ok (), cn_inbound = []\<rparr>"

theorem agent_gives_up_witness:
  "\<exists>w'. let_time_pass 2 (agent_run ref_agent_runtime ref_http ref_lib status_message sample_env (sample_options\<lparr>opt_max_retries := 2\<rparr>)
      [refused_connection, refused_connection, refused_connection] 0) stranded_agent =
      Finished w' (Err ''giving up after 2 reconnect attempts'') \<and> length (queued (ag_events w')) = 3"
proof -
  have "show_nat 2 = ''2''" by code_simp
  then show ?thesis
    using agent_gives_up [OF ref_ar.agent_services_axioms, of "sample_options\<lparr>opt_max_retries := 2\<rparr>" 2 stranded_agent
        "[refused_connection, refused_connection, refused_connection]" ref_http ref_lib status_message sample_env]
    by (simp add: stranded_agent_def events_room_def ref_chan_def refused_connection_def)
qed

end
