(* ===== verification/Agent_Requests.thy ===== *)
theory Agent_Requests
  imports Agent_Properties
begin

text \<open>
  What an agent asks the edge for. It opens its tunnel when it is welcomed and at no other time: whatever else arrives, and
  however the tasks of the session interleave, no other request for a tunnel gets into the queue.
\<close>

section \<open>A session of the agent\<close>

definition has_ctx :: "nat \<Rightarrow> ('m, 'qo, 'qb, 'e) agent \<Rightarrow> bool" where
  "has_ctx i w \<longleftrightarrow> i < length (ag_ctxs w)"

lemma has_ctx_set [simp]: "has_ctx j (set_ctx i c w) = has_ctx j w"
  by (simp add: has_ctx_def set_ctx_def)

lemma ctx_at_set [simp]: "has_ctx i w \<Longrightarrow> ctx_at i (set_ctx i c w) = c"
  by (simp add: has_ctx_def ctx_at_def set_ctx_def)

lemma set_ctx_set [simp]: "set_ctx i c (set_ctx i c' w) = set_ctx i c w"
  by (simp add: set_ctx_def)

lemma set_ctx_at [simp]: "set_ctx i (ctx_at i w) w = w"
  by (simp add: ctx_at_def set_ctx_def)

lemma run_on_ctx:
  "has_ctx i w \<Longrightarrow> run (on_ctx i m) w =
     (case run m (ctx_at i w) of
        Finished c x \<Rightarrow> Finished (set_ctx i c w) x
      | Blocked c t \<Rightarrow> Blocked (set_ctx i c w) (on_ctx i t)
      | Panicked c e \<Rightarrow> Panicked (set_ctx i c w) e
      | Halted c \<Rightarrow> Halted (set_ctx i c w))"
  unfolding on_ctx_def by (rule run_zoom [where ok = "has_ctx i"]) simp_all

lemma keeps_zoom:
  assumes "keeps I m" "\<And>s w. ok w \<Longrightarrow> ok (put s w) \<and> get (put s w) = s"
  shows "keeps (\<lambda>w. ok w \<and> I (get w)) (zoom get put m)"
  using assms(1)
proof (induction rule: keeps.induct)
  case (Step f)
  show ?case
    unfolding zoom.simps
  proof (rule keeps.Step)
    fix w w' t
    assume w: "ok w \<and> I (get w)" and "map_option (map_prod (\<lambda>s. put s w) (zoom get put)) (f (get w)) = Some (w', t)"
    then obtain s t' where "f (get w) = Some (s, t')" "w' = put s w" "t = zoom get put t'" by auto
    with Step w assms(2) show "(ok w' \<and> I (get w')) \<and> keeps (\<lambda>w. ok w \<and> I (get w)) t" by auto
  qed
qed (auto intro: keeps.Spawn)

section \<open>Tasks that ask for no tunnel\<close>

definition asks_nothing :: "('qo \<Rightarrow> client_frame chan_view) \<Rightarrow> ('m, 'qo, 'qb) session_ctx \<Rightarrow> bool" where
  "asks_nothing oview c \<longleftrightarrow> (\<forall>req. Some (COpenTunnel req) \<notin> set (queued (oview (ctx_outbound c))))"

definition asks_nothing_at :: "('qo \<Rightarrow> client_frame chan_view) \<Rightarrow> nat \<Rightarrow> ('m, 'qo, 'qb, 'e) agent \<Rightarrow> bool" where
  "asks_nothing_at oview i w \<longleftrightarrow> has_ctx i w \<and> asks_nothing oview (ctx_at i w)"

text \<open>The transport takes the next frame from the queue.\<close>

definition take_frame :: "('m, 'qo, 'qb, 'e) agent_runtime \<Rightarrow> (('m, 'qo, 'qb) session_ctx, unit) task" where
  "take_frame R = await (\<lambda>c. map_option (\<lambda>(q, _). (c\<lparr>ctx_outbound := q\<rparr>, ())) (chan_recv (ar_out R) (ctx_outbound c)))"

named_theorems quiet_intros \<open>tasks of a session that ask for no tunnel\<close>

lemma asks_nothing_set_state [simp]: "asks_nothing oview (set_state a f c) = asks_nothing oview c"
  by (simp add: asks_nothing_def set_state_def)

context agent_services
begin

abbreviation "quiet \<equiv> keeps (asks_nothing oview)"

lemma quiet_ctx_send [quiet_intros]:
  assumes "\<forall>req. payload \<noteq> COpenTunnel req"
  shows "quiet (ctx_send R payload)"
  unfolding ctx_send_def
proof (rule keeps_await, goal_cases)
  case (1 c c' x)
  show ?case
  proof (cases "chan_send (ar_out R) (ctx_outbound c) (Some payload)")
    case (Ready q)
    then have "queued (oview q) = queued (oview (ctx_outbound c)) @ [Some payload]" using out.send_Ready by force
    then show ?thesis using 1 Ready assms by (auto simp: asks_nothing_def)
  qed (use 1 in auto)
qed

lemma quiet_set_state [quiet_intros]: "quiet (update (set_state a f))"
  by (rule keeps_update) simp

lemma quiet_take_frame [quiet_intros]: "quiet (take_frame R)"
  unfolding take_frame_def
proof (rule keeps_await, goal_cases)
  case (1 c c' x)
  then obtain q item where q: "chan_recv (ar_out R) (ctx_outbound c) = Some (q, item)" "c' = c\<lparr>ctx_outbound := q\<rparr>" by auto
  have "set (queued (oview q)) \<subseteq> set (queued (oview (ctx_outbound c)))"
  proof (cases "queued (oview (ctx_outbound c))")
    case Nil
    then show ?thesis using q(1) out.recv_end [of "ctx_outbound c"] out.recv_waits [of "ctx_outbound c"]
      by (cases "senders (oview (ctx_outbound c))") auto
  next
    case (Cons f fs)
    then show ?thesis using q(1) out.recv_item [of "ctx_outbound c" f fs] by auto
  qed
  then show ?case using 1(1) q(2) by (auto simp: asks_nothing_def)
qed

lemma quiet_streams [quiet_intros]:
  "quiet (drop_stream R sid)" "quiet (close_request_body R sid)" "quiet (register_stream R req)" "quiet (draw_credit R a n)"
  "quiet (call_local_service a request)" "quiet (drop_local_receiver R a)" "quiet (body_sender R sid)" "quiet (local_send R tx frame)"
  "quiet (drop_local_sender R tx)" "quiet (on_window R upd)"
  unfolding drop_stream_def close_request_body_def register_stream_def draw_credit_def call_local_service_def drop_local_receiver_def
    body_sender_def local_send_def drop_local_sender_def on_window_def
  by (auto intro!: keeps_update keeps_atomically keeps_await keeps_access keeps_call simp: Let_def asks_nothing_def set_state_def
      split: option.splits poll.splits prod.splits if_splits)

lemma quiet_agent_reset [quiet_intros]: "quiet (agent_reset R sid code message)"
  unfolding agent_reset_def by (intro keeps_call quiet_intros keeps.Return) simp

lemma quiet_send_frames [quiet_intros]: "quiet (send_frames R a sid cs)"
  by (induction cs) (auto intro!: keeps_call quiet_intros)

lemma quiet_relay_body [quiet_intros]: "quiet (relay_body R a sid trailers frames)"
  by (induction frames arbitrary: trailers)
    (auto intro!: keeps_call quiet_intros simp: send_payload_frames split: result.split body_frame.split)

lemma quiet_serve_stream [quiet_intros]: "quiet (serve_stream R lib L a req)"
  unfolding serve_stream_def Let_def by (auto intro!: keeps_call keeps_read quiet_intros split: option.split result.split)

lemma quiet_on_data [quiet_intros]: "quiet (on_data R data)"
  unfolding on_data_def by (auto intro!: keeps_call quiet_intros split: option.split)

text \<open>The agent as a whole: the context of one session, while frames other than a welcome arrive.\<close>

lemma quiet_on_ctx: "quiet m \<Longrightarrow> keeps (asks_nothing_at oview i) (on_ctx i m)"
  unfolding on_ctx_def asks_nothing_at_def by (rule keeps_zoom) simp_all

lemma quiet_emit: "keeps (asks_nothing_at oview i) (emit R event)"
  unfolding emit_def by (rule keeps_await) (auto simp: asks_nothing_at_def has_ctx_def ctx_at_def split: poll.splits)

lemma quiet_frame:
  assumes "\<forall>w. payload \<noteq> SWelcome w"
  shows "keeps (asks_nothing_at oview i) (handle_server_frame R lib L i now payload)"
  using assms unfolding handle_server_frame_def
  by (cases payload) (auto intro!: keeps_call keeps_spawn quiet_emit quiet_on_ctx quiet_intros)

lemma quiet_loop:
  assumes "\<forall>w now. (InFrame (Some (SWelcome w)), now) \<notin> set items"
  shows "keeps (asks_nothing_at oview i) (agent_loop R lib L show_status i items)"
  using assms
proof (induction items)
  case (Cons item items)
  then have rest: "keeps (asks_nothing_at oview i) (agent_loop R lib L show_status i items)" by simp
  obtain input now where item: "item = (input, now)" by force
  show ?case
  proof (cases input)
    case (InFrame frame)
    then show ?thesis
      using Cons.prems rest by (cases frame) (auto simp: item intro!: keeps_call quiet_frame)
  next
    case InShutdown
    then show ?thesis by (auto simp: item intro!: keeps_await split: if_splits)
  qed (simp add: item)
qed simp

lemma asks_never_again:
  assumes "pool_step\<^sup>*\<^sup>* (w, call (agent_loop R lib L show_status i items) (\<lambda>_. Return ()) # replicate n (on_ctx i (take_frame R))) (w', ts)"
    and "asks_nothing_at oview i w" "\<forall>v now. (InFrame (Some (SWelcome v)), now) \<notin> set items"
  shows "asks_nothing_at oview i w'"
  by (rule pool_keeps [where I = "asks_nothing_at oview i", OF assms(1,2)]) (auto intro!: keeps_call quiet_loop [OF assms(3)] quiet_on_ctx quiet_intros)

end

end
