(* ===== verification/Credit_Agent.thy ===== *)
theory Credit_Agent
  imports Credit_Edge Agent_Requests
begin

text \<open>
  The agent's side of the accounts of one stream: an Open frame brings the right to register the stream, which becomes
  its credit; data frames and window updates bring and take the coins of either direction.
\<close>

section \<open>The coins of a session context\<close>

definition agent_fits :: "u64 \<Rightarrow> nat option \<Rightarrow> ('m, 'qo, 'qb) session_ctx \<Rightarrow> bool" where
  "agent_fits sid b c \<longleftrightarrow> (\<forall>x y. ctx_streams c x = Some y \<longrightarrow> y < length (ctx_heap c)) \<and>
     (case b of None \<Rightarrow> ctx_streams c sid = None
      | Some y \<Rightarrow> y < length (ctx_heap c) \<and> (ctx_streams c sid = None \<or> ctx_streams c sid = Some y) \<and> (\<forall>x. x \<noteq> sid \<longrightarrow> ctx_streams c x \<noteq> Some y))"

definition agent_cell :: "('m \<Rightarrow> sem_view) \<Rightarrow> nat option \<Rightarrow> ('m, 'qo, 'qb) session_ctx \<Rightarrow> coin multiset" where
  "agent_cell sview b c = add_mset (AgentCell b) (case b of None \<Rightarrow> {#} | Some y \<Rightarrow> replicate_mset (state_credit sview y c) DownByte)"

definition agent_coins ::
    "('m \<Rightarrow> sem_view) \<Rightarrow> ('qo \<Rightarrow> client_frame chan_view) \<Rightarrow> u64 \<Rightarrow> nat option \<Rightarrow> ('m, 'qo, 'qb) session_ctx \<Rightarrow> coin multiset" where
  "agent_coins sview oview sid b c = agent_cell sview b c + sum_list (map (up_coins sid) (queued (oview (ctx_outbound c))))"

definition agent_ledger ::
    "('m \<Rightarrow> sem_view) \<Rightarrow> ('qo \<Rightarrow> client_frame chan_view) \<Rightarrow> u64 \<Rightarrow> u32 \<Rightarrow> coin multiset \<Rightarrow> ('m, 'qo, 'qb) session_ctx \<Rightarrow> bool" where
  "agent_ledger sview oview sid window M c \<longleftrightarrow> (\<exists>b. agent_fits sid b c \<and> budget (unat window) (agent_coins sview oview sid b c + M))"

lemma agent_ledger_drop: "agent_ledger sview oview sid window (X + M) c \<Longrightarrow> loose X \<Longrightarrow> agent_ledger sview oview sid window M c"
  unfolding agent_ledger_def union_lcomm [of _ X M] using budget_drop by blast

lemma agent_fits_fields [simp]:
  "agent_fits sid b (c\<lparr>ctx_outbound := q\<rparr>) = agent_fits sid b c" "agent_fits sid b (set_state a f c) = agent_fits sid b c"
  by (simp_all add: agent_fits_def split: option.split)

lemma agent_ledger_frame:
  assumes "agent_ledger sview oview sid window M c" "\<And>b. agent_fits sid b c \<Longrightarrow> agent_fits sid b c'" "ctx_outbound c' = ctx_outbound c"
    "\<And>y. state_credit sview y c' = state_credit sview y c"
  shows "agent_ledger sview oview sid window M c'"
proof -
  have "agent_coins sview oview sid b c' = agent_coins sview oview sid b c" for b
    using assms(3,4) by (simp add: agent_coins_def agent_cell_def cong: option.case_cong)
  with assms(1,2) show ?thesis by (auto simp: agent_ledger_def)
qed

lemma agent_ledger_send:
  assumes "agent_ledger sview oview sid window (up_coins sid frame + M) c" "queued (oview q) = queued (oview (ctx_outbound c)) @ [frame]"
  shows "agent_ledger sview oview sid window M (c\<lparr>ctx_outbound := q\<rparr>)"
proof -
  have "agent_coins sview oview sid b (c\<lparr>ctx_outbound := q\<rparr>) = agent_coins sview oview sid b c + up_coins sid frame" for b
    using assms(2) by (simp add: agent_coins_def agent_cell_def state_credit_def ac_simps split: option.split)
  with assms(1) show ?thesis by (simp add: agent_ledger_def add.assoc)
qed

lemma agent_ledger_take:
  assumes "agent_ledger sview oview sid window M c" "queued (oview (ctx_outbound c)) = frame # queued (oview q)"
  shows "agent_ledger sview oview sid window (up_coins sid frame + M) (c\<lparr>ctx_outbound := q\<rparr>)"
proof -
  have "agent_coins sview oview sid b (c\<lparr>ctx_outbound := q\<rparr>) + up_coins sid frame = agent_coins sview oview sid b c" for b
    using assms(2) by (simp add: agent_coins_def agent_cell_def state_credit_def ac_simps split: option.split)
  then show ?thesis using assms(1) by (simp add: agent_ledger_def flip: add.assoc)
qed

text \<open>Credit is drawn and comes back.\<close>

lemma agent_ref_known:
  assumes "budget W (agent_coins sview oview sid b c + M)" "AgentRef a \<in># M"
  shows "b = Some a"
proof -
  have "AgentCell (Some a) \<in># agent_coins sview oview sid b c + M" using assms unfolding budget_def by (meson union_iff)
  moreover have "AgentCell b \<in># agent_coins sview oview sid b c + M" by (simp add: agent_coins_def agent_cell_def)
  ultimately show ?thesis using assms(1) unfolding budget_def by metis
qed

lemma agent_coins_credit:
  assumes "b = Some a" "agent_fits sid b c"
  shows "agent_coins sview oview sid b (set_state a (\<lambda>st. st\<lparr>ss_credit := m\<rparr>) c) + replicate_mset (state_credit sview a c) DownByte =
    agent_coins sview oview sid b c + replicate_mset (permits (sview m)) DownByte"
proof -
  have "state_credit sview a (set_state a (\<lambda>st. st\<lparr>ss_credit := m\<rparr>) c) = permits (sview m)"
    using assms by (simp add: state_credit_def agent_fits_def)
  then show ?thesis using assms(1) by (simp add: agent_coins_def agent_cell_def ac_simps)
qed

lemma agent_coins_other: "b \<noteq> Some a \<Longrightarrow> agent_coins sview oview sid b (set_state a f c) = agent_coins sview oview sid b c"
  by (cases b) (auto simp: agent_coins_def agent_cell_def state_credit_def)

lemma agent_ledger_draw:
  assumes "agent_ledger sview oview sid window ({#AgentRef a#} + M) c" "permits (sview m) + n = state_credit sview a c"
  shows "agent_ledger sview oview sid window ({#AgentRef a#} + replicate_mset n DownByte + M) (set_state a (\<lambda>st. st\<lparr>ss_credit := m\<rparr>) c)"
proof -
  let ?c = "set_state a (\<lambda>st. st\<lparr>ss_credit := m\<rparr>) c"
  obtain b where b: "agent_fits sid b c" "budget (unat window) (agent_coins sview oview sid b c + ({#AgentRef a#} + M))"
    using assms(1) by (auto simp: agent_ledger_def)
  have "b = Some a" using agent_ref_known [OF b(2), of a] by simp
  then have "agent_coins sview oview sid b ?c + replicate_mset n DownByte = agent_coins sview oview sid b c"
    using agent_coins_credit [of b a sid c sview oview m] b(1) assms(2) [symmetric] by (simp add: replicate_mset_add ac_simps)
  then have "agent_coins sview oview sid b ?c + ({#AgentRef a#} + replicate_mset n DownByte + M) = agent_coins sview oview sid b c + ({#AgentRef a#} + M)"
    by (metis add.assoc add.left_commute)
  with b show ?thesis unfolding agent_ledger_def by (metis agent_fits_fields(2))
qed

lemma agent_ledger_waste:
  assumes "agent_ledger sview oview sid window M c" "permits (sview m) + n = state_credit sview a c"
  shows "agent_ledger sview oview sid window M (set_state a (\<lambda>st. st\<lparr>ss_credit := m\<rparr>) c)"
proof -
  let ?c = "set_state a (\<lambda>st. st\<lparr>ss_credit := m\<rparr>) c"
  obtain b where b: "agent_fits sid b c" "budget (unat window) (agent_coins sview oview sid b c + M)"
    using assms(1) by (auto simp: agent_ledger_def)
  have "budget (unat window) (agent_coins sview oview sid b ?c + M)"
  proof (cases "b = Some a")
    case True
    then have "agent_coins sview oview sid b c + M = replicate_mset n DownByte + (agent_coins sview oview sid b ?c + M)"
      using agent_coins_credit [of b a sid c sview oview m] b(1) assms(2) [symmetric] by (simp add: replicate_mset_add ac_simps)
    with b(2) have "budget (unat window) (replicate_mset n DownByte + (agent_coins sview oview sid b ?c + M))" by metis
    then show ?thesis by (rule budget_drop) simp
  qed (use b in \<open>simp add: agent_coins_other\<close>)
  with b(1) show ?thesis unfolding agent_ledger_def by auto
qed

lemma agent_ledger_grant:
  assumes "agent_ledger sview oview sid window (grant_coins DownByte sid x n + M) c" "ctx_streams c x = Some a"
    and "permits (sview m) = state_credit sview a c + n"
  shows "agent_ledger sview oview sid window M (set_state a (\<lambda>st. st\<lparr>ss_credit := m\<rparr>) c)"
proof -
  let ?c = "set_state a (\<lambda>st. st\<lparr>ss_credit := m\<rparr>) c"
  obtain b where b: "agent_fits sid b c" "budget (unat window) (agent_coins sview oview sid b c + (grant_coins DownByte sid x n + M))"
    using assms(1) by (auto simp: agent_ledger_def)
  have "budget (unat window) (agent_coins sview oview sid b ?c + M)"
  proof (cases "x = sid")
    case True
    then have "b = Some a" using assms(2) b(1) by (auto simp: agent_fits_def split: option.splits)
    then have "agent_coins sview oview sid b ?c = agent_coins sview oview sid b c + replicate_mset n DownByte"
      using agent_coins_credit [of b a sid c sview oview m] b(1) assms(3) by (simp add: replicate_mset_add ac_simps)
    with b(2) True show ?thesis by (simp add: grant_coins_def ac_simps)
  next
    case False
    then have "b \<noteq> Some a" using assms(2) b(1) by (auto simp: agent_fits_def)
    with b(2) False show ?thesis by (simp add: agent_coins_other grant_coins_def)
  qed
  with b(1) show ?thesis unfolding agent_ledger_def by auto
qed

text \<open>An Open frame is turned into a registered stream.\<close>

definition download_ref :: "u64 \<Rightarrow> u64 \<Rightarrow> nat \<Rightarrow> coin multiset" where
  "download_ref sid x a = (if x = sid then {#AgentRef a#} else {#})"

lemma loose_download_ref [simp]: "loose (download_ref sid x a)"
  by (simp add: download_ref_def)

lemma budget_register:
  assumes "budget W (add_mset (AgentCell None) (add_mset Unserved X))"
  shows "budget W (add_mset (AgentCell (Some k)) (replicate_mset W DownByte + add_mset (AgentRef k) X))"
proof -
  have "AgentCell b \<notin># X" for b
  proof (cases b)
    case None
    have "count (add_mset (AgentCell None) (add_mset Unserved X)) (AgentCell None) \<le> 1" using assms unfolding budget_def by blast
    with None show ?thesis by (simp add: not_in_iff)
  qed (use assms in \<open>auto simp: budget_def\<close>)
  moreover have "DownByte \<notin># X" "Unserved \<notin># X" "Unopened \<notin># X" "Forged \<notin># X" "count X Number < 2 ^ 64" "AgentRef x \<notin># X" for x
    using assms calculation by (auto simp: budget_def not_in_iff)
  moreover from calculation have "count X DownByte = 0" "count X Unserved = 0" "count X Unopened = 0" "count X (AgentCell b) = 0" for b
    by (simp_all add: count_eq_zero_iff)
  moreover have "count X UpByte \<le> W" "EdgeCell b \<in># X \<Longrightarrow> EdgeCell b' \<in># X \<Longrightarrow> b = b'" "count X (EdgeCell b) \<le> 1"
    "EdgeRef x \<in># X \<Longrightarrow> EdgeCell (Some x) \<in># X" for x b b'
    using assms by (auto simp: budget_def split: if_splits)
  ultimately show ?thesis by (auto simp: budget_def)
qed

lemma agent_ledger_register:
  assumes "agent_ledger sview oview sid window (down_coins sid window (Some (SOpen req)) + M) c"
    and "permits (sview (ss_credit st)) = unat (so_initial_window req)"
  shows "agent_ledger sview oview sid window (download_ref sid (so_stream_id req) (length (ctx_heap c)) + M)
    (c\<lparr>ctx_heap := ctx_heap c @ [st], ctx_streams := (ctx_streams c)(so_stream_id req \<mapsto> length (ctx_heap c))\<rparr>)" (is "agent_ledger _ _ _ _ _ ?c")
proof -
  let ?k = "length (ctx_heap c)" and ?x = "so_stream_id req"
  obtain b where b: "agent_fits sid b c" "budget (unat window) (agent_coins sview oview sid b c + (down_coins sid window (Some (SOpen req)) + M))"
    using assms(1) by (auto simp: agent_ledger_def)
  show ?thesis
  proof (cases "?x = sid")
    case True
    have w: "so_initial_window req = window" using b(2) True by (auto simp: budget_def down_coins_def split: if_splits)
    have "AgentCell b \<in># agent_coins sview oview sid b c + (down_coins sid window (Some (SOpen req)) + M)" by (simp add: agent_coins_def agent_cell_def)
    then have "b = None" using b(2) True w by (auto simp: budget_def down_coins_def)
    have fits: "agent_fits sid (Some ?k) ?c" using b(1) by (auto simp: agent_fits_def True less_Suc_eq split: if_splits)
    let ?X = "sum_list (map (up_coins sid) (queued (oview (ctx_outbound c)))) + M"
    have "agent_coins sview oview sid b c + (down_coins sid window (Some (SOpen req)) + M) = add_mset (AgentCell None) (add_mset Unserved ?X)"
      by (simp add: agent_coins_def agent_cell_def \<open>b = None\<close> down_coins_def True w)
    moreover have "agent_coins sview oview sid (Some ?k) ?c + (download_ref sid ?x ?k + M) =
        add_mset (AgentCell (Some ?k)) (replicate_mset (unat window) DownByte + add_mset (AgentRef ?k) ?X)"
      using assms(2) w by (simp add: agent_coins_def agent_cell_def state_credit_def download_ref_def True)
    ultimately have "budget (unat window) (agent_coins sview oview sid (Some ?k) ?c + (download_ref sid ?x ?k + M))"
      using b(2) budget_register by metis
    with fits show ?thesis unfolding agent_ledger_def by blast
  next
    case False
    have y: "y < ?k" if "b = Some y" for y using b(1) that by (simp add: agent_fits_def)
    then have "agent_coins sview oview sid b ?c = agent_coins sview oview sid b c"
      by (auto simp: agent_coins_def agent_cell_def state_credit_def nth_append split: option.split)
    moreover have "agent_fits sid b ?c" using b(1) False by (auto simp: agent_fits_def less_Suc_eq split: option.splits if_splits)
    moreover have "down_coins sid window (Some (SOpen req)) = {#}" using False by (simp add: down_coins_def)
    ultimately show ?thesis using b(2) False unfolding agent_ledger_def download_ref_def by auto
  qed
qed

section \<open>Every task of a session context accounts for its coins\<close>

context agent_services
begin

abbreviation "accts \<equiv> agent_ledger sview oview"

lemma spare_coins: "loose X \<Longrightarrow> settled (accts sid window) r t \<Longrightarrow> settled (accts sid window) (X + r) t"
  by (rule accounts.Exchange [of _ _ r]) (simp_all add: agent_ledger_drop add.assoc)

lemma accts_set_state:
  assumes "accts sid window M c" "\<And>st. permits (sview (ss_credit (f st))) = permits (sview (ss_credit st))"
  shows "accts sid window M (set_state a f c)"
proof (rule agent_ledger_frame [OF assms(1)])
  show "state_credit sview y (set_state a f c) = state_credit sview y c" for y
    using assms(2) by (cases "a < length (ctx_heap c)") (auto simp: state_credit_def set_state_def nth_list_update list_update_beyond)
qed simp_all

lemma coins_set_state:
  "(\<And>st. permits (sview (ss_credit (f st))) = permits (sview (ss_credit st))) \<Longrightarrow> neutral (accts sid window) (update (set_state a f))"
  by (rule neutral_update) (rule accts_set_state)

lemma coins_ctx_send:
  assumes "up_coins sid (Some payload) = X"
  shows "accounts (accts sid window) (X + r) (ctx_send R payload) (\<lambda>_. r)"
  unfolding ctx_send_def
proof (rule accounts_await, goal_cases)
  case (1 c c' sent F)
  show ?case
  proof (cases "chan_send (ar_out R) (ctx_outbound c) (Some payload)")
    case (Ready q)
    then have "queued (oview q) = queued (oview (ctx_outbound c)) @ [Some payload]" using out.send_Ready by simp
    with 1 Ready assms show ?thesis by (auto simp: add.assoc intro: agent_ledger_send)
  next
    case Gone
    with 1 assms show ?thesis by (auto simp: add.assoc intro: agent_ledger_drop)
  qed (use 1 in simp)
qed

lemma coins_plain_ctx_send [neutral_intros]: "up_coins sid (Some payload) = {#} \<Longrightarrow> neutral (accts sid window) (ctx_send R payload)"
  using coins_ctx_send [where X = "{#}"] by (simp add: neutral_def)

lemma coins_drop_stream [neutral_intros]: "neutral (accts sid window) (drop_stream R x)"
  unfolding drop_stream_def
proof (rule neutral_update, goal_cases)
  case (1 c M)
  show ?case
  proof (cases "ctx_streams c x")
    case (Some a)
    let ?f = "\<lambda>st. drop_body_tx R (st\<lparr>ss_credit := sem_close (ar_sem R) (ss_credit st)\<rparr>)"
    have "accts sid window M (set_state a ?f c)" by (rule accts_set_state [OF 1]) (simp add: drop_body_tx_def sem.sem_close_law)
    then have "accts sid window M ((set_state a ?f c)\<lparr>ctx_streams := (ctx_streams c)(x := None)\<rparr>)"
      by (rule agent_ledger_frame) (auto simp: agent_fits_def state_credit_def split: option.splits)
    with Some show ?thesis by simp
  qed (use 1 in simp)
qed

lemma coins_agent_small [neutral_intros]:
  "neutral (accts sid window) (agent_reset R x code message)" "neutral (accts sid window) (close_request_body R x)"
  "neutral (accts sid window) (body_sender R x)" "neutral (accts sid window) (drop_local_sender R tx)"
  "neutral (accts sid window) (drop_local_receiver R a)" "neutral (accts sid window) (call_local_service a request)"
proof -
  show "neutral (accts sid window) (agent_reset R x code message)"
    unfolding agent_reset_def by (intro neutral_intros) simp
  show "neutral (accts sid window) (close_request_body R x)"
    unfolding close_request_body_def by (rule neutral_update) (auto split: option.split intro!: accts_set_state simp: drop_body_tx_def)
  show "neutral (accts sid window) (body_sender R x)"
    unfolding body_sender_def by (rule neutral_atomically) (auto split: option.split intro!: accts_set_state)
  show "neutral (accts sid window) (drop_local_sender R tx)"
    unfolding drop_local_sender_def by (cases tx) (auto intro!: coins_set_state neutral_intros)
  show "neutral (accts sid window) (drop_local_receiver R a)"
    unfolding drop_local_receiver_def by (rule coins_set_state) simp
  show "neutral (accts sid window) (call_local_service a request)"
    unfolding call_local_service_def by (intro neutral_call coins_set_state neutral_await) auto
qed

lemma coins_local_send [neutral_intros]: "neutral (accts sid window) (local_send R tx frame)"
proof -
  have "neutral (accts sid window) (await (\<lambda>c. case chan_send (ar_body R) (ss_body (ctx_heap c ! a)) frame of
         Ready q \<Rightarrow> Some (set_state a (\<lambda>st. st\<lparr>ss_body := q\<rparr>) c, True) | Gone \<Rightarrow> Some (c, False) | NotReady \<Rightarrow> None))" for a
    by (rule neutral_await) (auto split: poll.splits intro!: accts_set_state)
  then show ?thesis unfolding local_send_def by (cases tx) (auto intro!: neutral_intros)
qed


lemma coins_register_stream:
  "accounts (accts sid window) (down_coins sid window (Some (SOpen req))) (register_stream R req) (download_ref sid (so_stream_id req))"
  unfolding register_stream_def
proof (rule accounts_atomically, goal_cases)
  case (1 c F)
  let ?c1 = "case ctx_streams c (so_stream_id req) of None \<Rightarrow> c | Some b \<Rightarrow> set_state b (drop_body_tx R) c"
  have "unat (so_initial_window req) \<le> MAX_PERMITS"
    using unsigned_less [where ?'a = nat and w = "so_initial_window req"] by (simp add: MAX_PERMITS_def)
  then have "permits (sview (ss_credit (fresh_state R (so_initial_window req)))) = unat (so_initial_window req)"
    by (simp add: fresh_state_def sem.sem_new_law)
  moreover have "accts sid window (down_coins sid window (Some (SOpen req)) + F) ?c1"
    using 1 by (auto split: option.split intro!: accts_set_state simp: drop_body_tx_def)
  moreover have "length (ctx_heap ?c1) = length (ctx_heap c)" "ctx_streams ?c1 = ctx_streams c" by (simp_all split: option.split)
  ultimately show ?case using agent_ledger_register [of sview oview sid window req F ?c1] by (simp add: Let_def)
qed

lemma coins_draw_credit:
  "accounts (accts sid window) (download_ref sid x a) (draw_credit R a n)
     (\<lambda>ok. if ok then grant_coins DownByte sid x n + download_ref sid x a else {#})"
proof -
  have drawn: "permits (sview m) + n = state_credit sview a c" if "sem_acquire (ar_sem R) (ss_credit (ctx_heap c ! a)) n = Ready m" for c m
    using sem.acquire_Ready [OF that] by (simp add: state_credit_def)
  show ?thesis
  proof (cases "x = sid")
    case True
    then show ?thesis
      unfolding draw_credit_def
      by (intro accounts_await)
        (auto split: poll.splits simp: download_ref_def grant_coins_def
          intro: agent_ledger_draw [simplified] agent_ledger_drop [where X = "{#AgentRef a#}"] drawn)
  next
    case False
    then show ?thesis
      unfolding draw_credit_def
      by (intro accounts_await)
        (auto split: poll.splits simp: download_ref_def grant_coins_def intro: agent_ledger_waste drawn)
  qed
qed

lemma coins_ref_gone: "settled (accts sid window) {#} t \<Longrightarrow> settled (accts sid window) (download_ref sid x a) t"
  using spare_coins [of "download_ref sid x a" sid window "{#}" t] by simp

lemma coins_send_frames:
  "\<forall>d \<in> set ds. length d \<le> MAX_CHUNK \<Longrightarrow>
   accounts (accts sid window) (download_ref sid x a) (send_frames R a x ds) (\<lambda>ok. if ok then download_ref sid x a else {#})"
proof (induction ds)
  case Nil
  show ?case by (simp add: accounts_Return)
next
  case (Cons d ds)
  have len: "unat (u32_saturating (length d)) = length d" using Cons.prems by (simp add: unat_chunk_len)
  have failed: "accounts (accts sid window) (download_ref sid x a) (Return False) (\<lambda>ok. if ok then download_ref sid x a else {#})"
    by (rule accounts.Exchange [where r' = "{#}"]) (auto intro: accounts_Return agent_ledger_drop)
  have sent: "accounts (accts sid window) (grant_coins DownByte sid x (length d) + download_ref sid x a)
      (call (ctx_send R (CData \<lparr>sd_stream_id = x, sd_payload = d\<rparr>)) (\<lambda>sent. if \<not> sent then Return False else send_frames R a x ds))
      (\<lambda>ok. if ok then download_ref sid x a else {#})"
    using Cons failed by (intro accounts_call [OF coins_ctx_send]) auto
  show ?case
    unfolding send_frames.simps len
    by (rule accounts_call [OF coins_draw_credit]) (use sent in \<open>auto intro: accounts_Return\<close>)
qed

lemma settled_relay_body: "settled (accts sid window) (download_ref sid x a) (relay_body R a x trailers frames)"
proof (induction frames arbitrary: trailers)
  case Nil
  show ?case by (auto intro!: coins_ref_gone settled_neutral neutral_intros)
next
  case (Cons frame frames)
  have "accounts (accts sid window) (download_ref sid x a) (send_payload R a x d) (\<lambda>ok. if ok then download_ref sid x a else {#})" for d
    unfolding send_payload_frames by (rule coins_send_frames) (simp add: response_chunks_bounded)
  then have data: "settled (accts sid window) (download_ref sid x a)
      (call (send_payload R a x d) (\<lambda>ok. if \<not> ok then drop_stream R x else relay_body R a x trailers frames))" for d
    by (rule accounts_call) (auto intro: Cons.IH settled_neutral neutral_intros)
  have failed: "settled (accts sid window) (download_ref sid x a) (call (agent_reset R x ResetInternal m) (\<lambda>_. drop_stream R x))" for m
    by (auto intro!: coins_ref_gone settled_neutral neutral_intros)
  show ?case using data failed Cons.IH by (auto split: result.split body_frame.split)
qed

lemma settled_serve_stream: "settled (accts sid window) (download_ref sid (so_stream_id req) a) (serve_stream R lib L a req)"
proof -
  let ?ref = "download_ref sid (so_stream_id req) a"
  have refuse: "settled (accts sid window) ?ref (call (agent_reset R x code m) (\<lambda>_. drop_stream R x))" for x code m
    by (auto intro!: coins_ref_gone settled_neutral neutral_intros)
  have bad: "settled (accts sid window) ?ref (call (drop_local_receiver R a) (\<lambda>_. call (agent_reset R x code m) (\<lambda>_. drop_stream R x)))" for x code m
    by (auto intro!: coins_ref_gone settled_neutral neutral_intros)
  have headless: "settled (accts sid window) ?ref (call (agent_reset R x code m) (\<lambda>_. call (drop_stream R x) (\<lambda>_. drop_local_receiver R a)))" for x code m
    by (auto intro!: coins_ref_gone settled_neutral neutral_intros)
  have answered: "settled (accts sid window) ?ref (call (ctx_send R (CResponseHead head)) (\<lambda>sent.
      if \<not> sent then drop_stream R (so_stream_id req) else relay_body R a (so_stream_id req) [] body))" for head body
    by (rule accounts_call [OF neutralD]) (auto intro: neutral_intros coins_ref_gone settled_neutral settled_relay_body)
  show ?thesis
    unfolding serve_stream_def Let_def
    by (auto split: option.split result.split intro!: headless bad refuse answered
        accounts_call [OF neutralD [OF neutral_read]] accounts_call [OF neutralD [OF coins_agent_small(6)]])
qed

lemma settled_on_data: "settled (accts sid window) (down_coins sid window (Some (SData data))) (on_data R data)"
proof -
  let ?x = "sd_stream_id data" and ?n = "length (sd_payload data)"
  have coins: "down_coins sid window (Some (SData data)) = grant_coins UpByte sid ?x ?n" by (simp add: down_coins_def grant_coins_def)
  have "unat (u32_saturating ?n) \<le> ?n" by (simp add: unat_u32_saturating)
  then have split: "grant_coins UpByte sid ?x ?n =
      grant_coins UpByte sid ?x (?n - unat (u32_saturating ?n)) + (grant_coins UpByte sid ?x (unat (u32_saturating ?n)) + {#})"
    using grant_coins_split by simp
  have granted: "settled (accts sid window) (grant_coins UpByte sid ?x ?n)
      (call (ctx_send R (CWindowUpdate \<lparr>wu_stream_id = ?x, wu_increment = u32_saturating ?n\<rparr>)) (\<lambda>_. Return ()))"
    unfolding split by (intro spare_coins accounts_call [OF coins_ctx_send]) simp_all
  have refused: "settled (accts sid window) (grant_coins UpByte sid ?x ?n) (drop_stream R ?x)"
    by (auto intro!: spare_coins [where r = "{#}", simplified] settled_neutral neutral_intros)
  show ?thesis
    unfolding on_data_def coins
  proof (rule accounts_call [OF neutralD [OF coins_agent_small(3)]], goal_cases)
    case (1 sender)
    show ?case
    proof (cases sender)
      case None
      then show ?thesis by (auto intro: spare_coins [where r = "{#}", simplified])
    next
      case (Some tx)
      have "settled (accts sid window) {#} (drop_local_sender R tx)" by (rule settled_neutral [OF coins_agent_small(4)])
      with Some granted refused show ?thesis
        by (auto intro!: accounts_call [OF neutralD [OF coins_local_send]] settled_call)
    qed
  qed
qed

lemma settled_on_window: "settled (accts sid window) (down_coins sid window (Some (SWindowUpdate upd))) (on_window R upd)"
proof -
  let ?x = "wu_stream_id upd" and ?n = "unat (wu_increment upd)"
  have coins: "down_coins sid window (Some (SWindowUpdate upd)) = grant_coins DownByte sid ?x ?n" by (simp add: down_coins_def grant_coins_def)
  show ?thesis
    unfolding on_window_def coins
  proof (rule accounts_access, goal_cases)
    case (1 c c' u F)
    show ?case
    proof (cases "ctx_streams c ?x")
      case None
      with 1 show ?thesis by (auto intro: agent_ledger_drop)
    next
      case (Some a)
      with 1(2) obtain m where m: "sem_add (ar_sem R) (ss_credit (ctx_heap c ! a)) ?n = Some m"
        "c' = set_state a (\<lambda>st. st\<lparr>ss_credit := m\<rparr>) c" by (auto split: option.splits)
      have "permits (sview m) = state_credit sview a c + ?n" using sem.add_Some [OF m(1)] by (simp add: state_credit_def)
      with 1(1) Some m(2) show ?thesis by (auto intro: agent_ledger_grant)
    qed
  qed (simp add: agent_ledger_drop)
qed

end

end
