(* ===== verification/End_To_End.thy ===== *)
theory End_To_End
  imports Agent_Requests Ingress_Properties
begin

text \<open>
  The edge and the agent together: what one side queues is what the other side's read loop is given.
  A request body goes from the public client through the edge's upload and the agent's read loop into the
  body of the local request, and the credit it used comes back; a response goes from the local service through
  the agent's relay and the edge's read loop to the waiting request.
\<close>

section \<open>The agent reads what the edge queued\<close>

text \<open>What the transport makes of the edge's queue: the frames, each with the time it arrives at.\<close>

definition delivered :: "wall_clock \<Rightarrow> outbound_item list \<Rightarrow> (agent_input \<times> wall_clock) list" where
  "delivered now items = map (\<lambda>item. (case item of Ok frame \<Rightarrow> InFrame frame | Err status \<Rightarrow> InError status, now)) items"

lemma delivered_simps [simp]:
  "delivered now [] = []" "delivered now (x @ y) = delivered now x @ delivered now y"
  "delivered now (Ok frame # items) = (InFrame frame, now) # delivered now items"
  by (simp_all add: delivered_def)

context agent_services
begin

lemma run_loop_data:
  assumes "has_ctx i w" "run (for_each (\<lambda>d. on_data R \<lparr>sd_stream_id = sid, sd_payload = d\<rparr>) ds) (ctx_at i w) = Finished c' ()"
  shows "run (agent_loop R lib L show_status i (delivered now (map (data_frame sid) ds) @ items)) w =
    run (agent_loop R lib L show_status i items) (set_ctx i c' w)"
  using assms
proof (induction ds arbitrary: w)
  case (Cons d ds)
  from Cons.prems(2) obtain c1 where c1: "run (on_data R \<lparr>sd_stream_id = sid, sd_payload = d\<rparr>) (ctx_at i w) = Finished c1 ()"
    "run (for_each (\<lambda>d. on_data R \<lparr>sd_stream_id = sid, sd_payload = d\<rparr>) ds) c1 = Finished c' ()"
    by (auto simp: run_call split: outcome.splits)
  from Cons.IH [of "set_ctx i c1 w"] c1 Cons.prems(1) show ?case
    by (simp add: data_frame_def run_call handle_server_frame_def run_on_ctx)
qed auto

end

section \<open>The edge reads what the agent queued\<close>

definition received :: "entropy \<Rightarrow> client_frame list \<Rightarrow> inbound" where
  "received ent frames = map (\<lambda>frame. (Ok frame, ent)) frames"

lemma received_simps [simp]:
  "received ent [] = []" "received ent (frame # frames) = (Ok frame, ent) # received ent frames"
  "received ent (x @ y) = received ent x @ received ent y"
  by (simp_all add: received_def)

definition grant_frame :: "u64 \<Rightarrow> bytes \<Rightarrow> outbound_item" where
  "grant_frame sid d = Ok (Some (SWindowUpdate \<lparr>wu_stream_id = sid, wu_increment = u32_saturating (length d)\<rparr>))"

context session_runtime
begin

lemma run_window_updates:
  assumes "has_session e v" "streams (session_at e v) sid = Some a" "a < length (stream_heap (session_at e v))"
    "\<forall>d \<in> set ds. length d \<le> MAX_CHUNK" "credit a (session_at e v) + sum_list (map length ds) \<le> MAX_PERMITS"
  shows "\<exists>s. run (read_loop R G e (received ent (map (window_frame sid) ds))) v = Finished (set_session e s v) () \<and>
    credit a s = credit a (session_at e v) + sum_list (map length ds)"
  using assms
proof (induction ds arbitrary: v)
  case Nil
  show ?case by (intro exI [of _ "session_at e v"]) simp
next
  case (Cons d ds)
  have n: "unat (u32_saturating (length d)) = length d" using Cons.prems(4) by (simp add: unat_chunk_len)
  obtain m where m: "sem_add (rt_sem R) (send_credit (stream_heap (session_at e v) ! a)) (length d) = Some m"
    "permits (sview m) = credit a (session_at e v) + length d"
    using sem.add_permits_law [of "send_credit (stream_heap (session_at e v) ! a)" "length d"] Cons.prems(5)
    by (auto simp: stream_credit_def)
  let ?s1 = "set_stream a (\<lambda>st. st\<lparr>send_credit := m\<rparr>) (session_at e v)"
  have c1: "credit a ?s1 = credit a (session_at e v) + length d" using m(2) Cons.prems(3) by (simp add: stream_credit_def)
  have "run (read_loop R G e (received ent (map (window_frame sid) (d # ds)))) v =
      run (read_loop R G e (received ent (map (window_frame sid) ds))) (set_session e ?s1 v)"
    using Cons.prems(1,2) m(1) n
    by (simp add: run_call handle_client_frame_def window_frame_def run_on_session on_window_update_def)
  with Cons.IH [of "set_session e ?s1 v"] Cons.prems c1 show ?case by auto
qed

lemma run_head_frame:
  assumes "has_session e v" "stream_open_at sid a (session_at e v)" "head_tx (stream_heap (session_at e v) ! a)"
    "hview (head_slot (stream_heap (session_at e v) ! a)) = Waiting"
  shows "\<exists>s. run (handle_client_frame R G e ent (response_head sid resp)) v = Finished (set_session e s v) () \<and>
    stream_open_at sid a s \<and> body_view bview a s = body_view bview a (session_at e v) \<and> outbound s = outbound (session_at e v) \<and>
    \<not> head_tx (stream_heap s ! a) \<and> hview (head_slot (stream_heap s ! a)) = Delivered
      \<lparr>rh_stream_id = sid, rh_status = ucast (lr_status resp), rh_headers = proto_headers (lr_headers resp)\<rparr>"
proof -
  let ?head = "\<lparr>rh_stream_id = sid, rh_status = ucast (lr_status resp), rh_headers = proto_headers (lr_headers resp)\<rparr>"
  let ?s1 = "set_stream a (\<lambda>st. st\<lparr>head_tx := False, head_slot := once_send (rt_once R) (head_slot st) ?head\<rparr>) (session_at e v)"
  have "streams (session_at e v) sid = Some a" "a < length (stream_heap (session_at e v))" using assms(2) by (simp_all add: stream_open_at_def)
  with assms one.once_send_law [OF assms(4)] show ?thesis
    by (intro exI [of _ ?s1])
      (simp add: response_head_def run_call handle_client_frame_def run_on_session on_response_head_def stream_open_at_def body_view_def)
qed

lemma run_body_frame:
  assumes "has_session e v" "stream_open_at sid a (session_at e v)" "d \<noteq> []" "length d \<le> MAX_CHUNK"
    "receiver (bodyq a (session_at e v))" "length (queued (bodyq a (session_at e v))) < capacity (bodyq a (session_at e v))"
    "outbound_room oview (Suc n) (session_at e v)"
  shows "\<exists>s. run (handle_client_frame R G e ent (response_data sid d)) v = Finished (set_session e s v) () \<and>
    stream_open_at sid a s \<and> head_slot (stream_heap s ! a) = head_slot (stream_heap (session_at e v) ! a) \<and>
    head_tx (stream_heap s ! a) = head_tx (stream_heap (session_at e v) ! a) \<and>
    bodyq a s = (bodyq a (session_at e v))\<lparr>queued := queued (bodyq a (session_at e v)) @ [ChunkData d]\<rparr> \<and>
    queued (oview (outbound s)) = queued (oview (outbound (session_at e v))) @ [grant_frame sid d] \<and> outbound_room oview n s"
proof -
  obtain s1 where s1: "run (on_stream_data R sid d) (session_at e v) = Finished s1 (length d)" "stream_open_at sid a s1"
    "bodyq a s1 = (bodyq a (session_at e v))\<lparr>queued := queued (bodyq a (session_at e v)) @ [ChunkData d]\<rparr>"
    "outbound s1 = outbound (session_at e v)" "head_slot (stream_heap s1 ! a) = head_slot (stream_heap (session_at e v) ! a)"
    "head_tx (stream_heap s1 ! a) = head_tx (stream_heap (session_at e v) ! a)"
    using on_stream_data_room [OF assms(2,5,6), of d] by blast
  have room: "receiver (oview (outbound s1))" "length (queued (oview (outbound s1))) < capacity (oview (outbound s1))"
    using assms(7) s1(4) by (simp_all add: outbound_room_def)
  let ?frame = "Some (SWindowUpdate \<lparr>wu_stream_id = sid, wu_increment = u32_saturating (length d)\<rparr>)"
  obtain q where q: "run (session_send R ?frame) s1 = Finished (s1\<lparr>outbound := q\<rparr>) True"
    "oview q = (oview (outbound s1))\<lparr>queued := queued (oview (outbound s1)) @ [Ok ?frame]\<rparr>"
    by (rule run_session_send_room [OF room])
  have "unat (u32_saturating (length d)) \<noteq> 0" using assms(3,4) by (simp add: unat_chunk_len)
  then have "u32_saturating (length d) \<noteq> 0" by auto
  then have "run (handle_client_frame R G e ent (response_data sid d)) v = Finished (set_session e (s1\<lparr>outbound := q\<rparr>) v) ()"
    using assms(1,3) s1(1) q(1) by (simp add: response_data_def handle_client_frame_def run_call run_on_session grant_window_def)
  then show ?thesis using s1 q(2) assms(7)
    by (intro exI [of _ "s1\<lparr>outbound := q\<rparr>"]) (simp add: grant_frame_def outbound_room_def stream_open_at_def body_view_def)
qed

lemma run_body_frames:
  assumes "has_session e v" "stream_open_at sid a (session_at e v)" "\<forall>d \<in> set ds. d \<noteq> [] \<and> length d \<le> MAX_CHUNK"
    "receiver (bodyq a (session_at e v))"
    "length (queued (bodyq a (session_at e v))) + length ds \<le> capacity (bodyq a (session_at e v))"
    "outbound_room oview (length ds) (session_at e v)"
  shows "\<exists>s. (\<forall>rest. run (read_loop R G e (received ent (map (response_data sid) ds) @ rest)) v =
      run (read_loop R G e rest) (set_session e s v)) \<and>
    stream_open_at sid a s \<and> head_slot (stream_heap s ! a) = head_slot (stream_heap (session_at e v) ! a) \<and>
    head_tx (stream_heap s ! a) = head_tx (stream_heap (session_at e v) ! a) \<and>
    bodyq a s = (bodyq a (session_at e v))\<lparr>queued := queued (bodyq a (session_at e v)) @ map ChunkData ds\<rparr> \<and>
    queued (oview (outbound s)) = queued (oview (outbound (session_at e v))) @ map (grant_frame sid) ds"
  using assms
proof (induction ds arbitrary: v)
  case Nil
  then show ?case by (intro exI [of _ "session_at e v"]) simp
next
  case (Cons d ds)
  obtain s1 where s1: "run (handle_client_frame R G e ent (response_data sid d)) v = Finished (set_session e s1 v) ()"
    "stream_open_at sid a s1" "head_slot (stream_heap s1 ! a) = head_slot (stream_heap (session_at e v) ! a)"
    "head_tx (stream_heap s1 ! a) = head_tx (stream_heap (session_at e v) ! a)"
    "bodyq a s1 = (bodyq a (session_at e v))\<lparr>queued := queued (bodyq a (session_at e v)) @ [ChunkData d]\<rparr>"
    "queued (oview (outbound s1)) = queued (oview (outbound (session_at e v))) @ [grant_frame sid d]" "outbound_room oview (length ds) s1"
    using run_body_frame [OF Cons.prems(1,2), of d "length ds" G ent] Cons.prems(3-6) by auto
  have "\<exists>s. (\<forall>rest. run (read_loop R G e (received ent (map (response_data sid) ds) @ rest)) (set_session e s1 v) =
      run (read_loop R G e rest) (set_session e s v)) \<and>
    stream_open_at sid a s \<and> head_slot (stream_heap s ! a) = head_slot (stream_heap s1 ! a) \<and> head_tx (stream_heap s ! a) = head_tx (stream_heap s1 ! a) \<and>
    bodyq a s = (bodyq a s1)\<lparr>queued := queued (bodyq a s1) @ map ChunkData ds\<rparr> \<and>
    queued (oview (outbound s)) = queued (oview (outbound s1)) @ map (grant_frame sid) ds"
    using Cons.IH [of "set_session e s1 v"] Cons.prems s1(2,5,7) by simp
  then show ?case using s1 by (auto simp: run_call)
qed

lemma run_stream_end:
  assumes "has_session e v" "stream_open_at sid a (session_at e v)" "receiver (bodyq a (session_at e v))"
    "length (queued (bodyq a (session_at e v))) < capacity (bodyq a (session_at e v))"
    "\<not> head_tx (stream_heap (session_at e v) ! a)"
  shows "\<exists>s. run (handle_client_frame R G e ent (response_end sid ts)) v = Finished (set_session e s v) () \<and>
    streams s = (streams (session_at e v))(sid := None) \<and> outbound s = outbound (session_at e v) \<and>
    head_slot (stream_heap s ! a) = head_slot (stream_heap (session_at e v) ! a) \<and>
    bodyq a s = (bodyq a (session_at e v))\<lparr>queued := queued (bodyq a (session_at e v)) @ [ChunkEnd ts],
      senders := senders (bodyq a (session_at e v)) - 1\<rparr>"
proof -
  let ?s = "session_at e v"
  let ?s1 = "set_stream a (\<lambda>st. st\<lparr>body := chan_clone_tx (rt_body R) (body st)\<rparr>) ?s"
  have a: "a < length (stream_heap ?s)" "streams ?s sid = Some a" using assms(2) by (simp_all add: stream_open_at_def)
  then have v1: "bodyq a ?s1 = (bodyq a ?s)\<lparr>senders := senders (bodyq a ?s) + 1\<rparr>" by (simp add: body_view_def bod.clone_tx_law)
  obtain q where q: "run (body_send R a (ChunkEnd ts)) ?s1 = Finished (set_stream a (\<lambda>st. st\<lparr>body := q\<rparr>) ?s1) True"
    "bview q = (bodyq a ?s1)\<lparr>queued := queued (bodyq a ?s1) @ [ChunkEnd ts]\<rparr>"
    using body_send_room [of a ?s1 "ChunkEnd ts"] a assms(3,4) v1 by auto
  let ?s3 = "set_stream a (\<lambda>st. st\<lparr>body := chan_drop_tx (rt_body R) (body st)\<rparr>) (set_stream a (\<lambda>st. st\<lparr>body := q\<rparr>) ?s1)"
  have "run (handle_client_frame R G e ent (response_end sid ts)) v = Finished (set_session e (closed_state R sid a ?s3) v) ()"
    using assms(1) a by (simp add: response_end_def handle_client_frame_def run_on_session on_stream_end_def run_call
        run_stream_body_sender [OF assms(2)] q(1) drop_body_sender_def run_close_stream)
  then show ?thesis
    using a assms(5) v1 q(2)
    by (intro exI [of _ "closed_state R sid a ?s3"])
      (simp add: closed_state_def drop_stream_senders_def body_view_def bod.drop_tx_law)
qed

end

section \<open>Properties\<close>

lemma upload_chunks_bounds: "\<forall>c \<in> set (upload_chunks frames). c \<noteq> [] \<and> length c \<le> MAX_CHUNK"
proof -
  have "c \<noteq> []" if "d \<noteq> []" "c \<in> set (split_chunks d)" for c d
    using split_loop_nonempty [OF that(1)] that(2) by (auto simp: split_chunks_loop)
  then show ?thesis by (auto simp: upload_chunks_def body_data_def split_chunks_bounded)
qed

lemma sum_upload_chunks: "sum_list (map length (upload_chunks frames)) = sum_list (map length (body_data frames))"
  using arg_cong [OF concat_upload_chunks [of frames], of length] by (simp add: length_concat)

text \<open>C6. A request body goes through the tunnel unchanged and the flow control closes its loop. When the stream is
  open on both sides, the credit covers the body and the queues have room, the edge's upload ends; what it
  queued, read by the agent, puts exactly the bytes of the public request's body into the body of the
  local request, in order, and ends that body; and what the agent queued meanwhile, read by the edge,
  gives the stream back exactly the credit the upload spent.\<close>

theorem upload_end_to_end:
  assumes "session_runtime R sview oview bview hview" "agent_services A sview' oview' bview' eview"
    and "has_session e v" "stream_open_at sid a (session_at e v)"
    and "\<not> sem_closed (sview (send_credit (stream_heap (session_at e v) ! a)))" "list_all is_ok frames"
    and "sum_list (map length (body_data frames)) \<le> stream_credit sview a (session_at e v)"
    and "stream_credit sview a (session_at e v) \<le> MAX_PERMITS"
    and "outbound_room oview (Suc (length (upload_chunks frames))) (session_at e v)"
    and "has_ctx i w" "receiving sid b (ctx_at i w)" "length (upload_chunks frames) \<le> BODY_QUEUE"
    and "local_body bview' b (ctx_at i w) = \<lparr>queued = [], capacity = BODY_QUEUE, senders = 1, receiver = True\<rparr>"
    and "ctx_room oview' (length (upload_chunks frames)) (ctx_at i w)"
  shows "\<exists>v1 items w1 updates v2 cs. run (on_session e (pump_body R sid frames)) v = Finished v1 () \<and>
    queued (oview (outbound (session_at e v1))) = queued (oview (outbound (session_at e v))) @ items \<and>
    run (agent_loop A lib L show_status i (delivered now items)) w = Finished w1 (Ok ()) \<and>
    local_body bview' b (ctx_at i w1) = \<lparr>queued = map (\<lambda>c. Ok (DataFrame c)) cs, capacity = BODY_QUEUE, senders = 0, receiver = True\<rparr> \<and>
    concat cs = concat (body_data frames) \<and>
    frames_to_edge oview' (ctx_at i w1) = frames_to_edge oview' (ctx_at i w) @ updates \<and>
    run (read_loop R G e (received ent updates)) v1 = Finished v2 () \<and>
    stream_credit sview a (session_at e v2) = stream_credit sview a (session_at e v)"
proof -
  let ?cs = "upload_chunks frames" and ?n = "sum_list (map length (body_data frames))"
  have a: "streams (session_at e v) sid = Some a" "a < length (stream_heap (session_at e v))"
    using assms(4) by (simp_all add: stream_open_at_def)
  obtain s1 where s1: "run (pump_body R sid frames) (session_at e v) = Finished s1 ()"
    "queued (oview (outbound s1)) = queued (oview (outbound (session_at e v))) @ map (data_frame sid) ?cs @ [end_frame sid]"
    "streams s1 = streams (session_at e v)" "length (stream_heap s1) = length (stream_heap (session_at e v))"
    "stream_credit sview a s1 = stream_credit sview a (session_at e v) - ?n"
    using session_runtime.run_pump_body [OF assms(1) a assms(5-7,9)] by blast
  obtain c1 where c1: "run (for_each (\<lambda>d. on_data A \<lparr>sd_stream_id = sid, sd_payload = d\<rparr>) ?cs) (ctx_at i w) = Finished c1 ()"
    "receiving sid b c1" "frames_to_edge oview' c1 = frames_to_edge oview' (ctx_at i w) @ map (window_frame sid) ?cs"
    "local_body bview' b c1 = \<lparr>queued = map (\<lambda>c. Ok (DataFrame c)) ?cs, capacity = BODY_QUEUE, senders = 1, receiver = True\<rparr>"
    using agent_services.run_all_data [OF assms(2,11), of ?cs] assms(12-14) by auto
  obtain c2 where c2: "run (close_request_body A sid) c1 = Finished c2 ()" "ctx_outbound c2 = ctx_outbound c1"
    "local_body bview' b c2 = \<lparr>queued = map (\<lambda>c. Ok (DataFrame c)) ?cs, capacity = BODY_QUEUE, senders = 0, receiver = True\<rparr>"
    using agent_services.run_close_request_body [OF assms(2) c1(2)] c1(4) by auto
  have agent: "run (agent_loop A lib L show_status i (delivered now (map (data_frame sid) ?cs @ [end_frame sid]))) w =
      Finished (set_ctx i c2 w) (Ok ())"
    using agent_services.run_loop_data [OF assms(2,10) c1(1), of lib L show_status now "delivered now [end_frame sid]"] assms(10) c2(1)
    by (simp add: end_frame_def run_call handle_server_frame_def run_on_ctx)
  let ?v1 = "set_session e s1 v"
  have "stream_credit sview a s1 + sum_list (map length ?cs) \<le> MAX_PERMITS" using s1(5) assms(7,8) by (simp add: sum_upload_chunks)
  then obtain s2 where s2: "run (read_loop R G e (received ent (map (window_frame sid) ?cs))) ?v1 = Finished (set_session e s2 ?v1) ()"
    "stream_credit sview a s2 = stream_credit sview a s1 + sum_list (map length ?cs)"
    using session_runtime.run_window_updates [OF assms(1), of e ?v1 sid a ?cs G ent] assms(3) s1(3,4) a upload_chunks_bounds by auto
  show ?thesis
    by (rule exI [of _ ?v1], rule exI [of _ "map (data_frame sid) ?cs @ [end_frame sid]"], rule exI [of _ "set_ctx i c2 w"],
        rule exI [of _ "map (window_frame sid) ?cs"], rule exI [of _ "set_session e s2 ?v1"], rule exI [of _ ?cs])
      (use s1 agent c1(3) c2(2,3) s2 assms(3,7,10) in \<open>simp add: run_on_session concat_upload_chunks sum_upload_chunks\<close>)
qed

text \<open>C7. A response goes through the tunnel unchanged. When the local service has answered and the stream is open on
  both sides, with room on the queues, the agent's task ends; what it queued, read by the edge, hands the
  waiting request the local service's status and headers, puts exactly the bytes of its body into the
  response body, in order and followed by its trailers, ends that body, takes the stream out of the
  table, and grants the agent the credit for every chunk.\<close>

theorem download_end_to_end:
  assumes "session_runtime R sview oview bview hview" "agent_services A sview' oview' bview' eview"
    and "so_http req = Some head" "build_local_request lib L (ctx_options (ctx_at i w)) req head = Ok request"
    and "ss_answer (ctx_heap (ctx_at i w) ! b) = Some (Ok resp)" "ctx_streams (ctx_at i w) (so_stream_id req) = Some b"
    and "list_all is_ok (lr_body resp)" "has_ctx i w" "ready_to_send sview' oview' b (Suc (Suc (length (upload_chunks (lr_body resp)))))
      (sum_list (map length (body_data (lr_body resp)))) (ctx_at i w)"
    and "has_session e v" "stream_open_at (so_stream_id req) a (session_at e v)" "head_tx (stream_heap (session_at e v) ! a)"
    and "hview (head_slot (stream_heap (session_at e v) ! a)) = Waiting"
    and "body_view bview a (session_at e v) = \<lparr>queued = [], capacity = STREAM_BUFFER_FRAMES, senders = 1, receiver = True\<rparr>"
    and "length (upload_chunks (lr_body resp)) < STREAM_BUFFER_FRAMES"
    and "outbound_room oview (length (upload_chunks (lr_body resp))) (session_at e v)"
  shows "\<exists>w1 frames v1 cs. run (on_ctx i (serve_stream A lib L b req)) w = Finished w1 () \<and>
    frames_to_edge oview' (ctx_at i w1) = frames_to_edge oview' (ctx_at i w) @ frames \<and>
    run (read_loop R G e (received ent frames)) v = Finished v1 () \<and>
    once_recv (rt_once R) (head_slot (stream_heap (session_at e v1) ! a)) = Some (Some \<lparr>rh_stream_id = so_stream_id req,
      rh_status = ucast (lr_status resp), rh_headers = proto_headers (lr_headers resp)\<rparr>) \<and>
    body_view bview a (session_at e v1) = \<lparr>queued = map ChunkData cs @ [ChunkEnd (relayed_trailers [] (lr_body resp))],
      capacity = STREAM_BUFFER_FRAMES, senders = 0, receiver = True\<rparr> \<and>
    concat cs = concat (body_data (lr_body resp)) \<and> streams (session_at e v1) (so_stream_id req) = None \<and>
    queued (oview (outbound (session_at e v1))) = queued (oview (outbound (session_at e v))) @ map (grant_frame (so_stream_id req)) cs"
proof -
  let ?sid = "so_stream_id req" and ?cs = "upload_chunks (lr_body resp)" and ?s = "session_at e v"
  let ?head = "\<lparr>rh_stream_id = ?sid, rh_status = ucast (lr_status resp), rh_headers = proto_headers (lr_headers resp)\<rparr>"
  obtain c1 where c1: "run (serve_stream A lib L b req) (ctx_at i w) = Finished c1 ()"
    "frames_to_edge oview' c1 = frames_to_edge oview' (ctx_at i w) @ [response_head ?sid resp] @ map (response_data ?sid) ?cs @
      [response_end ?sid (relayed_trailers [] (lr_body resp))]"
    using agent_services.run_serve_answered [OF assms(2-7,9)] by blast
  obtain s1 where s1: "run (handle_client_frame R G e ent (response_head ?sid resp)) v = Finished (set_session e s1 v) ()"
    "stream_open_at ?sid a s1" "body_view bview a s1 = body_view bview a ?s" "outbound s1 = outbound ?s" "\<not> head_tx (stream_heap s1 ! a)"
    "hview (head_slot (stream_heap s1 ! a)) = Delivered ?head"
    using session_runtime.run_head_frame [OF assms(1,10-13), of G ent resp] by blast
  let ?v1 = "set_session e s1 v"
  have v1: "has_session e ?v1" "session_at e ?v1 = s1" using assms(10) by simp_all
  obtain s2 where s2: "\<And>rest. run (read_loop R G e (received ent (map (response_data ?sid) ?cs) @ rest)) ?v1 =
      run (read_loop R G e rest) (set_session e s2 ?v1)"
    "stream_open_at ?sid a s2" "head_slot (stream_heap s2 ! a) = head_slot (stream_heap s1 ! a)" "\<not> head_tx (stream_heap s2 ! a)"
    "body_view bview a s2 = \<lparr>queued = map ChunkData ?cs, capacity = STREAM_BUFFER_FRAMES, senders = 1, receiver = True\<rparr>"
    "queued (oview (outbound s2)) = queued (oview (outbound ?s)) @ map (grant_frame ?sid) ?cs"
    using session_runtime.run_body_frames [OF assms(1) v1(1), of ?sid a ?cs G ent] v1(2) s1(2-5) assms(14-16) upload_chunks_bounds
    by (auto simp: outbound_room_def)
  let ?v2 = "set_session e s2 ?v1"
  have v2: "has_session e ?v2" "session_at e ?v2 = s2" using assms(10) by simp_all
  obtain s3 where s3: "run (handle_client_frame R G e ent (response_end ?sid (relayed_trailers [] (lr_body resp)))) ?v2 = Finished (set_session e s3 ?v2) ()"
    "streams s3 = (streams s2)(?sid := None)" "outbound s3 = outbound s2" "head_slot (stream_heap s3 ! a) = head_slot (stream_heap s2 ! a)"
    "body_view bview a s3 = \<lparr>queued = map ChunkData ?cs @ [ChunkEnd (relayed_trailers [] (lr_body resp))],
      capacity = STREAM_BUFFER_FRAMES, senders = 0, receiver = True\<rparr>"
    using session_runtime.run_stream_end [OF assms(1) v2(1), of ?sid a G ent "relayed_trailers [] (lr_body resp)"] v2(2) s2(2,4,5) assms(15)
    by auto
  have edge: "run (read_loop R G e (received ent ([response_head ?sid resp] @ map (response_data ?sid) ?cs @
      [response_end ?sid (relayed_trailers [] (lr_body resp))]))) v = Finished (set_session e s3 v) ()"
    using s2(1) [of "received ent [response_end ?sid (relayed_trailers [] (lr_body resp))]"] s3(1) s1(1) by (simp add: run_call)
  have slot: "once_recv (rt_once R) (head_slot (stream_heap s3 ! a)) = Some (Some ?head)"
    using oneshot.once_recv_law [of "rt_once R" hview] assms(1) s1(6) s2(3) s3(4) by (simp add: session_runtime_def)
  show ?thesis
    by (rule exI [of _ "set_ctx i c1 w"], rule exI [of _ "[response_head ?sid resp] @ map (response_data ?sid) ?cs @
          [response_end ?sid (relayed_trailers [] (lr_body resp))]"], rule exI [of _ "set_session e s3 v"], rule exI [of _ ?cs])
      (use edge slot c1 s2(6) s3(2,3,5) assms(8,10) in \<open>simp add: run_on_ctx concat_upload_chunks\<close>)
qed

text \<open>An edge and an agent with stream 1 open on both sides.\<close>

definition sample_agent ::
    "(sem_view, client_frame chan_view, local_frame chan_view, agent_event chan_view) agent" where
  "sample_agent = stranded_agent\<lparr>ag_ctxs := [sample_ctx]\<rparr>"

definition sample_edge ::
    "(sem_view, outbound_item chan_view, chunk chan_view, http_response_head slot, mem_table) server" where
  "sample_edge = set_session 0 (sample_session 4) sample_node"

lemma sample_agent_facts: "has_ctx 0 sample_agent" "ctx_at 0 sample_agent = sample_ctx"
  by (simp_all add: sample_agent_def has_ctx_def ctx_at_def)

lemma sample_edge_facts: "has_session 0 sample_edge" "session_at 0 sample_edge = sample_session 4"
  using sample_node_ready(1) by (simp_all add: sample_edge_def)

lemma sample_session_facts:
  "stream_open_at 1 0 (sample_session 4)" "\<not> sem_closed (send_credit (stream_heap (sample_session 4) ! 0))"
  "stream_credit id 0 (sample_session 4) = 4" "head_tx (stream_heap (sample_session 4) ! 0)"
  "head_slot (stream_heap (sample_session 4) ! 0) = Waiting" "outbound_room id (Suc (Suc (Suc 0))) (sample_session 4)"
  "outbound_room id (Suc (Suc 0)) (sample_session 4)"
  "body_view id 0 (sample_session 4) = \<lparr>queued = [], capacity = STREAM_BUFFER_FRAMES, senders = 1, receiver = True\<rparr>"
  "queued (outbound (sample_session 4)) = []"
  by (simp_all add: stream_open_at_def sample_session_simps stream_credit_def outbound_room_def body_view_def)

theorem upload_end_to_end_witness:
  "\<exists>v1 w1 items cs. run (on_session 0 (pump_body ref_runtime 1 (lr_body sample_response))) sample_edge = Finished v1 () \<and>
     queued (outbound (session_at 0 v1)) = items \<and>
     run (agent_loop ref_agent_runtime ref_http ref_lib status_message 0 (delivered 0 items)) sample_agent = Finished w1 (Ok ()) \<and>
     queued (local_body id 0 (ctx_at 0 w1)) = map (\<lambda>c. Ok (DataFrame c)) cs \<and> concat cs = ''abcd''"
proof -
  let ?frames = "lr_body sample_response"
  have body: "body_data ?frames = [''ab'', ''cd'']" by (simp add: sample_response_def)
  have agent: "receiving 1 0 sample_ctx" "local_body id 0 sample_ctx = \<lparr>queued = [], capacity = BODY_QUEUE, senders = 1, receiver = True\<rparr>"
    "ctx_room id (Suc (Suc 0)) sample_ctx"
    by (simp_all add: receiving_def local_body_def ctx_room_def sample_ctx_simps)
  show ?thesis
    using upload_end_to_end [OF ref_rt.session_runtime_axioms ref_ar.agent_services_axioms sample_edge_facts(1), of 1 0 ?frames 0
        sample_agent 0 ref_http ref_lib status_message 0]
    unfolding sample_edge_facts sample_agent_facts body sample_ctx_chunks
    using sample_session_facts sample_agent_facts(1) sample_ctx_facts(6) agent
    by (simp add: MAX_PERMITS_def BODY_QUEUE_def) force
qed

theorem download_end_to_end_witness:
  "\<exists>w1 frames v1 cs. run (on_ctx 0 (serve_stream ref_agent_runtime ref_http ref_lib 0 sample_open)) sample_agent = Finished w1 () \<and>
     queued (ctx_outbound (ctx_at 0 w1)) = frames \<and>
     run (read_loop ref_runtime memory_registry 0 (received \<lparr>subdomain_draws = [], tunnel_draws = []\<rparr> frames)) sample_edge = Finished v1 () \<and>
     queued (body_view id 0 (session_at 0 v1)) = map ChunkData cs @ [ChunkEnd []] \<and> concat cs = ''abcd''"
proof -
  obtain request where "build_local_request ref_http ref_lib (ctx_options (ctx_at 0 sample_agent)) sample_open
     \<lparr>rq_method = ''GET'', rq_path = ''/'', rq_authority = ''api.tunnel.com'', rq_headers = [], rq_version = ''HTTP/1.1'',
      rq_upgrade = []\<rparr> = Ok request" using sample_ctx_build unfolding sample_agent_facts by blast
  from download_end_to_end [OF ref_rt.session_runtime_axioms ref_ar.agent_services_axioms sample_ctx_facts(1) this, of 0
      sample_response 0 sample_edge 0 memory_registry "\<lparr>subdomain_draws = [], tunnel_draws = []\<rparr>"]
  show ?thesis
    unfolding sample_edge_facts sample_agent_facts sample_ctx_chunks
    using sample_session_facts sample_edge_facts(1) sample_agent_facts(1) sample_ctx_facts
    unfolding sample_ctx_chunks
    by (simp add: STREAM_BUFFER_FRAMES_def) (auto simp: sample_response_def)
qed

section \<open>Failed uploads\<close>

context agent_services
begin

text \<open>A reset takes the last sender of the request body as the end of the body does.\<close>

lemma run_drop_receiving:
  assumes "receiving sid a c"
  shows "\<exists>c'. run (drop_stream R sid) c = Finished c' () \<and>
    local_body bview a c' = (local_body bview a c)\<lparr>senders := senders (local_body bview a c) - 1\<rparr>"
  using assms by (simp add: drop_stream_def receiving_def local_body_def drop_body_tx_def bod.drop_tx_law)

end

text \<open>C37. An upload that fails looks complete to the local service. When the public client's body fails after some frames, the edge
  resets the stream; the agent drops the stream, and with it the last sender of the request body. The local service is left with the
  same request body as after a complete upload of those frames: the same bytes, and then the end.\<close>

theorem failed_upload_looks_complete:
  assumes "session_runtime R sview oview bview hview" "agent_services A sview' oview' bview' eview"
    and "has_session e v" "stream_open_at sid a (session_at e v)"
    and "\<not> sem_closed (sview (send_credit (stream_heap (session_at e v) ! a)))" "list_all is_ok frames"
    and "sum_list (map length (body_data frames)) \<le> stream_credit sview a (session_at e v)"
    and "outbound_room oview (Suc (length (upload_chunks frames))) (session_at e v)"
    and "has_ctx i w" "receiving sid b (ctx_at i w)" "length (upload_chunks frames) \<le> BODY_QUEUE"
    and "local_body bview' b (ctx_at i w) = \<lparr>queued = [], capacity = BODY_QUEUE, senders = 1, receiver = True\<rparr>"
    and "ctx_room oview' (length (upload_chunks frames)) (ctx_at i w)"
  shows "\<exists>v1 items v2 items' w1 w2. run (on_session e (pump_body R sid frames)) v = Finished v1 () \<and>
    queued (oview (outbound (session_at e v1))) = queued (oview (outbound (session_at e v))) @ items \<and>
    run (on_session e (pump_body R sid (frames @ Err err # rest))) v = Finished v2 () \<and>
    queued (oview (outbound (session_at e v2))) = queued (oview (outbound (session_at e v))) @ items' \<and>
    run (agent_loop A lib L show_status i (delivered now items)) w = Finished w1 (Ok ()) \<and>
    run (agent_loop A lib L show_status i (delivered now items')) w = Finished w2 (Ok ()) \<and>
    local_body bview' b (ctx_at i w2) = local_body bview' b (ctx_at i w1) \<and> senders (local_body bview' b (ctx_at i w2)) = 0 \<and>
    receiver (local_body bview' b (ctx_at i w2))"
proof -
  let ?cs = "upload_chunks frames" and ?reset = "reset_frame sid ResetPeerClosed ''client body error''"
  have a: "streams (session_at e v) sid = Some a" "a < length (stream_heap (session_at e v))"
    using assms(4) by (simp_all add: stream_open_at_def)
  obtain s1 where s1: "run (pump_body R sid frames) (session_at e v) = Finished s1 ()"
    "queued (oview (outbound s1)) = queued (oview (outbound (session_at e v))) @ map (data_frame sid) ?cs @ [end_frame sid]"
    using session_runtime.run_pump_body [OF assms(1) a assms(5-8)] by blast
  obtain s2 where s2: "run (pump_body R sid (frames @ Err err # rest)) (session_at e v) = Finished s2 ()"
    "queued (oview (outbound s2)) = queued (oview (outbound (session_at e v))) @ map (data_frame sid) ?cs @ [?reset]"
    using session_runtime.run_pump_failed [OF assms(1) a assms(5-8)] by blast
  obtain c1 where c1: "run (for_each (\<lambda>d. on_data A \<lparr>sd_stream_id = sid, sd_payload = d\<rparr>) ?cs) (ctx_at i w) = Finished c1 ()"
    "receiving sid b c1"
    "local_body bview' b c1 = \<lparr>queued = map (\<lambda>c. Ok (DataFrame c)) ?cs, capacity = BODY_QUEUE, senders = 1, receiver = True\<rparr>"
    using agent_services.run_all_data [OF assms(2,10), of ?cs] assms(11-13) by auto
  obtain c2 c3 where c2: "run (close_request_body A sid) c1 = Finished c2 ()" "run (drop_stream A sid) c1 = Finished c3 ()"
    "local_body bview' b c2 = (local_body bview' b c1)\<lparr>senders := 0\<rparr>" "local_body bview' b c3 = (local_body bview' b c1)\<lparr>senders := 0\<rparr>"
    using agent_services.run_close_request_body [OF assms(2) c1(2)] agent_services.run_drop_receiving [OF assms(2) c1(2)] c1(3) by auto
  note loop = agent_services.run_loop_data [OF assms(2,9) c1(1), of lib L show_status now]
  have "run (agent_loop A lib L show_status i (delivered now (map (data_frame sid) ?cs @ [end_frame sid]))) w = Finished (set_ctx i c2 w) (Ok ())"
    "run (agent_loop A lib L show_status i (delivered now (map (data_frame sid) ?cs @ [?reset]))) w = Finished (set_ctx i c3 w) (Ok ())"
    using loop [of "delivered now [end_frame sid]"] loop [of "delivered now [?reset]"] assms(9) c2(1,2)
    by (simp_all add: end_frame_def reset_frame_def run_call handle_server_frame_def run_on_ctx)
  with s1 s2 c1(3) c2(3,4) assms(3,9) show ?thesis
    by (intro exI [of _ "set_session e s1 v"] exI [of _ "set_session e s2 v"] exI [of _ "map (data_frame sid) ?cs @ [end_frame sid]"]
        exI [of _ "map (data_frame sid) ?cs @ [?reset]"] exI [of _ "set_ctx i c2 w"] exI [of _ "set_ctx i c3 w"]) (simp add: run_on_session)
qed

theorem failed_upload_looks_complete_witness:
  "\<exists>v1 v2 w1 w2. run (on_session 0 (pump_body ref_runtime 1 (lr_body sample_response))) sample_edge = Finished v1 () \<and>
     run (on_session 0 (pump_body ref_runtime 1 (lr_body sample_response @ [Err ''aborted'']))) sample_edge = Finished v2 () \<and>
     run (agent_loop ref_agent_runtime ref_http ref_lib status_message 0 (delivered 0 (queued (outbound (session_at 0 v1))))) sample_agent = Finished w1 (Ok ()) \<and>
     run (agent_loop ref_agent_runtime ref_http ref_lib status_message 0 (delivered 0 (queued (outbound (session_at 0 v2))))) sample_agent = Finished w2 (Ok ()) \<and>
     local_body id 0 (ctx_at 0 w2) = local_body id 0 (ctx_at 0 w1)"
proof -
  let ?frames = "lr_body sample_response"
  have body: "body_data ?frames = [''ab'', ''cd'']" by (simp add: sample_response_def)
  have agent: "receiving 1 0 sample_ctx" "local_body id 0 sample_ctx = \<lparr>queued = [], capacity = BODY_QUEUE, senders = 1, receiver = True\<rparr>"
    "ctx_room id (Suc (Suc 0)) sample_ctx"
    by (simp_all add: receiving_def local_body_def ctx_room_def sample_ctx_simps)
  have "queued (outbound (sample_session 4)) = []" by (simp add: sample_session_simps)
  then show ?thesis
    using failed_upload_looks_complete [OF ref_rt.session_runtime_axioms ref_ar.agent_services_axioms sample_edge_facts(1), of 1 0 ?frames 0
        sample_agent 0 "''aborted''" "[]" ref_http ref_lib status_message 0]
    unfolding sample_edge_facts sample_agent_facts body sample_ctx_chunks
    using sample_session_facts sample_agent_facts(1) sample_ctx_facts(6) agent
    by (simp add: BODY_QUEUE_def) force
qed

section \<open>Refused agents\<close>

text \<open>C23. An agent whose token the edge refuses stops instead of retrying. Whatever the reason the
  provider gives, the edge answers the agent's greeting with an error and stays as it was, and with that answer
  the agent's reconnect loop returns the failure at once, however many retries and connections it has left.\<close>

theorem refused_agent_stops:
  assumes "agent_services A sview oview bview eview" "app_auth v (opt_token opts) = Err err" "\<not> ag_shutdown w" "cn_connect conn = Ok ()"
  shows "\<exists>status. run (session_rpc R G tkeys skeys draws ps (Some (Ok (Some (hello_frame env opts)))) inbound) v = Finished v (Err status) \<and>
    (\<exists>w'. run (agent_run A lib L show_status env opts (conn\<lparr>cn_rpc := Err status\<rparr> # conns) attempt) w =
      Finished w' (Err (''authentication failed: '' @ error_to_string err)) \<and> ag_events w' = ag_events w)"
proof -
  let ?status = "\<lparr>status_code = Unauthenticated, status_message = error_to_string err\<rparr>"
  let ?w1 = "w\<lparr>ag_ctxs := ag_ctxs w @ [new_ctx A opts]\<rparr>"
  have edge: "run (session_rpc R G tkeys skeys draws ps (Some (Ok (Some (hello_frame env opts)))) inbound) v = Finished v (Err ?status)"
    using assms(2) by (simp add: session_rpc_def hello_frame_def run_call)
  have out: "channel (ar_out A) oview" using assms(1) by (simp add: agent_services_def)
  have room: "ctx_room oview (Suc 0) (new_ctx A opts)"
    by (simp add: ctx_room_def new_ctx_def channel.chan_new_law [OF out] AGENT_OUTBOUND_QUEUE_def)
  obtain q where q: "run (ctx_send A (hello_frame env opts)) (new_ctx A opts) = Finished ((new_ctx A opts)\<lparr>ctx_outbound := q\<rparr>) True"
    by (rule agent_services.run_ctx_send [OF assms(1) room])
  have at: "has_ctx (length (ag_ctxs w)) ?w1" "ctx_at (length (ag_ctxs w)) ?w1 = new_ctx A opts"
    by (simp_all add: has_ctx_def ctx_at_def)
  have "run (agent_session A lib L show_status env opts (conn\<lparr>cn_rpc := Err ?status\<rparr>)) w =
      Finished (set_ctx (length (ag_ctxs w)) ((new_ctx A opts)\<lparr>ctx_outbound := q\<rparr>) ?w1)
        (Err (Fatal (''authentication failed: '' @ error_to_string err)))"
    using assms(4) q by (simp add: agent_session_def run_call run_on_ctx [OF at(1)] at(2) rpc_error_def)
  then have "run (agent_run A lib L show_status env opts (conn\<lparr>cn_rpc := Err ?status\<rparr> # conns) attempt) w =
      Finished (set_ctx (length (ag_ctxs w)) ((new_ctx A opts)\<lparr>ctx_outbound := q\<rparr>) ?w1)
        (Err (''authentication failed: '' @ error_to_string err))"
    using assms(3) by (simp add: run_call after_session_def)
  with edge show ?thesis by (simp add: set_ctx_def)
qed

theorem refused_agent_stops_witness:
  "\<exists>status w'. run (session_rpc ref_runtime memory_registry (\<lambda>_. []) (\<lambda>_. []) [] [] (Some (Ok (Some (hello_frame sample_env
       (sample_options\<lparr>opt_token := ''wrong''\<rparr>))))) []) sample_node = Finished sample_node (Err status) \<and>
     run (agent_run ref_agent_runtime ref_http ref_lib status_message sample_env (sample_options\<lparr>opt_token := ''wrong''\<rparr>)
       [\<lparr>cn_connect = Ok (), cn_rpc = Err status, cn_inbound = []\<rparr>] 0) stranded_agent =
       Finished w' (Err (''authentication failed: '' @ error_to_string (Unauthorized ''unknown or revoked token'')))"
proof -
  have "app_auth sample_node (opt_token (sample_options\<lparr>opt_token := ''wrong''\<rparr>)) = Err (Unauthorized ''unknown or revoked token'')"
    by (simp add: sample_node_def authenticate_def static_token_auth_new_def)
  from refused_agent_stops [OF ref_ar.agent_services_axioms this, of stranded_agent "\<lparr>cn_connect = Ok (), cn_rpc = Ok (), cn_inbound = []\<rparr>"]
  show ?thesis by (fastforce simp: stranded_agent_def)
qed

section \<open>Reconnecting agents\<close>

text \<open>C35. A reconnect that is faster than the lease leaves the host without a tunnel. When a node dies without giving its routes
  back, its agents reconnect to another node under a new session id. Until the old lease has run out the table refuses the new
  session, though the account is the same; the agent reports the rejection and does nothing else. Nor does it ask again: whatever frames but another welcome the edge sends it in that session, and
  however the agent's tasks interleave with the transport, no further request for a tunnel is queued. So nobody holds the host once the old lease is over.\<close>

theorem reconnect_before_expiry_rejected:
  assumes "routing_table G leases good storable ttl_ok" "good (app_registry v)" "has_session a v" "ttl_ok (route_ttl (app_config v))"
    and "storable (new_route v a key (new_tunnel_id (tunnel_draws ent)))"
    and "under_limit (session_principal (session_at a v)) (session_tunnel_count (session_at a v))"
    and "resolve_target (app_config v) (session_principal (session_at a v)) (subdomain_draws ent) (ot_spec req) = Ok (key, url)"
    and old: "live leases (app_registry v) (clock v) (as_storage_key key) = Some (old, e)" "rr_session old \<noteq> session_id (session_at a v)"
    and agent: "agent_services A sview oview bview eview" "events_room eview (Suc n) w" "asks_nothing_at oview i w"
  shows "\<exists>v' st q. run (register_tunnel G a ent req) v = Finished v' st \<and> \<not> st_accepted st \<and> session_at a v' = session_at a v \<and>
    (\<forall>u \<ge> e. live leases (app_registry v') u (as_storage_key key) = None) \<and>
    run (handle_server_frame A lib L i now (STunnelStatus st)) w = Finished (w\<lparr>ag_events := q\<rparr>) () \<and>
    queued (eview q) = queued (eview (ag_events w)) @ [TunnelRejected (st_error st)] \<and>
    (\<forall>items k w' ts. (\<forall>welcome t. (InFrame (Some (SWelcome welcome)), t) \<notin> set items) \<longrightarrow>
       pool_step\<^sup>*\<^sup>* (w\<lparr>ag_events := q\<rparr>, call (agent_loop A lib L show_status i items) (\<lambda>_. Return ()) # replicate k (on_ctx i (take_frame A))) (w', ts) \<longrightarrow>
       asks_nothing_at oview i w')"
proof -
  have "\<not> claimable (live leases (app_registry v) (clock v) (as_storage_key key)) (session_id (session_at a v))"
    using old by (simp add: claimable_def)
  from run_register_taken [OF assms(1-7) this] obtain v' st where st: "run (register_tunnel G a ent req) v = Finished v' st"
    "\<not> st_accepted st" "session_at a v' = session_at a v" "\<forall>u \<ge> clock v. live leases (app_registry v') u = live leases (app_registry v) u"
    by auto
  have "live leases (app_registry v') u (as_storage_key key) = None" if "e \<le> u" for u
  proof -
    have lease: "leases (app_registry v) (as_storage_key key) = Some (old, e)" "clock v < e"
      using old(1) by (auto simp: live_def split: option.splits if_splits)
    then have "live leases (app_registry v') u = live leases (app_registry v) u" using st(4) that by simp
    then show ?thesis using lease that by (simp add: live_def)
  qed
  moreover obtain q where "run (emit A (TunnelRejected (st_error st))) w = Finished (w\<lparr>ag_events := q\<rparr>) ()"
    "queued (eview q) = queued (eview (ag_events w)) @ [TunnelRejected (st_error st)]"
    by (rule agent_services.run_emit [OF agent(1,2)])
  moreover have "asks_nothing_at oview i (w\<lparr>ag_events := q\<rparr>)"
    using agent(3) by (simp add: asks_nothing_at_def has_ctx_def ctx_at_def)
  moreover from this have "asks_nothing_at oview i w'"
    if "\<forall>welcome t. (InFrame (Some (SWelcome welcome)), t) \<notin> set items"
      "pool_step\<^sup>*\<^sup>* (w\<lparr>ag_events := q\<rparr>, call (agent_loop A lib L show_status i items) (\<lambda>_. Return ()) # replicate k (on_ctx i (take_frame A))) (w', ts)"
    for items k w' ts using agent_services.asks_never_again [OF agent(1) that(2) _ that(1)] by blast
  ultimately show ?thesis using st(1-3)
    by (intro exI [of _ v'] exI [of _ st] exI [of _ q] conjI) (auto simp: handle_server_frame_def)
qed

theorem reconnect_before_expiry_rejected_witness:
  "\<exists>v' st w'. run (register_tunnel memory_registry 0 \<lparr>subdomain_draws = [], tunnel_draws = replicate 16 0\<rparr>
      \<lparr>ot_request_id = ''req_1'', ot_spec = Some (TcpSpec \<lparr>ts_remote_port = 41235, ts_forward_to = []\<rparr>)\<rparr>)
      (sample_node\<lparr>app_registry := [as_storage_key (TcpPort 41235) \<mapsto> (example_record ''sess_0'', 45)]\<rparr>) = Finished v' st \<and> \<not> st_accepted st \<and>
    live id (app_registry v') 45 (as_storage_key (TcpPort 41235)) = None \<and>
    run (handle_server_frame ref_agent_runtime ref_http ref_lib 0 0 (STunnelStatus st)) (stranded_agent\<lparr>ag_ctxs := [new_ctx ref_agent_runtime sample_options]\<rparr>) = Finished w' ()"
proof -
  let ?w = "stranded_agent\<lparr>ag_ctxs := [new_ctx ref_agent_runtime sample_options]\<rparr>"
  let ?v = "sample_node\<lparr>app_registry := [as_storage_key (TcpPort 41235) \<mapsto> (example_record ''sess_0'', 45)]\<rparr>"
  let ?ent = "\<lparr>subdomain_draws = [], tunnel_draws = replicate 16 0\<rparr>"
  let ?req = "\<lparr>ot_request_id = ''req_1'', ot_spec = Some (TcpSpec \<lparr>ts_remote_port = 41235, ts_forward_to = []\<rparr>)\<rparr>"
  have resolved: "resolve_target (app_config ?v) (session_principal (session_at 0 ?v)) (subdomain_draws ?ent) (ot_spec ?req) =
      Ok (TcpPort 41235, ''tcp://tunnel.com:'' @ show_nat 41235)"
    by (simp add: resolve_target_def resolve_tcp_target_def sample_node_def default_config_def)
  have limit: "under_limit (session_principal (session_at 0 ?v)) (session_tunnel_count (session_at 0 ?v))" "has_session 0 ?v"
    by (simp_all add: under_limit_def sample_node_def session_at_def session_new_def sample_principal_def default_limits_def
        session_tunnel_count_def has_session_def)
  have old: "live id (app_registry ?v) (clock ?v) (as_storage_key (TcpPort 41235)) = Some (example_record ''sess_0'', 45)"
    "rr_session (example_record ''sess_0'') \<noteq> session_id (session_at 0 ?v)"
    by (simp_all add: live_def sample_node_def example_record_def session_at_def session_new_def)
  have room: "events_room id (Suc 0) ?w" "asks_nothing_at id 0 ?w"
    by (simp_all add: events_room_def stranded_agent_def ref_chan_def asks_nothing_at_def asks_nothing_def has_ctx_def ctx_at_def new_ctx_def
        ref_agent_runtime_def)
  from reconnect_before_expiry_rejected [OF memory_table.routing_table_axioms TrueI limit(2) TrueI TrueI limit(1) resolved old
      ref_ar.agent_services_axioms room, where show_status = status_message and lib = ref_http and L = ref_lib and now = 0]
  show ?thesis by auto
qed

end
