(* ===== verification/Link.thy ===== *)
theory Link
  imports Credit_Node Credit_Agent End_To_End
begin

text \<open>
  A node and an agent with the connection between them. The transport takes frames from one side's queue and delivers them to
  the other side's read loop in order; public requests, the HTTP server that reads the responses, the local service,
  heartbeats, the teardown of the session, the loss of the connection and the passing of time run beside it. Everything is interleaved in every way, and
  neither direction of any stream ever has more in flight than its window.
\<close>

section \<open>The connected system\<close>

record ('m, 'qo, 'qb, 'o, 'r, 'n, 'po, 'pb, 'e) linked =
  lk_node :: "('m, 'qo, 'qb, 'o, 'r) server"
  lk_agent :: "('n, 'po, 'pb, 'e) agent"
  lk_down :: "server_frame list"
  lk_up :: "client_frame list"

definition at_edge ::
    "(('m, 'qo, 'qb, 'o, 'r) server, 'x) task \<Rightarrow> (('m, 'qo, 'qb, 'o, 'r, 'n, 'po, 'pb, 'e) linked, 'x) task" where
  "at_edge = zoom lk_node (\<lambda>w l. l\<lparr>lk_node := w\<rparr>)"

definition at_agent ::
    "(('n, 'po, 'pb, 'e) agent, 'x) task \<Rightarrow> (('m, 'qo, 'qb, 'o, 'r, 'n, 'po, 'pb, 'e) linked, 'x) task" where
  "at_agent = zoom lk_agent (\<lambda>w l. l\<lparr>lk_agent := w\<rparr>)"

text \<open>The read loops on the connection, for as many turns as the list has entries: the loops of \<open>run_session\<close> on either side,
  fed by the wire.\<close>

primrec edge_reader ::
    "('m, 'qo, 'qb, 'o) runtime \<Rightarrow> 'r registry_ops \<Rightarrow> nat \<Rightarrow> entropy list \<Rightarrow> (('m, 'qo, 'qb, 'o, 'r, 'n, 'po, 'pb, 'e) linked, unit) task" where
  "edge_reader R G a [] = Halt"
| "edge_reader R G a (ent # ents) =
     call (await (\<lambda>l. case lk_up l of [] \<Rightarrow> None | frame # rest \<Rightarrow> Some (l\<lparr>lk_up := rest\<rparr>, frame))) (\<lambda>frame.
     call (at_edge (handle_client_frame R G a ent frame)) (\<lambda>_. edge_reader R G a ents))"

primrec agent_reader ::
    "('n, 'po, 'pb, 'e) agent_runtime \<Rightarrow> http_lib \<Rightarrow> request_lib \<Rightarrow> nat \<Rightarrow> wall_clock list \<Rightarrow>
     (('m, 'qo, 'qb, 'o, 'r, 'n, 'po, 'pb, 'e) linked, unit) task" where
  "agent_reader A lib L i [] = Halt"
| "agent_reader A lib L i (now # nows) =
     call (await (\<lambda>l. case lk_down l of [] \<Rightarrow> None | frame # rest \<Rightarrow> Some (l\<lparr>lk_down := rest\<rparr>, frame))) (\<lambda>frame.
     case frame of
       Some payload \<Rightarrow> call (at_agent (handle_server_frame A lib L i now payload)) (\<lambda>_. agent_reader A lib L i nows)
     | None \<Rightarrow> agent_reader A lib L i nows)"

text \<open>The transport: one frame from a queue to the wire.\<close>

definition carry_down ::
    "('m, 'qo, 'qb, 'o) runtime \<Rightarrow> nat \<Rightarrow> (('m, 'qo, 'qb, 'o, 'r, 'n, 'po, 'pb, 'e) linked, unit) task" where
  "carry_down R a = await (\<lambda>l. case chan_recv (rt_out R) (outbound (session_at a (lk_node l))) of
     Some (q, Some item) \<Rightarrow>
       Some (l\<lparr>lk_node := set_session a ((session_at a (lk_node l))\<lparr>outbound := q\<rparr>) (lk_node l),
               lk_down := lk_down l @ (case item of Ok frame \<Rightarrow> [frame] | Err _ \<Rightarrow> [])\<rparr>, ())
   | _ \<Rightarrow> None)"

definition carry_up ::
    "('n, 'po, 'pb, 'e) agent_runtime \<Rightarrow> nat \<Rightarrow> (('m, 'qo, 'qb, 'o, 'r, 'n, 'po, 'pb, 'e) linked, unit) task" where
  "carry_up A i = await (\<lambda>l. case chan_recv (ar_out A) (ctx_outbound (ctx_at i (lk_agent l))) of
     Some (q, Some frame) \<Rightarrow>
       Some (l\<lparr>lk_agent := set_ctx i ((ctx_at i (lk_agent l))\<lparr>ctx_outbound := q\<rparr>) (lk_agent l), lk_up := lk_up l @ [frame]\<rparr>, ())
   | _ \<Rightarrow> None)"

text \<open>The connection is lost: what is on the wire is gone, and both queues have lost their reader.\<close>

definition cut :: "('m, 'qo, 'qb, 'o) runtime \<Rightarrow> ('n, 'po, 'pb, 'e) agent_runtime \<Rightarrow> nat \<Rightarrow> nat \<Rightarrow>
    (('m, 'qo, 'qb, 'o, 'r, 'n, 'po, 'pb, 'e) linked, unit) task" where
  "cut R A a i =
     call (at_edge (on_session a (update (\<lambda>s. s\<lparr>outbound := chan_drop_rx (rt_out R) (outbound s)\<rparr>)))) (\<lambda>_.
     call (at_agent (on_ctx i (update (\<lambda>c. c\<lparr>ctx_outbound := chan_drop_rx (ar_out A) (ctx_outbound c)\<rparr>)))) (\<lambda>_.
     update (\<lambda>l. l\<lparr>lk_down := [], lk_up := []\<rparr>)))"

datatype link_event =
    EdgeGreets welcome_message
  | PublicRequest role request string
  | EdgeReads "entropy list"
  | AgentReads "wall_clock list"
  | CarriesDown
  | CarriesUp
  | ResponsePolled nat
  | ResponseDropped u64 nat
  | HeartBeats "(u64 \<times> wall_clock) list"
  | EdgeTearsDown
  | LocalAnswers nat "(local_response, string) result"
  | LocalReads nat
  | LocalDrops nat
  | ConnectionLost
  | ClockMoves nat

fun link_task ::
    "('m, 'qo, 'qb, 'o) runtime \<Rightarrow> ('n, 'po, 'pb, 'e) agent_runtime \<Rightarrow> 'r registry_ops \<Rightarrow> http_lib \<Rightarrow> json_lib \<Rightarrow> request_lib \<Rightarrow>
     ((string \<rightharpoonup> nat) \<Rightarrow> string list) \<Rightarrow> ((string \<rightharpoonup> tunnel) \<Rightarrow> string list) \<Rightarrow> ((u64 \<rightharpoonup> nat) \<Rightarrow> u64 list) \<Rightarrow> peer_client \<Rightarrow> nat \<Rightarrow> nat \<Rightarrow>
     link_event \<Rightarrow> (('m, 'qo, 'qb, 'o, 'r, 'n, 'po, 'pb, 'e) linked, unit) task" where
  "link_task R A G lib js L keys tkeys skeys P a i (EdgeGreets welcome) =
     at_edge (call (on_session a (session_send R (Some (SWelcome welcome)))) (\<lambda>_. Return ()))"
| "link_task R A G lib js L keys tkeys skeys P a i (PublicRequest role req addr) =
     at_edge (call (handle R G lib js keys tkeys P role req addr) (\<lambda>_. Return ()))"
| "link_task R A G lib js L keys tkeys skeys P a i (EdgeReads ents) = edge_reader R G a ents"
| "link_task R A G lib js L keys tkeys skeys P a i (AgentReads nows) = agent_reader A lib L i nows"
| "link_task R A G lib js L keys tkeys skeys P a i CarriesDown = carry_down R a"
| "link_task R A G lib js L keys tkeys skeys P a i CarriesUp = carry_up A i"
| "link_task R A G lib js L keys tkeys skeys P a i (ResponsePolled st) = at_edge (call (on_session a (poll_body R lib st)) (\<lambda>_. Return ()))"
| "link_task R A G lib js L keys tkeys skeys P a i (ResponseDropped sid st) =
     at_edge (call (on_session a (drop_body_receiver R st)) (\<lambda>_. on_session a (guard_drop R sid)))"
| "link_task R A G lib js L keys tkeys skeys P a i (HeartBeats ps) = at_edge (heartbeat_task R G tkeys a ps)"
| "link_task R A G lib js L keys tkeys skeys P a i EdgeTearsDown = at_edge (teardown R G tkeys skeys a)"
| "link_task R A G lib js L keys tkeys skeys P a i (LocalAnswers b answer) =
     at_agent (on_ctx i (update (set_state b (\<lambda>st. st\<lparr>ss_answer := Some answer\<rparr>))))"
| "link_task R A G lib js L keys tkeys skeys P a i (LocalReads b) =
     at_agent (on_ctx i (await (\<lambda>c. map_option (\<lambda>(q, _). (set_state b (\<lambda>st. st\<lparr>ss_body := q\<rparr>) c, ()))
       (chan_recv (ar_body A) (ss_body (ctx_heap c ! b))))))"
| "link_task R A G lib js L keys tkeys skeys P a i (LocalDrops b) = at_agent (on_ctx i (drop_local_receiver A b))"
| "link_task R A G lib js L keys tkeys skeys P a i ConnectionLost = cut R A a i"
| "link_task R A G lib js L keys tkeys skeys P a i (ClockMoves n) =
     update (\<lambda>l. l\<lparr>lk_node := (lk_node l)\<lparr>clock := clock (lk_node l) + n\<rparr>, lk_agent := (lk_agent l)\<lparr>ag_clock := ag_clock (lk_agent l) + n\<rparr>\<rparr>)"

section \<open>What is in flight\<close>

definition agent_grants :: "u64 \<Rightarrow> client_frame \<Rightarrow> nat" where
  "agent_grants sid frame = (case frame of
     Some (CWindowUpdate u) \<Rightarrow> if wu_stream_id u = sid then unat (wu_increment u) else 0 | _ \<Rightarrow> 0)"

definition edge_grants :: "u64 \<Rightarrow> outbound_item \<Rightarrow> nat" where
  "edge_grants sid item = (case item of
     Ok (Some (SWindowUpdate u)) \<Rightarrow> if wu_stream_id u = sid then unat (wu_increment u) else 0 | _ \<Rightarrow> 0)"

text \<open>Upload bytes on their way to the agent and their acknowledgements on the way back; and the same for downloads.\<close>

definition upload_in_flight ::
    "('qo \<Rightarrow> outbound_item chan_view) \<Rightarrow> ('po \<Rightarrow> client_frame chan_view) \<Rightarrow> nat \<Rightarrow> nat \<Rightarrow> u64 \<Rightarrow>
     ('m, 'qo, 'qb, 'o, 'r, 'n, 'po, 'pb, 'e) linked \<Rightarrow> nat" where
  "upload_in_flight oview pview a i sid l =
     sum_list (map (data_bytes sid) (queued (oview (outbound (session_at a (lk_node l)))) @ map Ok (lk_down l))) +
     sum_list (map (agent_grants sid) (queued (pview (ctx_outbound (ctx_at i (lk_agent l)))) @ lk_up l))"

definition download_in_flight ::
    "('qo \<Rightarrow> outbound_item chan_view) \<Rightarrow> ('po \<Rightarrow> client_frame chan_view) \<Rightarrow> nat \<Rightarrow> nat \<Rightarrow> u64 \<Rightarrow>
     ('m, 'qo, 'qb, 'o, 'r, 'n, 'po, 'pb, 'e) linked \<Rightarrow> nat" where
  "download_in_flight oview pview a i sid l =
     sum_list (map (client_bytes sid) (queued (pview (ctx_outbound (ctx_at i (lk_agent l)))) @ lk_up l)) +
     sum_list (map (edge_grants sid) (queued (oview (outbound (session_at a (lk_node l)))) @ map Ok (lk_down l)))"

text \<open>The credit a side has left for a stream in its table.\<close>

definition edge_credit :: "('m \<Rightarrow> sem_view) \<Rightarrow> u64 \<Rightarrow> ('m, 'qo, 'qb, 'o) session \<Rightarrow> nat" where
  "edge_credit sview sid s = (case streams s sid of None \<Rightarrow> 0 | Some y \<Rightarrow> stream_credit sview y s)"

definition agent_credit :: "('n \<Rightarrow> sem_view) \<Rightarrow> u64 \<Rightarrow> ('n, 'po, 'pb) session_ctx \<Rightarrow> nat" where
  "agent_credit nview sid c = (case ctx_streams c sid of None \<Rightarrow> 0 | Some y \<Rightarrow> state_credit nview y c)"

section \<open>The accounts of the whole system\<close>

definition agent_purse ::
    "('n \<Rightarrow> sem_view) \<Rightarrow> ('po \<Rightarrow> client_frame chan_view) \<Rightarrow> nat \<Rightarrow> u64 \<Rightarrow> u32 \<Rightarrow> coin multiset \<Rightarrow> ('n, 'po, 'pb, 'e) agent \<Rightarrow> bool" where
  "agent_purse nview pview i sid window M w \<longleftrightarrow> has_ctx i w \<and> agent_ledger nview pview sid window M (ctx_at i w)"

definition wire_coins :: "u64 \<Rightarrow> u32 \<Rightarrow> ('m, 'qo, 'qb, 'o, 'r, 'n, 'po, 'pb, 'e) linked \<Rightarrow> coin multiset" where
  "wire_coins sid window l = sum_list (map (down_coins sid window) (lk_down l)) + sum_list (map (up_coins sid) (lk_up l))"

definition link_ledger ::
    "('m \<Rightarrow> sem_view) \<Rightarrow> ('qo \<Rightarrow> outbound_item chan_view) \<Rightarrow> ('n \<Rightarrow> sem_view) \<Rightarrow> ('po \<Rightarrow> client_frame chan_view) \<Rightarrow> nat \<Rightarrow> nat \<Rightarrow> u64 \<Rightarrow> u32 \<Rightarrow>
     coin multiset \<Rightarrow> ('m, 'qo, 'qb, 'o, 'r, 'n, 'po, 'pb, 'e) linked \<Rightarrow> bool" where
  "link_ledger sview oview nview pview a i sid window M l \<longleftrightarrow> has_session a (lk_node l) \<and> has_ctx i (lk_agent l) \<and>
     (\<exists>b b'. edge_fits sid window b (session_at a (lk_node l)) \<and> agent_fits sid b' (ctx_at i (lk_agent l)) \<and>
        budget (unat window) (edge_coins sview oview sid window b (session_at a (lk_node l)) +
          agent_coins nview pview sid b' (ctx_at i (lk_agent l)) + wire_coins sid window l + M))"

text \<open>Each side sees the other and the wire as holding the rest.\<close>

definition beside_edge ::
    "('n \<Rightarrow> sem_view) \<Rightarrow> ('po \<Rightarrow> client_frame chan_view) \<Rightarrow> nat \<Rightarrow> u64 \<Rightarrow> u32 \<Rightarrow> coin multiset \<Rightarrow>
     ('m, 'qo, 'qb, 'o, 'r, 'n, 'po, 'pb, 'e) linked \<Rightarrow> bool" where
  "beside_edge nview pview i sid window x l \<longleftrightarrow> has_ctx i (lk_agent l) \<and>
     (\<exists>b. agent_fits sid b (ctx_at i (lk_agent l)) \<and> x = agent_coins nview pview sid b (ctx_at i (lk_agent l)) + wire_coins sid window l)"

definition beside_agent ::
    "('m \<Rightarrow> sem_view) \<Rightarrow> ('qo \<Rightarrow> outbound_item chan_view) \<Rightarrow> nat \<Rightarrow> u64 \<Rightarrow> u32 \<Rightarrow> coin multiset \<Rightarrow>
     ('m, 'qo, 'qb, 'o, 'r, 'n, 'po, 'pb, 'e) linked \<Rightarrow> bool" where
  "beside_agent sview oview a sid window x l \<longleftrightarrow> has_session a (lk_node l) \<and>
     (\<exists>b. edge_fits sid window b (session_at a (lk_node l)) \<and> x = edge_coins sview oview sid window b (session_at a (lk_node l)) + wire_coins sid window l)"

lemma coins_beside: "(e + c + w + M :: coin multiset) = e + (M + (c + w))" "(e + c + w + M :: coin multiset) = c + (M + (e + w))"
  by (simp_all add: ac_simps)

lemma link_ledger_edge:
  "link_ledger sview oview nview pview a i sid window M l \<longleftrightarrow>
     (\<exists>x. beside_edge nview pview i sid window x l \<and> node_ledger sview oview a sid window (M + x) (lk_node l))"
  unfolding link_ledger_def beside_edge_def node_ledger_def edge_ledger_def coins_beside(1) by blast

lemma link_ledger_agent:
  "link_ledger sview oview nview pview a i sid window M l \<longleftrightarrow>
     (\<exists>x. beside_agent sview oview a sid window x l \<and> agent_purse nview pview i sid window (M + x) (lk_agent l))"
  unfolding link_ledger_def beside_agent_def agent_purse_def agent_ledger_def coins_beside(2) by blast

lemma link_ledger_drop:
  "link_ledger sview oview nview pview a i sid window (X + M) l \<Longrightarrow> loose X \<Longrightarrow> link_ledger sview oview nview pview a i sid window M l"
  unfolding link_ledger_edge add.assoc using node_ledger_drop by blast

lemma link_ledger_wire:
  assumes "link_ledger sview oview nview pview a i sid window M l" "lk_node l' = lk_node l" "lk_agent l' = lk_agent l"
    "wire_coins sid window l + M = wire_coins sid window l' + M'"
  shows "link_ledger sview oview nview pview a i sid window M' l'"
proof -
  have "x + y + wire_coins sid window l' + M' = x + y + wire_coins sid window l + M" for x y using assms(4) by (simp add: add.assoc)
  with assms(1) show ?thesis unfolding link_ledger_def assms(2,3) by metis
qed

text \<open>A queue that is emptied, and a wire.\<close>

lemma loose_sum_list: "(\<And>x. loose (f x)) \<Longrightarrow> loose (sum_list (map f xs))"
  by (induction xs) auto

lemma loose_sums [simp]:
  "loose (sum_list (map (item_coins sid window) items))" "loose (sum_list (map (down_coins sid window) downs))"
  "loose (sum_list (map (up_coins sid) ups))"
  by (simp_all add: loose_sum_list item_coins_def split: result.split)

lemma loose_wire: "loose (wire_coins sid window l)"
  by (simp add: wire_coins_def)

lemma edge_ledger_clear:
  assumes "edge_ledger sview oview sid window M s" "queued (oview q) = []"
  shows "edge_ledger sview oview sid window M (s\<lparr>outbound := q\<rparr>)"
proof -
  let ?Q = "sum_list (map (item_coins sid window) (queued (oview (outbound s))))"
  have "edge_coins sview oview sid window b s + M = ?Q + (edge_coins sview oview sid window b (s\<lparr>outbound := q\<rparr>) + M)" for b
    using assms(2) by (simp add: edge_coins_def edge_cell_def stream_credit_def ac_simps split: option.split)
  with assms(1) show ?thesis unfolding edge_ledger_def by (metis budget_drop edge_fits_outbound loose_sums(1))
qed

lemma agent_ledger_clear:
  assumes "agent_ledger nview pview sid window M c" "queued (pview q) = []"
  shows "agent_ledger nview pview sid window M (c\<lparr>ctx_outbound := q\<rparr>)"
proof -
  let ?Q = "sum_list (map (up_coins sid) (queued (pview (ctx_outbound c))))"
  have "agent_coins nview pview sid b c + M = ?Q + (agent_coins nview pview sid b (c\<lparr>ctx_outbound := q\<rparr>) + M)" for b
    using assms(2) by (simp add: agent_coins_def agent_cell_def state_credit_def ac_simps split: option.split)
  with assms(1) show ?thesis unfolding agent_ledger_def by (metis budget_drop agent_fits_fields(1) loose_sums(3))
qed

context channel
begin

lemma recv_Some:
  assumes "chan_recv chan q = Some (q', Some x)"
  shows "queued (cview q) = x # queued (cview q')"
proof (cases "queued (cview q)")
  case Nil
  with assms recv_end [of q] recv_waits [of q] show ?thesis by (cases "senders (cview q) = 0") auto
next
  case (Cons y rest)
  with assms recv_item [of q y rest] show ?thesis by auto
qed

end

locale tunnel_link =
  edge: session_runtime R sview oview bview hview + agent: agent_services A nview pview cview eview
  for R :: "('m, 'qo, 'qb, 'o) runtime" and sview oview bview hview
    and A :: "('n, 'po, 'pb, 'e) agent_runtime" and nview pview cview eview +
  fixes a i :: nat
begin

abbreviation "books \<equiv> link_ledger sview oview nview pview a i"

lemma settled_at_edge:
  assumes "settled (edge.purse a sid window) r t"
  shows "settled (books sid window) r (at_edge t)"
  unfolding at_edge_def
  by (rule accounts_zoom [OF assms, where rest = "beside_edge nview pview i sid window"])
    (auto simp: link_ledger_edge beside_edge_def wire_coins_def)

lemma settled_at_agent:
  assumes "settled (agent_purse nview pview i sid window) r t"
  shows "settled (books sid window) r (at_agent t)"
  unfolding at_agent_def
  by (rule accounts_zoom [OF assms, where rest = "beside_agent sview oview a sid window"])
    (auto simp: link_ledger_agent beside_agent_def wire_coins_def)

lemma coins_on_ctx:
  assumes "accounts (agent.accts sid window) r t Q"
  shows "accounts (agent_purse nview pview i sid window) r (on_ctx i t) Q"
  unfolding on_ctx_def
  by (rule accounts_zoom [OF assms, where rest = "\<lambda>x w. x = {#} \<and> has_ctx i w"]) (auto simp: agent_purse_def)

lemma settled_handle_server_frame:
  "settled (agent_purse nview pview i sid window) (down_coins sid window (Some payload)) (handle_server_frame A lib L i now payload)"
proof -
  have emit: "neutral (agent_purse nview pview i sid window) (emit A event)" for event
    unfolding emit_def by (rule neutral_await) (auto simp: agent_purse_def has_ctx_def ctx_at_def split: poll.splits)
  have open_frame: "settled (agent_purse nview pview i sid window) (down_coins sid window (Some (SOpen req)))
      (call (on_ctx i (register_stream A req)) (\<lambda>b. spawn (on_ctx i (serve_stream A lib L b req)) (Return ())))" for req
    by (rule accounts_call [OF coins_on_ctx [OF agent.coins_register_stream]])
      (auto intro: settled_spawn [where r' = "{#}", simplified] coins_on_ctx agent.settled_serve_stream)
  show ?thesis
  proof (cases payload)
    case (SOpen req)
    then show ?thesis using open_frame by (simp add: handle_server_frame_def)
  next
    case (SData d)
    then show ?thesis using coins_on_ctx [OF agent.settled_on_data] by (simp add: handle_server_frame_def)
  next
    case (SWindowUpdate upd)
    then show ?thesis using coins_on_ctx [OF agent.settled_on_window] by (simp add: handle_server_frame_def)
  qed (auto simp: handle_server_frame_def
      intro!: settled_call settled_neutral [OF emit] settled_neutral [OF neutral_read] coins_on_ctx [OF settled_neutral] neutral_intros)
qed


lemma link_spare: "loose X \<Longrightarrow> settled (books sid window) r t \<Longrightarrow> settled (books sid window) (X + r) t"
  by (rule accounts.Exchange [of _ _ r]) (simp_all add: link_ledger_drop add.assoc)

lemma settled_edge_reader: "settled (books sid window) {#} (edge_reader R G a ents)"
proof (induction ents)
  case (Cons ent ents)
  show ?case
    unfolding edge_reader.simps
  proof (rule accounts_call [where P = "up_coins sid"], goal_cases)
    case 1
    show ?case by (rule accounts_await) (auto split: list.splits intro: link_ledger_wire simp: wire_coins_def ac_simps)
  next
    case (2 frame)
    show ?case by (intro settled_call settled_at_edge edge.coins_handle_client_frame Cons.IH)
  qed
qed simp

lemma settled_agent_reader: "settled (books sid window) {#} (agent_reader A lib L i nows)"
proof (induction nows)
  case (Cons now nows)
  show ?case
    unfolding agent_reader.simps
  proof (rule accounts_call [where P = "down_coins sid window"], goal_cases)
    case 1
    show ?case by (rule accounts_await) (auto split: list.splits intro: link_ledger_wire simp: wire_coins_def ac_simps)
  next
    case (2 frame)
    show ?case
      by (cases frame) (auto intro!: settled_call settled_at_agent settled_handle_server_frame Cons.IH)
  qed
qed simp

lemma settled_carry_down: "settled (books sid window) {#} (carry_down R a)"
  unfolding carry_down_def
proof (rule accounts_await, goal_cases)
  case (1 l l' u F)
  let ?s = "session_at a (lk_node l)"
  from 1(2) obtain q item where q: "chan_recv (rt_out R) (outbound ?s) = Some (q, Some item)"
    "l' = l\<lparr>lk_node := set_session a (?s\<lparr>outbound := q\<rparr>) (lk_node l), lk_down := lk_down l @ (case item of Ok frame \<Rightarrow> [frame] | Err _ \<Rightarrow> [])\<rparr>"
    by (auto split: option.splits)
  let ?l = "l\<lparr>lk_node := set_session a (?s\<lparr>outbound := q\<rparr>) (lk_node l)\<rparr>"
  obtain x where x: "beside_edge nview pview i sid window x l" "has_session a (lk_node l)" "edge_ledger sview oview sid window (F + x) ?s"
    using 1(1) by (auto simp: link_ledger_edge node_ledger_def)
  have "edge_ledger sview oview sid window (item_coins sid window item + (F + x)) (?s\<lparr>outbound := q\<rparr>)"
    using x(3) edge.out.recv_Some [OF q(1)] by (rule edge_ledger_take)
  then have "books sid window (item_coins sid window item + F) ?l"
    using x(1,2) by (auto simp: link_ledger_edge node_ledger_def beside_edge_def wire_coins_def add.assoc)
  then show ?case
    by (rule link_ledger_wire) (simp_all add: q(2) wire_coins_def item_coins_def ac_simps split: result.split)
qed

lemma settled_carry_up: "settled (books sid window) {#} (carry_up A i)"
  unfolding carry_up_def
proof (rule accounts_await, goal_cases)
  case (1 l l' u F)
  let ?c = "ctx_at i (lk_agent l)"
  from 1(2) obtain q frame where q: "chan_recv (ar_out A) (ctx_outbound ?c) = Some (q, Some frame)"
    "l' = l\<lparr>lk_agent := set_ctx i (?c\<lparr>ctx_outbound := q\<rparr>) (lk_agent l), lk_up := lk_up l @ [frame]\<rparr>"
    by (auto split: option.splits)
  let ?l = "l\<lparr>lk_agent := set_ctx i (?c\<lparr>ctx_outbound := q\<rparr>) (lk_agent l)\<rparr>"
  obtain x where x: "beside_agent sview oview a sid window x l" "has_ctx i (lk_agent l)" "agent_ledger nview pview sid window (F + x) ?c"
    using 1(1) by (auto simp: link_ledger_agent agent_purse_def)
  have "agent_ledger nview pview sid window (up_coins sid frame + (F + x)) (?c\<lparr>ctx_outbound := q\<rparr>)"
    using x(3) agent.out.recv_Some [OF q(1)] by (rule agent_ledger_take)
  then have "books sid window (up_coins sid frame + F) ?l"
    using x(1,2) by (auto simp: link_ledger_agent agent_purse_def beside_agent_def wire_coins_def add.assoc)
  then show ?case
    by (rule link_ledger_wire) (simp_all add: q(2) wire_coins_def ac_simps)
qed

text \<open>The loss of the connection takes coins away.\<close>

lemma settled_cut: "settled (books sid window) {#} (cut R A a i)"
proof -
  have "settled (edge.ledger sid window) {#} (update (\<lambda>s. s\<lparr>outbound := chan_drop_rx (rt_out R) (outbound s)\<rparr>))"
  proof (rule settled_update, goal_cases)
    case (1 s F)
    show ?case
      by (rule edge_ledger_clear) (use 1 edge.out.drop_rx_law in auto)
  qed
  moreover have "settled (agent.accts sid window) {#} (update (\<lambda>c. c\<lparr>ctx_outbound := chan_drop_rx (ar_out A) (ctx_outbound c)\<rparr>))"
  proof (rule settled_update, goal_cases)
    case (1 s F)
    show ?case
      by (rule agent_ledger_clear) (use 1 agent.out.drop_rx_law in auto)
  qed
  moreover have "settled (books sid window) {#} (update (\<lambda>l. l\<lparr>lk_down := [], lk_up := []\<rparr>))"
  proof (rule settled_update, goal_cases)
    case (1 l F)
    have "books sid window (wire_coins sid window l + F) (l\<lparr>lk_down := [], lk_up := []\<rparr>)"
      using 1 by (auto intro: link_ledger_wire simp: wire_coins_def)
    then show ?case by (rule link_ledger_drop) (simp add: loose_wire)
  qed
  ultimately show ?thesis
    unfolding cut_def
    by (intro settled_call settled_at_edge edge.settled_on_session settled_at_agent coins_on_ctx)
qed

text \<open>Every event of the system accounts for the coins of every stream; a public request needs the right to draw a number.\<close>

lemma settled_local_step:
  "settled (agent.accts sid window) {#} t \<Longrightarrow> settled (books sid window) {#} (at_agent (on_ctx i t))"
  by (intro settled_at_agent coins_on_ctx)

lemma settled_link_task:
  "settled (books sid window) (case ev of PublicRequest _ _ _ \<Rightarrow> {#Number#} | _ \<Rightarrow> {#})
     (link_task R A G lib js L keys tkeys skeys P a i ev)"
proof (cases ev)
  case (EdgeGreets greeting)
  show ?thesis
    unfolding EdgeGreets link_task.simps link_event.case
    by (intro settled_at_edge settled_neutral neutral_intros edge.coins_plain_send) simp
next
  case (ResponsePolled st)
  show ?thesis
    unfolding ResponsePolled link_task.simps link_event.case by (intro settled_at_edge settled_neutral neutral_intros edge.coins_body_ops)
next
  case (LocalReads b)
  show ?thesis
    unfolding LocalReads link_task.simps link_event.case
    by (rule settled_local_step, rule accounts_await) (auto intro: agent.accts_set_state)
next
  case (ClockMoves n)
  show ?thesis
    unfolding ClockMoves link_task.simps link_event.case
    by (rule settled_update)
      (simp add: link_ledger_def has_session_def session_at_def has_ctx_def ctx_at_def wire_coins_def)
qed (simp_all add: settled_edge_reader settled_agent_reader settled_carry_down settled_carry_up settled_cut
    settled_at_edge settled_call [OF edge.settled_handle] edge.settled_heartbeat settled_neutral [OF edge.coins_teardown]
    settled_neutral neutral_call edge.neutral_on_session edge.coins_receivers edge.coins_small
    settled_local_step agent.coins_set_state agent.coins_agent_small)

text \<open>A fresh connection: nothing is in flight, and the numbers that the requests may draw do not run out.\<close>

lemma books_fresh:
  assumes "has_session a (lk_node l)" "session_at a (lk_node l) = session_new R ident node p window"
    and "has_ctx i (lk_agent l)" "ctx_at i (lk_agent l) = new_ctx A opts" "lk_down l = []" "lk_up l = []" "n + 1 < 2 ^ 64"
  shows "books sid window (replicate_mset n Number) l"
proof -
  let ?s = "session_new R ident node p window" and ?c = "new_ctx A opts"
  have "edge_fits sid window None ?s" "agent_fits sid None ?c" by (simp_all add: edge_fits_def session_new_def agent_fits_def new_ctx_def)
  moreover have "edge_coins sview oview sid window None ?s =
      {#Number#} + (if sid = 0 then {#} else {#Unopened#}) + {#EdgeCell None#}"
    by (simp add: edge_coins_def edge_cell_def session_new_def edge.out.chan_new_law OUTBOUND_QUEUE_def word_less_nat_alt
        unat_eq_zero Suc_le_eq not_le flip: word_neq_0_conv)
  moreover have "agent_coins nview pview sid None ?c = {#AgentCell None#}"
    by (simp add: agent_coins_def agent_cell_def new_ctx_def agent.out.chan_new_law AGENT_OUTBOUND_QUEUE_def)
  moreover have "budget (unat window) ({#Number#} + (if sid = 0 then {#} else {#Unopened#}) + {#EdgeCell None#} + {#AgentCell None#} + replicate_mset n Number)"
    using assms(7) by (auto simp: budget_def)
  moreover have "wire_coins sid window l = {#}" by (simp add: wire_coins_def assms(5,6))
  ultimately show ?thesis using assms(1-4) unfolding link_ledger_def by (metis add.right_neutral)
qed

lemma sum_list_replicate_mset: "sum_list (replicate n {#c#}) = replicate_mset n c"
  by (induction n) auto

text \<open>What the accounts say of the bytes.\<close>

lemma count_sum_list: "count (sum_list (map f xs)) c = sum_list (map (\<lambda>x. count (f x) c) xs)"
  by (induction xs) auto

lemma count_frames [simp]:
  "count (down_coins sid window frame) UpByte = data_bytes sid (Ok frame)" "count (down_coins sid window frame) DownByte = edge_grants sid (Ok frame)"
  "count (up_coins sid cframe) UpByte = agent_grants sid cframe" "count (up_coins sid cframe) DownByte = client_bytes sid cframe"
  by (auto simp: down_coins_def up_coins_def data_bytes_def edge_grants_def agent_grants_def client_bytes_def
      split: option.splits server_payload.splits client_payload.splits)

lemma count_items [simp]:
  "count (item_coins sid window item) UpByte = data_bytes sid item" "count (item_coins sid window item) DownByte = edge_grants sid item"
  by (simp_all add: item_coins_def data_bytes_def edge_grants_def split: result.split)

lemma books_bytes:
  assumes "books sid window M l"
  shows "edge_credit sview sid (session_at a (lk_node l)) + upload_in_flight oview pview a i sid l \<le> unat window"
    and "agent_credit nview sid (ctx_at i (lk_agent l)) + download_in_flight oview pview a i sid l \<le> unat window"
proof -
  let ?s = "session_at a (lk_node l)" and ?c = "ctx_at i (lk_agent l)"
  obtain b b' where b: "edge_fits sid window b ?s" "agent_fits sid b' ?c"
      "budget (unat window) (edge_coins sview oview sid window b ?s + agent_coins nview pview sid b' ?c + wire_coins sid window l + M)"
    using assms by (auto simp: link_ledger_def)
  have "edge_credit sview sid ?s \<le> count (edge_cell sview b ?s) UpByte" "agent_credit nview sid ?c \<le> count (agent_cell nview b' ?c) DownByte"
    using b(1,2) by (auto simp: edge_credit_def edge_cell_def edge_fits_def agent_credit_def agent_cell_def agent_fits_def split: option.splits)
  moreover have "count (edge_cell sview b ?s) UpByte + upload_in_flight oview pview a i sid l \<le> unat window"
      "count (agent_cell nview b' ?c) DownByte + download_in_flight oview pview a i sid l \<le> unat window"
    using b(3) by (auto simp: budget_def edge_coins_def agent_coins_def wire_coins_def count_sum_list upload_in_flight_def
        download_in_flight_def comp_def)
  ultimately show "edge_credit sview sid ?s + upload_in_flight oview pview a i sid l \<le> unat window"
    "agent_credit nview sid ?c + download_in_flight oview pview a i sid l \<le> unat window" by linarith+
qed

lemma link_holds:
  assumes "books sid window (replicate_mset (length evs) Number) l"
    and "pool_step\<^sup>*\<^sup>* (l, map (link_task R A G lib js L keys tkeys skeys P a i) evs) (l', ts)"
  shows "\<exists>M. books sid window M l'"
proof -
  let ?ts = "map (link_task R A G lib js L keys tkeys skeys P a i) evs"
  have "settled (books sid window) {#Number#} (link_task R A G lib js L keys tkeys skeys P a i ev)" for ev
    using settled_link_task [of sid window ev G lib js L keys tkeys skeys P] link_spare [where X = "{#Number#}" and r = "{#}"]
    by (cases ev) simp_all
  then have "holdings (books sid window) l ?ts (replicate (length evs) {#Number#})"
    using assms(1) by (simp add: holdings_def sum_list_replicate_mset)
  then obtain rs where "holdings (books sid window) l' ts rs" using pool_holdings [OF assms(2)] by blast
  then show ?thesis by (auto simp: holdings_def)
qed

end

interpretation ref_link: tunnel_link ref_runtime id id id id ref_agent_runtime id id id id 0 0
  by unfold_locales

section \<open>No stream ever has more than its window in flight\<close>

text \<open>C2. Flow control is sound across the whole tunnel. Take a node and an agent that have just connected, any public requests and everything
  else that can happen on the node, the agent and the connection between them, interleaved in any way, the loss of the connection included.
  At every moment and for every stream, the credit the edge has left, the upload bytes queued or on the wire and the acknowledgements on
  their way back add up to at most the initial window; and so do the agent's credit, the download bytes and their acknowledgements.\<close>

theorem link_conserves_credit:
  assumes "session_runtime R sview oview bview hview" "agent_services A nview pview cview eview"
    and "has_session a (lk_node l)" "session_at a (lk_node l) = session_new R ident node p window"
    and "has_ctx i (lk_agent l)" "ctx_at i (lk_agent l) = new_ctx A opts" "lk_down l = []" "lk_up l = []" "length evs + 1 < 2 ^ 64"
    and "pool_step\<^sup>*\<^sup>* (l, map (link_task R A G lib js L keys tkeys skeys P a i) evs) (l', ts)"
  shows "edge_credit sview sid (session_at a (lk_node l')) + upload_in_flight oview pview a i sid l' \<le> unat window \<and>
    agent_credit nview sid (ctx_at i (lk_agent l')) + download_in_flight oview pview a i sid l' \<le> unat window"
proof -
  have link: "tunnel_link R sview oview bview hview A nview pview cview eview" using assms(1,2) by (simp add: tunnel_link_def)
  obtain M where "link_ledger sview oview nview pview a i sid window M l'"
    using tunnel_link.link_holds [OF link tunnel_link.books_fresh [OF link assms(3-9)] assms(10)] by blast
  then show ?thesis using tunnel_link.books_bytes [OF link] by blast
qed

definition sample_link :: "(sem_view, outbound_item chan_view, chunk chan_view, http_response_head slot, mem_table,
    sem_view, client_frame chan_view, local_frame chan_view, agent_event chan_view) linked" where
  "sample_link = \<lparr>lk_node = sample_node\<lparr>app_registry := [''api.tunnel.com'' \<mapsto> (example_record ''sess_1'', 45)]\<rparr>,
     lk_agent = sample_agent\<lparr>ag_ctxs := [new_ctx ref_agent_runtime sample_options]\<rparr>,
     lk_down = [], lk_up = []\<rparr>"

definition sample_events :: "link_event list" where
  "sample_events = [PublicRequest Public (sample_request\<lparr>req_body := [Ok (DataFrame ''ab'')]\<rparr>) ''192.0.2.1:1'', CarriesDown, AgentReads [0]]"

text \<open>A request is routed, opened and announced; the Open frame crosses the wire and two bytes of the upload follow it on to the queue, while
  the agent registers the stream with the whole window as its credit. So no download byte can be on its way.\<close>

lemma sample_run:
  "ends_in [0, 0, 0, 0, 0, 0, 0, 0, 0, 1, 0, 3, 3, 3, 2, 2] sample_link
     (map (link_task ref_runtime ref_agent_runtime memory_registry ref_http \<lparr>json_display = (\<lambda>_. []), json_to_string = (\<lambda>_. Ok [])\<rparr> ref_lib
       (\<lambda>_. []) (\<lambda>_. []) (\<lambda>_. []) \<lparr>pc_node_id = ''node_a'', pc_parse_uri = Err, pc_request = (\<lambda>_ _. None)\<rparr> 0 0) sample_events)
     (\<lambda>l ts. edge_credit id 1 (session_at 0 (lk_node l)) = 65534 \<and> upload_in_flight id id 0 0 1 l = 2 \<and>
        agent_credit id 1 (ctx_at 0 (lk_agent l)) = 65536)"
proof -
  let ?req = "sample_request\<lparr>req_body := [Ok (DataFrame ''ab'')]\<rparr>"
  have norm: "normalize_host ''api.tunnel.com'' = Ok ''api.tunnel.com''" by code_simp
  have req: "\<not> starts_with (uri_path (req_uri sample_request)) INTERNAL_PREFIX" "request_host ref_http ?req = Some ''api.tunnel.com''"
    by code_simp+
  show ?thesis
    by (simp add: sample_events_def ends_in_def task_step_def read_def update_def atomically_def await_def spawn_def comp_def Let_def
      handle_def norm req registry_lookup_def memory_registry_def mem_lookup_def evict_expired_def forward_local_def
      at_edge_def on_session_def session_at_def set_session_def manager_get_def
      open_http_stream_def session_send_def ref_send_def at_stream_limit_def 
      send_stream_data_def split_chunks_def MAX_CHUNK_def unat_u32_saturating acquire_credit_def set_stream_def
      carry_down_def at_agent_def on_ctx_def handle_server_frame_def register_stream_def ctx_at_def set_ctx_def
      edge_credit_def agent_credit_def state_credit_def stream_credit_def upload_in_flight_def data_bytes_def agent_grants_def
      sample_link_def sample_node_def example_record_def sample_principal_def default_limits_def
      sample_session_simps sample_ctx_simps sample_agent_def new_ctx_def stranded_agent_def)
qed

theorem link_conserves_credit_witness:
  "\<exists>l ts. pool_step\<^sup>*\<^sup>* (sample_link, map (link_task ref_runtime ref_agent_runtime memory_registry ref_http
       \<lparr>json_display = (\<lambda>_. []), json_to_string = (\<lambda>_. Ok [])\<rparr> ref_lib (\<lambda>_. []) (\<lambda>_. []) (\<lambda>_. [])
       \<lparr>pc_node_id = ''node_a'', pc_parse_uri = Err, pc_request = (\<lambda>_ _. None)\<rparr> 0 0) sample_events) (l, ts) \<and>
     edge_credit id 1 (session_at 0 (lk_node l)) = 65534 \<and> upload_in_flight id id 0 0 1 l = 2 \<and>
     agent_credit id 1 (ctx_at 0 (lk_agent l)) = 65536 \<and> download_in_flight id id 0 0 1 l = 0"
proof -
  have fresh: "has_session 0 (lk_node sample_link)" "session_at 0 (lk_node sample_link) = session_new ref_runtime ''sess_1'' ''node_a'' (sample_principal 4) 65536"
    "has_ctx 0 (lk_agent sample_link)" "ctx_at 0 (lk_agent sample_link) = new_ctx ref_agent_runtime sample_options"
    "lk_down sample_link = []" "lk_up sample_link = []" "length sample_events + 1 < 2 ^ 64"
    by (simp_all add: sample_link_def sample_node_def has_session_def session_at_def has_ctx_def ctx_at_def sample_events_def)
  from sample_run show ?thesis
  proof (rule ends_inE)
    fix l ts
    assume run: "pool_step\<^sup>*\<^sup>* (sample_link, map (link_task ref_runtime ref_agent_runtime memory_registry ref_http
       \<lparr>json_display = (\<lambda>_. []), json_to_string = (\<lambda>_. Ok [])\<rparr> ref_lib (\<lambda>_. []) (\<lambda>_. []) (\<lambda>_. [])
       \<lparr>pc_node_id = ''node_a'', pc_parse_uri = Err, pc_request = (\<lambda>_ _. None)\<rparr> 0 0) sample_events) (l, ts)"
      and ends: "edge_credit id 1 (session_at 0 (lk_node l)) = 65534 \<and> upload_in_flight id id 0 0 1 l = 2 \<and>
        agent_credit id 1 (ctx_at 0 (lk_agent l)) = 65536"
    have "download_in_flight id id 0 0 1 l = 0"
      using link_conserves_credit [OF ref_rt.session_runtime_axioms ref_ar.agent_services_axioms fresh run, of 1] ends by simp
    with run ends show ?thesis by blast
  qed
qed

end
