(* ===== verification/Agent_Orphans.thy ===== *)
theory Agent_Orphans
  imports Agent_Requests
begin

text \<open>
  What becomes of the requests an agent is serving when its session ends. The read loop returns and the agent reconnects, with
  a new context; the tasks of the old one go on without a reader that could bring them credit or close their stream.
\<close>

section \<open>After the end of a session\<close>

datatype orphan_event =
    StillServes nat stream_open
  | TakesFrame
  | LosesQueue
  | ServiceReads nat
  | ServiceAnswers nat "(local_response, string) result"
  | Reconnects "connection list" u32

fun orphan_task ::
    "('m, 'qo, 'qb, 'e) agent_runtime \<Rightarrow> http_lib \<Rightarrow> request_lib \<Rightarrow> (status \<Rightarrow> string) \<Rightarrow> process_env \<Rightarrow> agent_options \<Rightarrow> nat \<Rightarrow>
     orphan_event \<Rightarrow> (('m, 'qo, 'qb, 'e) agent, unit) task" where
  "orphan_task R lib L show_status env opts i (StillServes b req) = on_ctx i (serve_stream R lib L b req)"
| "orphan_task R lib L show_status env opts i TakesFrame = on_ctx i (take_frame R)"
| "orphan_task R lib L show_status env opts i LosesQueue =
     on_ctx i (update (\<lambda>c. c\<lparr>ctx_outbound := chan_drop_rx (ar_out R) (ctx_outbound c)\<rparr>))"
| "orphan_task R lib L show_status env opts i (ServiceReads b) =
     on_ctx i (await (\<lambda>c. map_option (\<lambda>(q, _). (set_state b (\<lambda>st. st\<lparr>ss_body := q\<rparr>) c, ())) (chan_recv (ar_body R) (ss_body (ctx_heap c ! b)))))"
| "orphan_task R lib L show_status env opts i (ServiceAnswers b answer) =
     on_ctx i (update (set_state b (\<lambda>st. st\<lparr>ss_answer := Some answer\<rparr>)))"
| "orphan_task R lib L show_status env opts i (Reconnects conns attempt) =
     call (agent_run R lib L show_status env opts conns attempt) (\<lambda>_. Return ())"

definition about_others :: "u64 \<Rightarrow> nat \<Rightarrow> orphan_event \<Rightarrow> bool" where
  "about_others sid a ev = (case ev of StillServes b req \<Rightarrow> b \<noteq> a \<and> so_stream_id req \<noteq> sid | _ \<Rightarrow> True)"

text \<open>A stream in the table whose credit and whose senders are as they were.\<close>

definition orphaned :: "('qb \<Rightarrow> local_frame chan_view) \<Rightarrow> u64 \<Rightarrow> nat \<Rightarrow> 'm \<Rightarrow> nat \<Rightarrow> ('m, 'qo, 'qb) session_ctx \<Rightarrow> bool" where
  "orphaned bview sid a m k c \<longleftrightarrow> ctx_streams c sid = Some a \<and> (\<forall>x. ctx_streams c x = Some a \<longrightarrow> x = sid) \<and>
     ss_credit (ctx_heap c ! a) = m \<and> senders (bview (ss_body (ctx_heap c ! a))) = k"

definition orphaned_at :: "('qb \<Rightarrow> local_frame chan_view) \<Rightarrow> nat \<Rightarrow> u64 \<Rightarrow> nat \<Rightarrow> 'm \<Rightarrow> nat \<Rightarrow> ('m, 'qo, 'qb, 'e) agent \<Rightarrow> bool" where
  "orphaned_at bview i sid a m k w \<longleftrightarrow> has_ctx i w \<and> orphaned bview sid a m k (ctx_at i w)"

named_theorems orphan_intros \<open>tasks that leave an orphaned stream alone\<close>

lemma orphaned_outbound [simp]: "orphaned bview sid a m k (c\<lparr>ctx_outbound := q\<rparr>) = orphaned bview sid a m k c"
  by (simp add: orphaned_def)

lemma orphaned_elsewhere: "b \<noteq> a \<Longrightarrow> orphaned bview sid a m k (set_state b f c) = orphaned bview sid a m k c"
  by (simp add: orphaned_def)

lemma orphaned_set_state:
  "orphaned bview sid a m k c \<Longrightarrow> (\<And>st. ss_credit (f st) = ss_credit st \<and> ss_body (f st) = ss_body st) \<Longrightarrow>
   orphaned bview sid a m k (set_state b f c)"
  by (cases "b < length (ctx_heap c)") (auto simp: orphaned_def set_state_def nth_list_update list_update_beyond)

lemma orphaned_at_elsewhere: "j \<noteq> i \<Longrightarrow> orphaned_at bview i sid a m k (set_ctx j c w) = orphaned_at bview i sid a m k w"
  by (simp add: orphaned_at_def has_ctx_def ctx_at_def set_ctx_def)

text \<open>A task that can take no step while the invariant holds is where it was.\<close>

lemma pool_parked:
  assumes "pool_step\<^sup>*\<^sup>* (s, ts) (s', ts')" "I s" "\<forall>t \<in> set ts. keeps I t"
    and "j < length ts" "ts ! j = Step f" "\<And>s. I s \<Longrightarrow> f s = None"
  shows "I s' \<and> (\<forall>t \<in> set ts'. keeps I t) \<and> j < length ts' \<and> ts' ! j = Step f"
  using assms(1)
proof (induction "(s', ts')" arbitrary: s' ts' rule: rtranclp_induct)
  case (step y)
  obtain s1 ts1 where y: "y = (s1, ts1)" by force
  with step have IH: "I s1" "\<forall>t \<in> set ts1. keeps I t" "j < length ts1" "ts1 ! j = Step f" by auto
  moreover have "j < length ts' \<and> ts' ! j = Step f"
    using step(2) [unfolded y] IH assms(6) by (cases rule: pool_step.cases) (auto simp: nth_list_update nth_append)
  ultimately show ?case using pool_step_keeps [OF step(2) [unfolded y], of I] by simp
qed (use assms in simp)

context agent_services
begin

abbreviation "leaves sid a m k \<equiv> keeps (orphaned bview sid a m k)"

lemma leaves_basic [orphan_intros]:
  "leaves sid a m k (ctx_send R payload)" "leaves sid a m k (take_frame R)"
  "leaves sid a m k (update (\<lambda>c. c\<lparr>ctx_outbound := chan_drop_rx (ar_out R) (ctx_outbound c)\<rparr>))"
  "leaves sid a m k (update (set_state b (\<lambda>st. st\<lparr>ss_answer := answer\<rparr>)))"
  unfolding ctx_send_def take_frame_def
  by (auto intro!: keeps_await keeps_update orphaned_set_state split: poll.splits)

lemma leaves_local_read [orphan_intros]:
  "leaves sid a m k (await (\<lambda>c. map_option (\<lambda>(q, _). (set_state b (\<lambda>st. st\<lparr>ss_body := q\<rparr>) c, ())) (chan_recv (ar_body R) (ss_body (ctx_heap c ! b)))))"
proof (rule keeps_await, goal_cases)
  case (1 c c' x)
  then obtain q item where q: "chan_recv (ar_body R) (ss_body (ctx_heap c ! b)) = Some (q, item)" "c' = set_state b (\<lambda>st. st\<lparr>ss_body := q\<rparr>) c"
    by auto
  have "senders (bview q) = senders (bview (ss_body (ctx_heap c ! b)))" using bod.recv_senders [OF q(1)] .
  then show ?case
    using 1(1) q(2) by (cases "b < length (ctx_heap c)") (auto simp: orphaned_def set_state_def nth_list_update list_update_beyond)
qed

lemma leaves_drop_stream [orphan_intros]:
  assumes "x \<noteq> sid"
  shows "leaves sid a m k (drop_stream R x)"
  unfolding drop_stream_def
proof (rule keeps_update, goal_cases)
  case (1 c)
  show ?case
  proof (cases "ctx_streams c x")
    case (Some b)
    then have "b \<noteq> a" using 1 assms by (auto simp: orphaned_def)
    with 1 Some assms show ?thesis by (simp add: orphaned_def)
  qed (use 1 in simp)
qed

lemma leaves_other [orphan_intros]:
  assumes "b \<noteq> a"
  shows "leaves sid a m k (draw_credit R b n)" "leaves sid a m k (call_local_service b request)" "leaves sid a m k (drop_local_receiver R b)"
  unfolding draw_credit_def call_local_service_def drop_local_receiver_def
  using assms by (auto intro!: keeps_await keeps_call keeps_update simp: orphaned_elsewhere split: poll.splits)

lemma leaves_agent_reset [orphan_intros]: "leaves sid a m k (agent_reset R x code message)"
  unfolding agent_reset_def by (auto intro!: keeps_call orphan_intros)

lemma leaves_relay_body [orphan_intros]:
  assumes "b \<noteq> a" "x \<noteq> sid"
  shows "leaves sid a m k (relay_body R b x trailers frames)"
proof -
  have "leaves sid a m k (send_frames R b x cs)" for cs
    by (induction cs) (auto intro!: keeps_call orphan_intros assms(1))
  then show ?thesis
    by (induction frames arbitrary: trailers)
      (auto intro!: keeps_call orphan_intros assms(2) simp: send_payload_frames split: result.split body_frame.split)
qed

lemma leaves_serve_stream [orphan_intros]:
  "b \<noteq> a \<Longrightarrow> so_stream_id req \<noteq> sid \<Longrightarrow> leaves sid a m k (serve_stream R lib L b req)"
  unfolding serve_stream_def Let_def by (auto intro!: keeps_call keeps_read orphan_intros split: option.split result.split)

text \<open>The other sessions of the agent, and its reconnect loop.\<close>

abbreviation "spares i sid a m k \<equiv> keeps (orphaned_at bview i sid a m k)"

lemma spares_on_ctx: "leaves sid a m k t \<Longrightarrow> spares i sid a m k (on_ctx i t)"
  unfolding on_ctx_def orphaned_at_def by (rule keeps_zoom) simp_all

lemma spares_elsewhere:
  assumes "j \<noteq> i"
  shows "spares i sid a m k (on_ctx j t)"
  unfolding on_ctx_def
proof (induction t rule: task_induct)
  case (Step f)
  then show ?case unfolding zoom.simps using assms by (auto intro!: keeps.Step simp: orphaned_at_elsewhere)
qed (auto intro: keeps.Spawn)

lemma spares_emit: "spares i sid a m k (emit R event)"
  unfolding emit_def by (rule keeps_await) (auto simp: orphaned_at_def has_ctx_def ctx_at_def split: poll.splits)

lemma spares_loop:
  assumes "j \<noteq> i"
  shows "spares i sid a m k (agent_loop R lib L show_status j items)"
proof -
  have "spares i sid a m k (handle_server_frame R lib L j now payload)" for now payload
    unfolding handle_server_frame_def
    by (cases payload) (auto intro!: keeps_call keeps_spawn keeps_read spares_emit spares_elsewhere assms)
  then show ?thesis
    by (induction items) (auto intro!: keeps_call keeps_await split: agent_input.split option.split if_splits)
qed

lemma spares_session: "spares i sid a m k (agent_session R lib L show_status env opts conn)"
  unfolding agent_session_def
proof (cases "cn_connect conn", goal_cases)
  case (1 u)
  then show ?case
    by (auto intro!: keeps_atomically_then keeps_call spares_elsewhere spares_loop
        simp: orphaned_at_def has_ctx_def ctx_at_def nth_append split: result.split)
qed simp

lemma spares_run: "spares i sid a m k (agent_run R lib L show_status env opts conns attempt)"
proof (induction conns arbitrary: attempt)
  case (Cons conn conns)
  then show ?case
    unfolding agent_run.simps sleep_or_shutdown_def
    by (auto intro!: keeps_call keeps_read keeps_await spares_session spares_emit split: next_move.split result.split session_error.split if_splits)
qed simp

lemma spares_orphan_task: "about_others sid a ev \<Longrightarrow> spares i sid a m k (orphan_task R lib L show_status env opts i ev)"
  by (cases ev) (auto simp: about_others_def intro!: spares_on_ctx orphan_intros keeps_call spares_run)

text \<open>A response that waits for credit.\<close>

lemma relay_waits:
  assumes "permits (sview m) < min (length payload) AGENT_MAX_CHUNK" "\<not> sem_closed (sview m)"
  shows "\<exists>f. on_ctx i (relay_body R a sid trailers (Ok (DataFrame payload) # frames)) = Step f \<and>
    (\<forall>w. orphaned_at bview i sid a m k w \<longrightarrow> f w = None)"
proof -
  let ?n = "unat (u32_saturating (min (length payload) AGENT_MAX_CHUNK))"
  have "?n = min (length payload) AGENT_MAX_CHUNK" by (simp add: unat_u32_saturating AGENT_MAX_CHUNK_def)
  then have "sem_acquire (ar_sem R) m ?n = NotReady" using assms sem.acquire_waits by simp
  moreover have "payload \<noteq> []" using assms(1) by auto
  ultimately show ?thesis
    by (simp add: on_ctx_def send_payload.simps Let_def draw_credit_def await_def orphaned_at_def orphaned_def)
qed

lemma stays_orphaned:
  assumes "permits (sview m) < min (length payload) AGENT_MAX_CHUNK" "\<not> sem_closed (sview m)" "orphaned_at bview i sid a m k w"
    and "list_all (about_others sid a) evs"
    and "pool_step\<^sup>*\<^sup>* (w, on_ctx i (relay_body R a sid trailers (Ok (DataFrame payload) # frames)) #
      map (orphan_task R lib L show_status env opts i) evs) (w', ts)"
  shows "orphaned_at bview i sid a m k w'" "ts ! 0 = on_ctx i (relay_body R a sid trailers (Ok (DataFrame payload) # frames))"
proof -
  let ?t = "on_ctx i (relay_body R a sid trailers (Ok (DataFrame payload) # frames)) :: (('m, 'qo, 'qb, 'e) agent, unit) task"
  obtain f where f: "?t = Step f" "\<forall>w. orphaned_at bview i sid a m k w \<longrightarrow> f w = None"
    using relay_waits [OF assms(1,2)] by blast
  have "keeps (orphaned_at bview i sid a m k) (Step f)" by (rule keeps.Step) (simp add: f(2))
  then have "orphaned_at bview i sid a m k w' \<and> (\<forall>t \<in> set ts. keeps (orphaned_at bview i sid a m k) t) \<and> 0 < length ts \<and> ts ! 0 = Step f"
    by (intro pool_parked [where I = "orphaned_at bview i sid a m k", OF assms(5,3)]) (use assms(4) f in \<open>auto simp: list_all_iff intro: spares_orphan_task\<close>)
  with f(1) show "orphaned_at bview i sid a m k w'" "ts ! 0 = ?t" by simp_all
qed

end

section \<open>Property\<close>

text \<open>C36. The end of a session strands the requests it was serving. When the edge ends the session, or the connection breaks, the agent's read loop returns
  and leaves the context of the session as it is: unlike the edge it closes no stream. A task that waits for credit to send the rest of a response then waits
  for ever: in every interleaving with the other requests of that session, the transport, the local service and the agent's reconnect
  loop with all its later sessions, the task is where it was, its stream is in the table with the same credit, and the senders of its request body
  are those it had, so that a body that had not ended never does.\<close>

theorem session_end_strands_streams:
  fixes R :: "('a, 'b, 'c, 'd) agent_runtime"
  assumes "agent_services R sview oview bview eview" "has_ctx i w" "ctx_streams (ctx_at i w) sid = Some a"
    and "\<forall>x. ctx_streams (ctx_at i w) x = Some a \<longrightarrow> x = sid"
    and "\<not> sem_closed (sview (ss_credit (ctx_heap (ctx_at i w) ! a)))" "state_credit sview a (ctx_at i w) < min (length payload) AGENT_MAX_CHUNK"
    and "list_all (about_others sid a) evs" "ending = [] \<or> ending = [(InError status, now)]"
  shows "\<exists>outcome. run (agent_loop R lib L show_status i ending) w = Finished w outcome \<and>
    (\<forall>w' ts. pool_step\<^sup>*\<^sup>* (w, on_ctx i (relay_body R a sid trailers (Ok (DataFrame payload) # frames)) #
        map (orphan_task R lib L show_status env opts i) evs) (w', ts) \<longrightarrow>
      ts ! 0 = on_ctx i (relay_body R a sid trailers (Ok (DataFrame payload) # frames)) \<and> ctx_streams (ctx_at i w') sid = Some a \<and>
      state_credit sview a (ctx_at i w') = state_credit sview a (ctx_at i w) \<and>
      senders (bview (ss_body (ctx_heap (ctx_at i w') ! a))) = senders (bview (ss_body (ctx_heap (ctx_at i w) ! a))))"
proof -
  let ?m = "ss_credit (ctx_heap (ctx_at i w) ! a)" and ?k = "senders (bview (ss_body (ctx_heap (ctx_at i w) ! a)))"
  have "orphaned_at bview i sid a ?m ?k w" unfolding orphaned_at_def orphaned_def using assms(2-4) by blast
  note stays = agent_services.stays_orphaned [OF assms(1) assms(6) [unfolded state_credit_def] assms(5) this assms(7)]
  obtain outcome where out: "run (agent_loop R lib L show_status i ending) w = Finished w outcome" using assms(8) by auto
  have kept: "ctx_streams (ctx_at i v) sid = Some a" "state_credit sview a (ctx_at i v) = state_credit sview a (ctx_at i w)"
    "senders (bview (ss_body (ctx_heap (ctx_at i v) ! a))) = ?k" if "orphaned_at bview i sid a ?m ?k v" for v :: "('a, 'b, 'c, 'd) agent"
    using that unfolding orphaned_at_def orphaned_def state_credit_def by metis+
  show ?thesis
    by (intro exI [of _ outcome] conjI allI impI out, erule stays(2), (rule kept, erule stays(1))+)
qed

theorem session_end_strands_streams_witness:
  "\<exists>outcome w ts. run (agent_loop ref_agent_runtime ref_http ref_lib status_message 0 []) (stranded_agent\<lparr>ag_ctxs := [sample_ctx]\<rparr>) =
      Finished (stranded_agent\<lparr>ag_ctxs := [sample_ctx]\<rparr>) outcome \<and>
     pool_step\<^sup>*\<^sup>* (stranded_agent\<lparr>ag_ctxs := [sample_ctx]\<rparr>,
       on_ctx 0 (relay_body ref_agent_runtime 0 1 [] [Ok (DataFrame ''abcdefgh'')]) #
       map (orphan_task ref_agent_runtime ref_http ref_lib status_message sample_env sample_options 0) [LosesQueue, Reconnects [refused_connection] 0]) (w, ts) \<and>
     \<not> receiver (ctx_outbound (ctx_at 0 w)) \<and> length (queued (ag_events w)) = 1 \<and>
     ts ! 0 = on_ctx 0 (relay_body ref_agent_runtime 0 1 [] [Ok (DataFrame ''abcdefgh'')]) \<and> senders (ss_body (ctx_heap (ctx_at 0 w) ! 0)) = 1"
proof -
  let ?w = "stranded_agent\<lparr>ag_ctxs := [sample_ctx]\<rparr>" and ?evs = "[LosesQueue, Reconnects [refused_connection] 0]"
  let ?ts = "on_ctx 0 (relay_body ref_agent_runtime 0 1 [] [Ok (DataFrame ''abcdefgh'')]) #
       map (orphan_task ref_agent_runtime ref_http ref_lib status_message sample_env sample_options 0) ?evs"
  have "ends_in [1, 2, 2] ?w ?ts (\<lambda>w ts. \<not> receiver (ctx_outbound (ctx_at 0 w)) \<and> length (queued (ag_events w)) = 1)"
    by (simp add: ends_in_def task_step_def on_ctx_def update_def read_def atomically_def await_def ctx_at_def set_ctx_def emit_def
        agent_session_def refused_connection_def after_session_def sample_options_def stranded_agent_def sample_ctx_simps ref_send_def Let_def)
  then obtain w ts where run: "pool_step\<^sup>*\<^sup>* (?w, ?ts) (w, ts)" and facts: "\<not> receiver (ctx_outbound (ctx_at 0 w))" "length (queued (ag_events w)) = 1"
    by (rule ends_inE) blast
  have start: "has_ctx 0 ?w" "ctx_streams (ctx_at 0 ?w) 1 = Some 0" "\<forall>x. ctx_streams (ctx_at 0 ?w) x = Some 0 \<longrightarrow> x = 1"
    "\<not> sem_closed (id (ss_credit (ctx_heap (ctx_at 0 ?w) ! 0)))" "state_credit id 0 (ctx_at 0 ?w) < min (length ''abcdefgh'') AGENT_MAX_CHUNK"
    "list_all (about_others 1 0) ?evs" "senders (id (ss_body (ctx_heap (ctx_at 0 ?w) ! 0))) = 1"
    by (auto simp: has_ctx_def ctx_at_def sample_ctx_simps state_credit_def AGENT_MAX_CHUNK_def about_others_def split: if_splits)
  from session_end_strands_streams [OF ref_ar.agent_services_axioms start(1-6) disjI1 [OF refl], of ref_http ref_lib status_message "[]" "[]" sample_env sample_options]
  show ?thesis using run facts start(7) by fastforce
qed

end
