(* ===== verification/Agent_Streams.thy ===== *)
theory Agent_Streams
  imports Agent_Properties
begin

text \<open>
  The agent's stream table under concurrency. The read loop registers, feeds, credits and drops streams
  while one task per request serves them; whatever the interleaving, the table stays well-formed.
\<close>

section \<open>What the tasks of a session do to its context\<close>

datatype agent_op =
    OpServe stream_open
  | OpBody stream_data
  | OpCloseBody u64
  | OpDrop u64
  | OpCredit window_update

fun agent_op_task ::
    "('m, 'qo, 'qb, 'e) agent_runtime \<Rightarrow> http_lib \<Rightarrow> request_lib \<Rightarrow> agent_op \<Rightarrow> (('m, 'qo, 'qb) session_ctx, unit) task" where
  "agent_op_task R lib L (OpServe req) = call (register_stream R req) (\<lambda>a. spawn (serve_stream R lib L a req) (Return ()))"
| "agent_op_task R lib L (OpBody data) = on_data R data"
| "agent_op_task R lib L (OpCloseBody sid) = close_request_body R sid"
| "agent_op_task R lib L (OpDrop sid) = drop_stream R sid"
| "agent_op_task R lib L (OpCredit upd) = on_window R upd"

text \<open>The table's entries exist, no two identifiers share one, and their credit is open.\<close>

definition ctx_ok :: "('m \<Rightarrow> sem_view) \<Rightarrow> ('m, 'qo, 'qb) session_ctx \<Rightarrow> bool" where
  "ctx_ok sview c \<longleftrightarrow> inj_on (ctx_streams c) (dom (ctx_streams c)) \<and>
     (\<forall>a \<in> ran (ctx_streams c). a < length (ctx_heap c) \<and> \<not> sem_closed (sview (ss_credit (ctx_heap c ! a))))"

section \<open>Preservation\<close>

lemma ctx_ok_set_state:
  assumes "ctx_ok sview c" "\<And>st. sem_closed (sview (ss_credit (f st))) \<Longrightarrow> sem_closed (sview (ss_credit st))"
  shows "ctx_ok sview (set_state a f c)"
proof -
  have "\<not> sem_closed (sview (ss_credit (ctx_heap (set_state a f c) ! b)))" if "b \<in> ran (ctx_streams c)" for b
    using assms that by (cases "b = a") (auto simp: ctx_ok_def)
  then show ?thesis using assms(1) by (simp add: ctx_ok_def)
qed

lemma ctx_ok_outbound [simp]: "ctx_ok sview (c\<lparr>ctx_outbound := q\<rparr>) = ctx_ok sview c"
  by (simp add: ctx_ok_def)

lemma ctx_ok_drop:
  assumes "ctx_ok sview c" "ctx_streams c sid = Some a"
  shows "ctx_ok sview ((set_state a f c)\<lparr>ctx_streams := (ctx_streams c)(sid := None)\<rparr>)"
proof -
  have other: "b \<noteq> a" "b \<in> ran (ctx_streams c)" if in_ran: "b \<in> ran ((ctx_streams c)(sid := None))" for b
  proof -
    obtain sid' where "sid' \<noteq> sid" "ctx_streams c sid' = Some b" using in_ran by (auto simp: ran_def split: if_splits)
    with assms show "b \<noteq> a" "b \<in> ran (ctx_streams c)" by (auto simp: ctx_ok_def inj_on_def ran_def dom_def)
  qed
  have "inj_on ((ctx_streams c)(sid := None)) (dom ((ctx_streams c)(sid := None)))"
    using assms(1) by (auto simp: ctx_ok_def inj_on_def dom_def)
  with assms(1) other show ?thesis by (simp add: ctx_ok_def)
qed

lemma ctx_ok_register:
  assumes "ctx_ok sview c" "\<not> sem_closed (sview (ss_credit st))" "length (ctx_heap c') = length (ctx_heap c)"
    "\<And>b. b \<in> ran (ctx_streams c) \<Longrightarrow> ss_credit (ctx_heap c' ! b) = ss_credit (ctx_heap c ! b)"
  shows "ctx_ok sview (c'\<lparr>ctx_heap := ctx_heap c' @ [st], ctx_streams := (ctx_streams c)(sid \<mapsto> length (ctx_heap c))\<rparr>)"
proof -
  let ?m = "(ctx_streams c)(sid \<mapsto> length (ctx_heap c))"
  have valid: "a < length (ctx_heap c)" if "ctx_streams c x = Some a" for x a
    using assms(1) that by (auto simp: ctx_ok_def ran_def)
  then have fresh: "length (ctx_heap c) \<notin> ran (ctx_streams c)" by (auto simp: ran_def)
  have "inj_on ?m (dom ?m)"
    using assms(1) valid by (fastforce simp: ctx_ok_def inj_on_def dom_def split: if_splits)
  moreover have "b < length (ctx_heap c' @ [st]) \<and> \<not> sem_closed (sview (ss_credit ((ctx_heap c' @ [st]) ! b)))" if "b \<in> ran ?m" for b
  proof (cases "b = length (ctx_heap c)")
    case True
    then show ?thesis using assms(2,3) by (simp add: nth_append)
  next
    case False
    then have "b \<in> ran (ctx_streams c)" using that by (auto simp: ran_def split: if_splits)
    then show ?thesis using assms(1,3,4) by (auto simp: ctx_ok_def nth_append)
  qed
  ultimately show ?thesis by (simp add: ctx_ok_def)
qed

context agent_services
begin

abbreviation "ok_ctx \<equiv> ctx_ok sview"

lemma keeps_ctx_send: "keeps ok_ctx (ctx_send R payload)"
  unfolding ctx_send_def by (rule keeps_await) (auto split: poll.splits)

lemma keeps_set_state:
  "(\<And>st. sem_closed (sview (ss_credit (f st))) \<Longrightarrow> sem_closed (sview (ss_credit st))) \<Longrightarrow> keeps ok_ctx (update (set_state a f))"
  by (rule keeps_update) (rule ctx_ok_set_state)

lemma keeps_drop_stream: "keeps ok_ctx (drop_stream R sid)"
  unfolding drop_stream_def by (rule keeps_update) (auto split: option.split intro: ctx_ok_drop)

lemma keeps_close_request_body: "keeps ok_ctx (close_request_body R sid)"
  unfolding close_request_body_def
  by (rule keeps_update) (auto split: option.split intro!: ctx_ok_set_state simp: drop_body_tx_def)

lemma keeps_register_stream: "keeps ok_ctx (register_stream R req)"
  unfolding register_stream_def
proof (rule keeps_atomically, goal_cases)
  case (1 c)
  let ?c1 = "case ctx_streams c (so_stream_id req) of None \<Rightarrow> c | Some b \<Rightarrow> set_state b (drop_body_tx R) c"
  have "unat (so_initial_window req) \<le> MAX_PERMITS" using unsigned_less [where ?'a = nat and w = "so_initial_window req"] by (simp add: MAX_PERMITS_def)
  then have "\<not> sem_closed (sview (ss_credit (fresh_state R (so_initial_window req))))" by (simp add: fresh_state_def sem.sem_new_law)
  moreover have "length (ctx_heap ?c1) = length (ctx_heap c)" by (simp split: option.split)
  moreover have "ss_credit (ctx_heap ?c1 ! b) = ss_credit (ctx_heap c ! b)" if "b \<in> ran (ctx_streams c)" for b
  proof -
    have "x < length (ctx_heap c)" if "ctx_streams c (so_stream_id req) = Some x" for x
      using 1 that by (auto simp: ctx_ok_def ran_def)
    then show ?thesis by (auto simp: set_state_def drop_body_tx_def nth_list_update split: option.split)
  qed
  ultimately have "ok_ctx (?c1\<lparr>ctx_heap := ctx_heap ?c1 @ [fresh_state R (so_initial_window req)],
      ctx_streams := (ctx_streams c)(so_stream_id req \<mapsto> length (ctx_heap c))\<rparr>)"
    by (rule ctx_ok_register [OF 1])
  then show ?case by (simp add: Let_def)
qed

lemma keeps_draw_credit: "keeps ok_ctx (draw_credit R a n)"
  unfolding draw_credit_def
proof (rule keeps_await, goal_cases)
  case (1 c c' ok)
  show ?case
  proof (cases "sem_acquire (ar_sem R) (ss_credit (ctx_heap c ! a)) n")
    case (Ready m)
    then have "\<not> sem_closed (sview m)" using sem.acquire_Ready by force
    then show ?thesis using 1 Ready by (auto intro!: ctx_ok_set_state)
  qed (use 1 in auto)
qed

lemma keeps_send_frames: "keeps ok_ctx (send_frames R a sid cs)"
  by (induction cs) (auto intro!: keeps_call keeps_draw_credit keeps_ctx_send)

lemma keeps_agent_reset: "keeps ok_ctx (agent_reset R sid code message)"
  unfolding agent_reset_def by (auto intro!: keeps_call keeps_ctx_send)

lemma keeps_relay_body: "keeps ok_ctx (relay_body R a sid trailers frames)"
  by (induction frames arbitrary: trailers)
    (auto intro!: keeps_call keeps_ctx_send keeps_drop_stream keeps_agent_reset keeps_send_frames simp: send_payload_frames
      split: result.split body_frame.split)

lemma keeps_call_local_service: "keeps ok_ctx (call_local_service a request)"
  unfolding call_local_service_def by (intro keeps_call keeps_set_state keeps_await) auto

lemma keeps_drop_local_receiver: "keeps ok_ctx (drop_local_receiver R a)"
  unfolding drop_local_receiver_def by (rule keeps_set_state) simp

lemma keeps_serve_stream: "keeps ok_ctx (serve_stream R lib L a req)"
  unfolding serve_stream_def Let_def
  by (auto intro!: keeps_call keeps_agent_reset keeps_drop_stream keeps_drop_local_receiver keeps_read keeps_call_local_service
      keeps_ctx_send keeps_relay_body split: option.split result.split)

lemma keeps_on_data: "keeps ok_ctx (on_data R data)"
proof -
  have "keeps ok_ctx (body_sender R sid)" for sid
    unfolding body_sender_def by (rule keeps_atomically) (auto split: option.split intro!: ctx_ok_set_state)
  moreover have "keeps ok_ctx (local_send R tx frame)" for tx frame
    unfolding local_send_def by (cases tx) (auto intro!: keeps_await ctx_ok_set_state split: poll.splits)
  moreover have "keeps ok_ctx (drop_local_sender R tx)" for tx
    unfolding drop_local_sender_def by (cases tx) (auto intro!: keeps_set_state)
  ultimately show ?thesis
    unfolding on_data_def by (auto intro!: keeps_call keeps_ctx_send keeps_drop_stream split: option.split)
qed

lemma keeps_on_window: "keeps ok_ctx (on_window R upd)"
  unfolding on_window_def
proof (rule keeps_access, goal_cases)
  case (1 c c' x)
  show ?case
  proof (cases "ctx_streams c (wu_stream_id upd)")
    case (Some a)
    with 1 obtain m where m: "sem_add (ar_sem R) (ss_credit (ctx_heap c ! a)) (unat (wu_increment upd)) = Some m"
      "c' = set_state a (\<lambda>st. st\<lparr>ss_credit := m\<rparr>) c" by (auto split: option.splits)
    have "\<not> sem_closed (sview (ss_credit (ctx_heap c ! a)))" using 1(1) Some by (auto simp: ctx_ok_def ran_def)
    then have "\<not> sem_closed (sview m)" using sem.add_Some [OF m(1)] by simp
    then show ?thesis using 1(1) m(2) by (auto intro!: ctx_ok_set_state)
  qed (use 1 in auto)
qed

lemma keeps_agent_op_task: "keeps ok_ctx (agent_op_task R lib L op)"
  by (cases op) (auto intro!: keeps_call keeps_register_stream keeps.Spawn keeps_serve_stream keeps_on_data keeps_close_request_body
      keeps_drop_stream keeps_on_window simp: spawn_def)

end

section \<open>Property\<close>

text \<open>C21. The agent's stream table is well-formed at every moment. Start from a context without streams, as
  a new session has it, and let any number of frames be handled and requests be served in any
  interleaving of their steps, with identifiers repeated or unknown as the edge pleases: every identifier in the table
  names a stream that exists, no two identifiers name the same one, and its credit is open, so that a task
  that waits on a closed credit always belongs to a stream that has left the table.\<close>

theorem agent_table_well_formed:
  assumes "agent_services R sview oview bview eview"
    and "pool_step\<^sup>*\<^sup>* (new_ctx R opts, map (agent_op_task R lib L) ops) (c, ts)"
  shows "inj_on (ctx_streams c) (dom (ctx_streams c)) \<and>
    (\<forall>a \<in> ran (ctx_streams c). a < length (ctx_heap c) \<and> \<not> sem_closed (sview (ss_credit (ctx_heap c ! a))))"
proof -
  have "ctx_ok sview (new_ctx R opts)" by (simp add: ctx_ok_def new_ctx_def)
  with pool_keeps [OF assms(2), of "ctx_ok sview"] agent_services.keeps_agent_op_task [OF assms(1)] show ?thesis
    by (simp add: ctx_ok_def)
qed

theorem agent_table_well_formed_witness:
  "\<exists>c ts. schedule [0, 1] (new_ctx ref_agent_runtime sample_options) (map (agent_op_task ref_agent_runtime ref_http ref_lib)
      [OpServe sample_open, OpServe sample_open]) = Some (c, ts) \<and> ctx_streams c 1 = Some 1 \<and> (\<forall>a \<in> ran (ctx_streams c). a < length (ctx_heap c))"
proof -
  obtain c ts where s: "schedule [0, 1] (new_ctx ref_agent_runtime sample_options) (map (agent_op_task ref_agent_runtime ref_http ref_lib)
      [OpServe sample_open, OpServe sample_open]) = Some (c, ts)" "ctx_streams c 1 = Some 1"
    by (simp add: register_stream_def Let_def new_ctx_def sample_open_def set_state_def)
  with agent_table_well_formed [OF ref_ar.agent_services_axioms schedule_pool [OF s(1)]] show ?thesis by blast
qed

end
