(* ===== verification/Agent_Main.thy ===== *)
theory Agent_Main
  imports Agent_Properties
begin

text \<open>
  \<open>norupo-client/src/main.rs\<close>: the agent's process. It runs the agent and a task that prints its events until the agent ends or
  the interrupt comes. The connections of the agent and the number of events that are printed are arguments, the draw of
  the final \<open>select!\<close> too; flags are parsed by \<open>clap\<close>.
\<close>

section \<open>Model\<close>

record ('m, 'qo, 'qb, 'e) console =
  cs_agent :: "('m, 'qo, 'qb, 'e) agent"
  cs_result :: "(unit, string) result option"
  cs_ctrl_c :: "(unit, string) result option"
  cs_printed :: "printed list"

definition on_agent :: "(('m, 'qo, 'qb, 'e) agent, 'x) task \<Rightarrow> (('m, 'qo, 'qb, 'e) console, 'x) task" where
  "on_agent = zoom cs_agent (\<lambda>w c. c\<lparr>cs_agent := w\<rparr>)"

definition print_lines :: "printed list \<Rightarrow> (('m, 'qo, 'qb, 'e) console, unit) task" where
  "print_lines ls = update (\<lambda>c. c\<lparr>cs_printed := cs_printed c @ ls\<rparr>)"

text \<open>The printing task, for the given number of events.\<close>

primrec render_loop :: "('m, 'qo, 'qb, 'e) agent_runtime \<Rightarrow> string \<Rightarrow> nat \<Rightarrow> (('m, 'qo, 'qb, 'e) console, unit) task" where
  "render_loop R forward 0 = Halt"
| "render_loop R forward (Suc n) =
     call (on_agent (await (\<lambda>w. map_option (\<lambda>(q, event). (w\<lparr>ag_events := q\<rparr>, event)) (chan_recv (ar_events R) (ag_events w)))))
       (\<lambda>event. case event of
          None \<Rightarrow> Return ()
        | Some e \<Rightarrow> call (print_lines (render_event forward e)) (\<lambda>_. render_loop R forward n))"

datatype finish = AgentEnded "(unit, string) result" | Interrupted "(unit, string) result"

definition await_finish :: "bool \<Rightarrow> (('m, 'qo, 'qb, 'e) console, finish) task" where
  "await_finish agent_first = await (\<lambda>c. case (cs_result c, cs_ctrl_c c) of
     (None, None) \<Rightarrow> None
   | (Some res, None) \<Rightarrow> Some (c, AgentEnded res)
   | (None, Some signal) \<Rightarrow> Some (c, Interrupted signal)
   | (Some res, Some signal) \<Rightarrow> Some (c, if agent_first then AgentEnded res else Interrupted signal))"

definition run_agent ::
    "('m, 'qo, 'qb, 'e) agent_runtime \<Rightarrow> http_lib \<Rightarrow> request_lib \<Rightarrow> (status \<Rightarrow> string) \<Rightarrow> process_env \<Rightarrow> connection list \<Rightarrow> nat \<Rightarrow> bool \<Rightarrow>
     agent_options \<Rightarrow> (('m, 'qo, 'qb, 'e) console, (unit, string) result) task" where
  "run_agent R lib L show_status env conns events agent_first opts =
     call (on_agent (update (\<lambda>w. w\<lparr>ag_ctxs := [], ag_events := chan_new (ar_events R) 64, ag_shutdown := False\<rparr>))) (\<lambda>_.
     spawn (render_loop R (opt_forward_addr opts) events)
      (spawn (call (on_agent (agent_run R lib L show_status env opts conns 0)) (\<lambda>res. update (\<lambda>c. c\<lparr>cs_result := Some res\<rparr>)))
        (call (await_finish agent_first) (\<lambda>finish. case finish of
           AgentEnded res \<Rightarrow> Return res
         | Interrupted (Err e) \<Rightarrow> Return (Err e)
         | Interrupted (Ok _) \<Rightarrow>
             call (print_lines [Out [], Out ''shutting down'']) (\<lambda>_.
             call (on_agent (update (\<lambda>w. w\<lparr>ag_shutdown := True\<rparr>))) (\<lambda>_. Return (Ok ())))))))"

definition doctor ::
    "(status \<Rightarrow> string) \<Rightarrow> (string \<Rightarrow> (unit, string) result) \<Rightarrow> (string \<Rightarrow> (health_response, status) result) \<Rightarrow> string \<Rightarrow>
     (('m, 'qo, 'qb, 'e) console, (unit, string) result) task" where
  "doctor show_status connect health server =
     call (print_lines [Out (''checking '' @ server @ '' ...'')]) (\<lambda>_.
     case connect server of
       Err e \<Rightarrow> Return (Err e)
     | Ok _ \<Rightarrow>
         (case health server of
            Err status \<Rightarrow> Return (Err (show_status status))
          | Ok h \<Rightarrow> call (print_lines (doctor_report h)) (\<lambda>_. Return (Ok ()))))"

definition client_main ::
    "('m, 'qo, 'qb, 'e) agent_runtime \<Rightarrow> http_lib \<Rightarrow> request_lib \<Rightarrow> (status \<Rightarrow> string) \<Rightarrow> process_env \<Rightarrow>
     (string \<Rightarrow> (unit, string) result) \<Rightarrow> (string \<Rightarrow> (health_response, status) result) \<Rightarrow> connection list \<Rightarrow> nat \<Rightarrow> bool \<Rightarrow> cli \<Rightarrow>
     (('m, 'qo, 'qb, 'e) console, (unit, string) result) task" where
  "client_main R lib L show_status env connect health conns events agent_first cli =
     (case cli_command cli of
        Doctor \<Rightarrow> doctor show_status connect health (cli_server cli)
      | Http args \<Rightarrow>
          (case main_options cli args of
             Err e \<Rightarrow> Return (Err e)
           | Ok opts \<Rightarrow> run_agent R lib L show_status env conns events agent_first opts))"

section \<open>Lemmas\<close>

lemma run_on_agent:
  "run (on_agent m) c = (case run m (cs_agent c) of
     Finished w x \<Rightarrow> Finished (c\<lparr>cs_agent := w\<rparr>) x | Blocked w t \<Rightarrow> Blocked (c\<lparr>cs_agent := w\<rparr>) (on_agent t)
   | Panicked w e \<Rightarrow> Panicked (c\<lparr>cs_agent := w\<rparr>) e | Halted w \<Rightarrow> Halted (c\<lparr>cs_agent := w\<rparr>))"
  unfolding on_agent_def by (rule run_zoom [where ok = "\<lambda>_. True"]) simp_all

lemma run_print_lines [simp]: "run (print_lines ls) c = Finished (c\<lparr>cs_printed := cs_printed c @ ls\<rparr>) ()"
  by (simp add: print_lines_def)

text \<open>Events are printed in the order in which the agent has sent them, each once.\<close>

context agent_services
begin

lemma run_render_loop:
  assumes "queued (eview (ag_events (cs_agent c))) = evs @ rest"
  shows "\<exists>q. run (render_loop R forward (length evs)) c = Halted (c\<lparr>cs_agent := (cs_agent c)\<lparr>ag_events := q\<rparr>,
      cs_printed := cs_printed c @ concat (map (render_event forward) evs)\<rparr>) \<and> queued (eview q) = rest"
  using assms
proof (induction evs arbitrary: c)
  case Nil
  have "c\<lparr>cs_agent := (cs_agent c)\<lparr>ag_events := ag_events (cs_agent c)\<rparr>, cs_printed := cs_printed c @ []\<rparr> = c" by (cases c) simp
  with Nil show ?case by (intro exI [of _ "ag_events (cs_agent c)"]) simp
next
  case (Cons e evs)
  obtain q where q: "chan_recv (ar_events R) (ag_events (cs_agent c)) = Some (q, Some e)" "queued (eview q) = evs @ rest"
    using evs.recv_item [of "ag_events (cs_agent c)" e "evs @ rest"] Cons.prems by auto
  let ?c = "c\<lparr>cs_agent := (cs_agent c)\<lparr>ag_events := q\<rparr>, cs_printed := cs_printed c @ render_event forward e\<rparr>"
  have "run (render_loop R forward (length (e # evs))) c = run (render_loop R forward (length evs)) ?c"
    using q(1) by (simp add: run_call run_on_agent)
  with Cons.IH [of ?c] q(2) show ?case by auto
qed

end

text \<open>The process ends with what the agent returned, or, interrupted, tells the agent to stop and ends without an error.\<close>

lemma run_run_agent:
  assumes "cs_result c = None" "cs_ctrl_c c = None"
  obtains c1 t where "run (run_agent R lib L show_status env conns events agent_first opts) c = Blocked c1 t"
    "\<And>c2 res. cs_result c2 = Some res \<Longrightarrow> cs_ctrl_c c2 = None \<Longrightarrow> run t c2 = Finished c2 res"
    "\<And>c2. cs_result c2 = None \<Longrightarrow> cs_ctrl_c c2 = Some (Ok ()) \<Longrightarrow> run t c2 = Finished (c2\<lparr>cs_agent := (cs_agent c2)\<lparr>ag_shutdown := True\<rparr>,
       cs_printed := cs_printed c2 @ [Out [], Out ''shutting down'']\<rparr>) (Ok ())"
  using assms by (simp add: run_agent_def run_call run_on_agent await_finish_def)

end
