(* ===== verification/Lease_Spec.thy ===== *)
theory Lease_Spec
  imports Redis
begin

text \<open>
  The routing table as its users think of it: a book of leases. Each entry has a record and the time at
  which it lapses; what has lapsed is not there. A claim is granted when nobody else holds the key,
  renewing and releasing is the holder's alone, looking up changes nothing. Where the clock is read
  while an operation runs the expiry is only bounded. The specification says which answers and which
  books an operation may lead to; a network in between may lose a request or a reply.

  Any history of the two implementations, with all the answers they give, is a history of this book.
\<close>

section \<open>The specification\<close>

datatype reply =
    ClaimReply "(claim, error) result"
  | LookupReply "(route_record option, error) result"
  | RenewReply "(bool, error) result"
  | ReleaseReply "(unit, error) result"

fun is_failure :: "reply \<Rightarrow> bool" where
  "is_failure (ClaimReply r) = (\<not> is_ok r)"
| "is_failure (LookupReply r) = (\<not> is_ok r)"
| "is_failure (RenewReply r) = (\<not> is_ok r)"
| "is_failure (ReleaseReply r) = (\<not> is_ok r)"

type_synonym book = "string \<Rightarrow> lease option"

text \<open>The book at time \<open>t\<close>, and who holds a key then.\<close>

definition at_time :: "nat \<Rightarrow> book \<Rightarrow> book" where
  "at_time t b = live id b t"

definition holder :: "nat \<Rightarrow> book \<Rightarrow> string \<Rightarrow> string option" where
  "holder t b k = map_option (\<lambda>(r, _). rr_session r) (at_time t b k)"

inductive lease_step :: "book \<Rightarrow> timed_op \<Rightarrow> reply \<Rightarrow> book \<Rightarrow> bool" where
  granted: "\<lbrakk>holder t b (rr_key r) \<in> {None, Some (rr_session r)}; t + ttl \<le> e; e \<le> t' + ttl + 1\<rbrakk> \<Longrightarrow>
    lease_step b ((t, t'), OpClaim r ttl) (ClaimReply (Ok Acquired)) ((at_time t b)(rr_key r \<mapsto> (r, e)))"
| refused: "\<lbrakk>at_time t b (rr_key r) = Some (r0, e); rr_session r0 \<noteq> rr_session r\<rbrakk> \<Longrightarrow>
    lease_step b ((t, t'), OpClaim r ttl) (ClaimReply (Ok (Taken r0))) (at_time t b)"
| lookup: "lease_step b ((t, t'), OpLookup k) (LookupReply (Ok (map_option fst (at_time t b k)))) (at_time t b)"
| renewed: "\<lbrakk>at_time t b k = Some (r, e0); rr_session r = sid; t + ttl \<le> e; e \<le> t' + ttl + 1\<rbrakk> \<Longrightarrow>
    lease_step b ((t, t'), OpRenew k sid ttl) (RenewReply (Ok True)) ((at_time t b)(k \<mapsto> (r, e)))"
| lost: "holder t b k \<noteq> Some sid \<Longrightarrow> lease_step b ((t, t'), OpRenew k sid ttl) (RenewReply (Ok False)) (at_time t b)"
| released: "holder t b k = Some sid \<Longrightarrow>
    lease_step b ((t, t'), OpRelease k sid) (ReleaseReply (Ok ())) ((at_time t b)(k := None))"
| not_held: "holder t b k \<noteq> Some sid \<Longrightarrow> lease_step b ((t, t'), OpRelease k sid) (ReleaseReply (Ok ())) (at_time t b)"

text \<open>The same book behind a network.\<close>

inductive remote_step :: "book \<Rightarrow> link \<times> timed_op \<Rightarrow> reply \<Rightarrow> book \<Rightarrow> bool" where
  arrives: "lease_step b op reply b' \<Longrightarrow> remote_step b (Up, op) reply b'"
| request_lost: "is_failure reply \<Longrightarrow> remote_step b (LostRequest e, op) reply b"
| reply_lost: "\<lbrakk>lease_step b op reply b'; is_failure failure\<rbrakk> \<Longrightarrow> remote_step b (LostReply e, op) failure b'"

inductive trace :: "('b \<Rightarrow> 'o \<Rightarrow> 'r \<Rightarrow> 'b \<Rightarrow> bool) \<Rightarrow> 'b \<Rightarrow> 'o list \<Rightarrow> 'r list \<Rightarrow> 'b \<Rightarrow> bool" for step where
  empty: "trace step b [] [] b"
| more: "\<lbrakk>step b op reply b1; trace step b1 ops replies b2\<rbrakk> \<Longrightarrow> trace step b (op # ops) (reply # replies) b2"

inductive_cases lease_claimE: "lease_step b ((t, t'), OpClaim r ttl) reply b'"
inductive_cases trace_ConsE: "trace step b (op # ops) replies b'"

text \<open>What the book promises by itself: at no time can two sessions be told that they have acquired the same key, unless the
  first one's lease has lapsed or it has given the key back.\<close>

lemma book_grants_once:
  assumes "lease_step b ((t, t'), OpClaim r ttl) (ClaimReply (Ok Acquired)) b'" "u < t + ttl" "rr_key r' = rr_key r"
    "lease_step b' ((u, u'), OpClaim r' ttl') reply b''" "rr_session r' \<noteq> rr_session r"
  shows "reply = ClaimReply (Ok (Taken r))"
proof -
  obtain e where "t + ttl \<le> e" "b' = (at_time t b)(rr_key r \<mapsto> (r, e))"
    using assms(1) by (auto elim: lease_claimE)
  then have "at_time u b' (rr_key r') = Some (r, e)" using assms(2,3) by (simp add: at_time_def live_def)
  with assms(4,5) show ?thesis by (auto elim!: lease_claimE simp: holder_def)
qed

section \<open>Running a table\<close>

fun answer ::
  "(nat \<Rightarrow> nat \<Rightarrow> 's \<Rightarrow> route_record \<Rightarrow> nat \<Rightarrow> 's \<times> (claim, error) result) \<Rightarrow>
   (nat \<Rightarrow> 's \<Rightarrow> string \<Rightarrow> 's \<times> (route_record option, error) result) \<Rightarrow>
   (nat \<Rightarrow> nat \<Rightarrow> 's \<Rightarrow> string \<Rightarrow> string \<Rightarrow> nat \<Rightarrow> 's \<times> (bool, error) result) \<Rightarrow>
   (nat \<Rightarrow> 's \<Rightarrow> string \<Rightarrow> string \<Rightarrow> 's \<times> (unit, error) result) \<Rightarrow> timed_op \<Rightarrow> 's \<Rightarrow> 's \<times> reply" where
  "answer cl lo rn rl ((t, t'), OpClaim r ttl) s = map_prod id ClaimReply (cl t t' s r ttl)"
| "answer cl lo rn rl ((t, t'), OpLookup k) s = map_prod id LookupReply (lo t s k)"
| "answer cl lo rn rl ((t, t'), OpRenew k sid ttl) s = map_prod id RenewReply (rn t t' s k sid ttl)"
| "answer cl lo rn rl ((t, t'), OpRelease k sid) s = map_prod id ReleaseReply (rl t s k sid)"

text \<open>All the answers of a history and the table after it.\<close>

primrec history :: "('o \<Rightarrow> 's \<Rightarrow> 's \<times> 'r) \<Rightarrow> 'o list \<Rightarrow> 's \<Rightarrow> 's \<times> 'r list" where
  "history f [] s = (s, [])"
| "history f (op # ops) s = (let (s1, reply) = f op s; (s2, replies) = history f ops s1 in (s2, reply # replies))"

abbreviation (input) mem_answer :: "timed_op \<Rightarrow> mem_table \<Rightarrow> mem_table \<times> reply" where
  "mem_answer \<equiv> answer mem_claim mem_lookup mem_renew (\<lambda>t. mem_release)"

definition redis_answer :: "'d redis_ops \<Rightarrow> string \<Rightarrow> link \<times> timed_op \<Rightarrow> 'd \<Rightarrow> 'd \<times> reply" where
  "redis_answer ops prefix = (\<lambda>(link, op). answer (\<lambda>t t'. redis_claim ops prefix link t) (redis_lookup ops prefix link)
     (\<lambda>t t'. redis_renew ops prefix link t) (redis_release ops prefix link) op)"

section \<open>Simulation\<close>

text \<open>A table and a book agree from a time on.\<close>

definition agree :: "('s \<Rightarrow> string \<Rightarrow> lease option) \<Rightarrow> nat \<Rightarrow> 's \<Rightarrow> book \<Rightarrow> bool" where
  "agree leases t s b \<longleftrightarrow> (\<forall>u \<ge> t. live leases s u = at_time u b)"

lemma at_time_again: "t \<le> u \<Longrightarrow> at_time u (at_time t b) = at_time u b"
  by (auto simp: at_time_def live_def fun_eq_iff split: option.splits)

lemma at_time_update: "at_time u (b(k \<mapsto> l)) = (at_time u b)(k := valid_until l u)" "at_time u (b(k := None)) = (at_time u b)(k := None)"
  by (simp_all add: at_time_def live_update live_remove)

lemma agree_later: "agree leases t s b \<Longrightarrow> t \<le> t' \<Longrightarrow> agree leases t' s b"
  by (auto simp: agree_def)

lemma agreeI:
  "\<forall>u \<ge> t. live leases s' u = live leases s u \<Longrightarrow> agree leases t s b \<Longrightarrow> agree leases t s' (at_time t b)"
  "\<forall>u \<ge> t. live leases s' u = (live leases s u)(k := valid_until l u) \<Longrightarrow> agree leases t s b \<Longrightarrow> agree leases t s' ((at_time t b)(k \<mapsto> l))"
  "\<forall>u \<ge> t. live leases s' u = (live leases s u)(k := None) \<Longrightarrow> agree leases t s b \<Longrightarrow> agree leases t s' ((at_time t b)(k := None))"
  by (simp_all add: agree_def at_time_update at_time_again)

context registry
begin

abbreviation "respond \<equiv> answer reg_claim reg_lookup reg_renew reg_release"

lemma claim_simulated:
  assumes "wf s" "t \<le> t'" "storable r" "ttl_ok ttl" "agree leases t s b"
  shows "\<exists>s' reply b'. reg_claim t t' s r ttl = (s', reply) \<and> wf s' \<and> agree leases t s' b' \<and>
    lease_step b ((t, t'), OpClaim r ttl) (ClaimReply reply) b'"
proof -
  have now: "live leases s t = at_time t b" using assms(5) by (simp add: agree_def)
  show ?thesis
  proof (cases "\<exists>r0 e0. at_time t b (rr_key r) = Some (r0, e0) \<and> rr_session r0 \<noteq> rr_session r")
    case True
    then obtain r0 e0 where r0: "at_time t b (rr_key r) = Some (r0, e0)" "rr_session r0 \<noteq> rr_session r" by blast
    obtain s' where s': "reg_claim t t' s r ttl = (s', Ok (Taken r0))" "wf s'" "\<forall>u \<ge> t. live leases s' u = live leases s u"
      using claim_taken [OF assms(1,3,2,4) _ r0(2)] r0(1) now by auto
    with agreeI(1) [OF s'(3) assms(5)] lease_step.refused [OF r0, of t' ttl] show ?thesis by blast
  next
    case False
    have "\<exists>s' e. reg_claim t t' s r ttl = (s', Ok Acquired) \<and> wf s' \<and> t + ttl \<le> e \<and> e \<le> t' + ttl + 1 \<and>
        (\<forall>u \<ge> t. live leases s' u = (live leases s u)(rr_key r := valid_until (r, e) u))"
      by (rule claim_acquired [OF assms(1,3,2,4)]) (use now False in auto)
    then obtain s' e where s': "reg_claim t t' s r ttl = (s', Ok Acquired)" "wf s'" "t + ttl \<le> e" "e \<le> t' + ttl + 1"
      "\<forall>u \<ge> t. live leases s' u = (live leases s u)(rr_key r := valid_until (r, e) u)" by blast
    have "holder t b (rr_key r) \<in> {None, Some (rr_session r)}"
      using False by (cases "at_time t b (rr_key r)") (auto simp: holder_def)
    with s'(1,2) agreeI(2) [OF s'(5) assms(5)] lease_step.granted [OF _ s'(3,4), of b] show ?thesis by blast
  qed
qed

lemma renew_simulated:
  assumes "wf s" "t \<le> t'" "ttl_ok ttl" "agree leases t s b"
  shows "\<exists>s' reply b'. reg_renew t t' s k sid ttl = (s', reply) \<and> wf s' \<and> agree leases t s' b' \<and>
    lease_step b ((t, t'), OpRenew k sid ttl) (RenewReply reply) b'"
proof -
  have now: "live leases s t = at_time t b" using assms(4) by (simp add: agree_def)
  show ?thesis
  proof (cases "\<exists>r e. at_time t b k = Some (r, e) \<and> rr_session r = sid")
    case True
    then obtain r e0 where r: "at_time t b k = Some (r, e0)" "rr_session r = sid" by blast
    have held: "live leases s t k = Some (r, e0)" using r(1) now by simp
    obtain s' e where s': "reg_renew t t' s k sid ttl = (s', Ok True)" "wf s'" "t + ttl \<le> e" "e \<le> t' + ttl + 1"
      "\<forall>u \<ge> t. live leases s' u = (live leases s u)(k := valid_until (r, e) u)"
      using renew_owner [OF assms(1-3) held r(2)] by blast
    with agreeI(2) [OF s'(5) assms(4)] lease_step.renewed [OF r s'(3,4)] show ?thesis by blast
  next
    case False
    then have "holder t b k \<noteq> Some sid" by (auto simp: holder_def)
    moreover have "\<exists>s'. reg_renew t t' s k sid ttl = (s', Ok False) \<and> wf s' \<and> (\<forall>u \<ge> t. live leases s' u = live leases s u)"
      by (rule renew_other [OF assms(1-3)]) (use now False in auto)
    then obtain s' where s': "reg_renew t t' s k sid ttl = (s', Ok False)" "wf s'" "\<forall>u \<ge> t. live leases s' u = live leases s u" by blast
    ultimately show ?thesis using lease_step.lost [of t b k sid t' ttl] agreeI(1) [OF s'(3) assms(4)] by blast
  qed
qed

lemma release_simulated:
  assumes "wf s" "agree leases t s b"
  shows "\<exists>s' reply b'. reg_release t s k sid = (s', reply) \<and> wf s' \<and> agree leases t s' b' \<and>
    lease_step b ((t, t'), OpRelease k sid) (ReleaseReply reply) b'"
proof -
  have now: "live leases s t = at_time t b" using assms(2) by (simp add: agree_def)
  show ?thesis
  proof (cases "\<exists>r e. at_time t b k = Some (r, e) \<and> rr_session r = sid")
    case True
    then obtain r e where r: "at_time t b k = Some (r, e)" "rr_session r = sid" by blast
    then have "holder t b k = Some sid" by (simp add: holder_def)
    moreover have held: "live leases s t k = Some (r, e)" using r(1) now by simp
    obtain s' where s': "reg_release t s k sid = (s', Ok ())" "wf s'" "\<forall>u \<ge> t. live leases s' u = (live leases s u)(k := None)"
      using release_owner [OF assms(1) held r(2)] by blast
    ultimately show ?thesis using lease_step.released [of t b k sid t'] agreeI(3) [OF s'(3) assms(2)] by blast
  next
    case False
    then have "holder t b k \<noteq> Some sid" by (auto simp: holder_def)
    moreover have "\<exists>s'. reg_release t s k sid = (s', Ok ()) \<and> wf s' \<and> (\<forall>u \<ge> t. live leases s' u = live leases s u)"
      by (rule release_other [OF assms(1)]) (use now False in auto)
    then obtain s' where s': "reg_release t s k sid = (s', Ok ())" "wf s'" "\<forall>u \<ge> t. live leases s' u = live leases s u" by blast
    ultimately show ?thesis using lease_step.not_held [of t b k sid t'] agreeI(1) [OF s'(3) assms(2)] by blast
  qed
qed

lemma step_simulated:
  assumes "wf s" "t \<le> t'" "op_storable storable ttl_ok op" "agree leases t s b"
  shows "\<exists>b'. wf (fst (respond ((t, t'), op) s)) \<and> agree leases t' (fst (respond ((t, t'), op) s)) b' \<and>
    lease_step b ((t, t'), op) (snd (respond ((t, t'), op) s)) b'"
proof (cases op)
  case (OpClaim r ttl)
  then have ok: "storable r" "ttl_ok ttl" using assms(3) by simp_all
  obtain s' reply b' where "reg_claim t t' s r ttl = (s', reply)" "wf s'" "agree leases t s' b'"
    "lease_step b ((t, t'), OpClaim r ttl) (ClaimReply reply) b'"
    using claim_simulated [OF assms(1,2) ok assms(4)] by blast
  then show ?thesis using OpClaim agree_later [OF _ assms(2)] by (intro exI [of _ b']) simp
next
  case (OpLookup k)
  obtain s' where "reg_lookup t s k = (s', Ok (map_option fst (live leases s t k)))" "wf s'" "\<forall>u \<ge> t. live leases s' u = live leases s u"
    using lookup_live [OF assms(1)] by blast
  moreover have "live leases s t = at_time t b" using assms(4) by (simp add: agree_def)
  ultimately show ?thesis
    using OpLookup lease_step.lookup [of b t t' k] agree_later [OF agreeI(1) [OF _ assms(4)] assms(2)]
    by (intro exI [of _ "at_time t b"]) simp
next
  case (OpRenew k sid ttl)
  then have ok: "ttl_ok ttl" using assms(3) by simp
  obtain s' reply b' where "reg_renew t t' s k sid ttl = (s', reply)" "wf s'" "agree leases t s' b'"
    "lease_step b ((t, t'), OpRenew k sid ttl) (RenewReply reply) b'"
    using renew_simulated [OF assms(1,2) ok assms(4)] by blast
  then show ?thesis using OpRenew agree_later [OF _ assms(2)] by (intro exI [of _ b']) simp
next
  case (OpRelease k sid)
  obtain s' reply b' where "reg_release t s k sid = (s', reply)" "wf s'" "agree leases t s' b'"
    "lease_step b ((t, t'), OpRelease k sid) (ReleaseReply reply) b'"
    using release_simulated [OF assms(1,4)] by blast
  then show ?thesis using OpRelease agree_later [OF _ assms(2)] by (intro exI [of _ b']) simp
qed

lemma history_simulated:
  assumes "wf s" "agree leases t s b" "timed_from t ops u" "\<forall>op \<in> set ops. op_storable storable ttl_ok (snd op)"
  shows "\<exists>b'. trace lease_step b ops (snd (history respond ops s)) b' \<and> agree leases u (fst (history respond ops s)) b'"
  using assms
proof (induction ops arbitrary: s b t)
  case Nil
  then show ?case using agree_later [of leases t s b u] by (auto intro: trace.empty)
next
  case (Cons op ops)
  obtain x y o' where op: "op = ((x, y), o')" by (metis surj_pair)
  then have t: "t \<le> x" "x \<le> y" "timed_from y ops u" using Cons.prems(3) by simp_all
  have "op_storable storable ttl_ok o'" using Cons.prems(4) op by simp
  from step_simulated [OF Cons.prems(1) t(2) this agree_later [OF Cons.prems(2) t(1)]] obtain b1 where
    b1: "wf (fst (respond op s))" "agree leases y (fst (respond op s)) b1" "lease_step b op (snd (respond op s)) b1"
    unfolding op by blast
  with Cons.IH [OF b1(1,2) t(3)] Cons.prems(4) show ?case
    by (auto simp: case_prod_unfold Let_def intro: trace.more)
qed

end

section \<open>The Redis-backed table\<close>

lemma redis_answer_lost:
  "redis_answer ops prefix (LostRequest e, op) db = (db, snd (redis_answer ops prefix (LostRequest e, op) db)) \<and>
   is_failure (snd (redis_answer ops prefix (LostRequest e, op) db))"
proof -
  obtain t t' o' where op: "op = ((t, t'), o')" by (metis surj_pair)
  show ?thesis unfolding op by (cases o') (simp_all add: redis_answer_def redis_claim_def redis_lookup_def redis_renew_def redis_release_def)
qed

lemma redis_answer_late:
  "fst (redis_answer ops prefix (LostReply e, op) db) = fst (redis_answer ops prefix (Up, op) db) \<and>
   is_failure (snd (redis_answer ops prefix (LostReply e, op) db))"
proof -
  obtain t t' o' where op: "op = ((t, t'), o')" by (metis surj_pair)
  show ?thesis unfolding op
    by (cases o') (simp_all add: redis_answer_def redis_claim_def redis_lookup_def redis_renew_def redis_release_def case_prod_unfold Let_def)
qed

context redis_table
begin

lemma remote_simulated:
  assumes "wf s" "t \<le> t'" "op_storable tab_free px_ok op" "agree leases t s b"
  shows "\<exists>b'. wf (fst (redis_answer ops prefix (link, (t, t'), op) s)) \<and> agree leases t' (fst (redis_answer ops prefix (link, (t, t'), op) s)) b' \<and>
    remote_step b (link, (t, t'), op) (snd (redis_answer ops prefix (link, (t, t'), op) s)) b'"
proof -
  obtain b' where up: "wf (fst (redis_answer ops prefix (Up, (t, t'), op) s))" "agree leases t' (fst (redis_answer ops prefix (Up, (t, t'), op) s)) b'"
    "lease_step b ((t, t'), op) (snd (redis_answer ops prefix (Up, (t, t'), op) s)) b'"
    using table.step_simulated [OF assms] by (auto simp: redis_answer_def)
  show ?thesis
  proof (cases link)
    case Up
    then show ?thesis using up by (blast intro: remote_step.arrives)
  next
    case (LostRequest e)
    note lost = redis_answer_lost [of ops prefix e "((t, t'), op)" s]
    then have "fst (redis_answer ops prefix (link, (t, t'), op) s) = s" unfolding LostRequest by (metis fst_conv)
    then show ?thesis
      using assms(1) agree_later [OF assms(4,2)] remote_step.request_lost [of _ b e "((t, t'), op)"] lost unfolding LostRequest by auto
  next
    case (LostReply e)
    note late = redis_answer_late [of ops prefix e "((t, t'), op)" s]
    then show ?thesis
      using up(1,2) remote_step.reply_lost [OF up(3), of _ e] unfolding LostReply by auto
  qed
qed

lemma remote_history_simulated:
  assumes "wf s" "agree leases t s b" "timed_from t (map snd h) u" "\<forall>op \<in> set h. op_storable tab_free px_ok (snd (snd op))"
  shows "\<exists>b'. trace remote_step b h (snd (history (redis_answer ops prefix) h s)) b' \<and>
    agree leases u (fst (history (redis_answer ops prefix) h s)) b'"
  using assms
proof (induction h arbitrary: s b t)
  case Nil
  then show ?case using agree_later [of leases t s b u] by (auto intro: trace.empty)
next
  case (Cons op h)
  obtain link x y o' where op: "op = (link, (x, y), o')" by (metis surj_pair)
  then have t: "t \<le> x" "x \<le> y" "timed_from y (map snd h) u" using Cons.prems(3) by simp_all
  have "op_storable tab_free px_ok o'" using Cons.prems(4) op by simp
  from remote_simulated [OF Cons.prems(1) t(2) this agree_later [OF Cons.prems(2) t(1)], of link] obtain b1 where
    b1: "wf (fst (redis_answer ops prefix op s))" "agree leases y (fst (redis_answer ops prefix op s)) b1"
    "remote_step b op (snd (redis_answer ops prefix op s)) b1"
    unfolding op by blast
  with Cons.IH [OF b1(1,2) t(3)] Cons.prems(4) show ?case
    by (auto simp: case_prod_unfold Let_def intro: trace.more)
qed

end

section \<open>Properties\<close>

text \<open>C4. The shared routing table implements the book of leases. Take any history of claims, lookups,
  renewals and releases from all nodes, with requests and replies lost anywhere, over a well-formed
  store: the answers the Lua scripts and their callers give, in order, are answers the book could have
  given to the same history, starting from the leases in the store, and the leases in the store at the
  end are the entries of the book at the end, from then on.\<close>

theorem redis_refines_book:
  assumes "redis_server ops entries" "redis_wf entries prefix db" "timed_from t (map snd h) u"
    and "\<forall>op \<in> set h. op_storable tab_free px_ok (snd (snd op))"
  shows "\<exists>b. trace remote_step (redis_leases entries prefix db) h (snd (history (redis_answer ops prefix) h db)) b \<and>
    (\<forall>v \<ge> u. live (redis_leases entries prefix) (fst (history (redis_answer ops prefix) h db)) v = at_time v b)"
proof -
  have tab: "redis_table ops entries" by (simp add: redis_table_def assms(1))
  have "agree (redis_leases entries prefix) t db (redis_leases entries prefix db)" by (simp add: agree_def at_time_def live_def fun_eq_iff)
  from redis_table.remote_history_simulated [OF tab assms(2) this assms(3,4)] show ?thesis by (simp add: agree_def)
qed

theorem redis_refines_book_witness:
  "\<exists>b. trace remote_step Map.empty
     [(Up, ((0, 0), OpClaim (example_record ''sess_1'') 45)), (LostReply ''io'', ((5, 5), OpRelease ''api.tunnel.com'' ''sess_1''))]
     (snd (history (redis_answer ref_store ''norupo:'')
       [(Up, ((0, 0), OpClaim (example_record ''sess_1'') 45)), (LostReply ''io'', ((5, 5), OpRelease ''api.tunnel.com'' ''sess_1''))] Map.empty)) b"
proof -
  have ok: "tab_free (example_record ''sess_1'')" "px_ok 45" "redis_wf id ''norupo:'' Map.empty"
    by (simp_all add: tab_free_def example_record_def px_ok_def redis_wf_def)
  have "redis_leases id ''norupo:'' Map.empty = Map.empty" by (simp add: redis_leases_def fun_eq_iff)
  with redis_refines_book [OF ref.redis_server_axioms ok(3), of 0 "[(Up, ((0, 0), OpClaim (example_record ''sess_1'') 45)),
      (LostReply ''io'', ((5, 5), OpRelease ''api.tunnel.com'' ''sess_1''))]" 5] ok(1,2)
  show ?thesis by (simp add: case_prod_unfold Let_def) blast
qed

text \<open>C26. The in-process table implements the same book: the answers to any history on a new table are
  answers of the book that starts empty, and its leases are the book's entries.\<close>

theorem memory_refines_book:
  assumes "timed_from 0 ops u"
  shows "\<exists>b. trace lease_step Map.empty ops (snd (history mem_answer ops mem_new)) b \<and>
    (\<forall>v \<ge> u. live id (fst (history mem_answer ops mem_new)) v = at_time v b)"
proof -
  have "agree id 0 mem_new Map.empty" by (simp add: agree_def at_time_def mem_new_def)
  from mem.history_simulated [OF TrueI this assms] show ?thesis by (simp add: agree_def)
qed

theorem memory_refines_book_witness:
  "\<exists>b. trace lease_step Map.empty [((0, 0), OpClaim (example_record ''sess_1'') 45), ((9, 9), OpClaim (example_record ''sess_2'') 45),
      ((50, 50), OpClaim (example_record ''sess_2'') 45)]
     [ClaimReply (Ok Acquired), ClaimReply (Ok (Taken (example_record ''sess_1''))), ClaimReply (Ok Acquired)] b"
  using memory_refines_book [of "[((0, 0), OpClaim (example_record ''sess_1'') 45), ((9, 9), OpClaim (example_record ''sess_2'') 45),
      ((50, 50), OpClaim (example_record ''sess_2'') 45)]" 50]
  by (auto simp: mem_claim_def mem_new_def evict_expired_def example_record_def Let_def)

end
