(* ===== verification/Tokens.thy ===== *)
theory Tokens
  imports Auth
begin

text \<open>
  \<open>norupo-server/src/tokens.rs\<close>: loading agent credentials. The file's text and its JSON reading by
  \<open>serde_json\<close> are parameters; what the code does with the parsed entries is modelled.
\<close>

section \<open>Model\<close>

record limits_file =
  lf_max_tunnels :: "u32 option"
  lf_max_concurrent_streams :: "u32 option"
  lf_max_bytes_per_second :: "u64 option"

record principal_file =
  pf_account_id :: string
  pf_display_name :: "string option"
  pf_reserved_subdomains :: "string list"
  pf_custom_domains :: "string list"
  pf_limits :: "limits_file option"

definition unwrap_or :: "'a \<Rightarrow> 'a option \<Rightarrow> 'a" where
  "unwrap_or d v = (case v of Some x \<Rightarrow> x | None \<Rightarrow> d)"

definition principal_from :: "principal_file \<Rightarrow> principal" where
  "principal_from file =
     (let defaults = default_limits;
          lims = (case pf_limits file of
            None \<Rightarrow> defaults
          | Some l \<Rightarrow>
              \<lparr>max_tunnels = unwrap_or (max_tunnels defaults) (lf_max_tunnels l),
               max_concurrent_streams = unwrap_or (max_concurrent_streams defaults) (lf_max_concurrent_streams l),
               max_bytes_per_second = unwrap_or (max_bytes_per_second defaults) (lf_max_bytes_per_second l)\<rparr>)
      in \<lparr>account_id = pf_account_id file,
          display_name = unwrap_or (pf_account_id file) (pf_display_name file),
          reserved_subdomains = pf_reserved_subdomains file,
          custom_domains = pf_custom_domains file,
          principal_limits = lims\<rparr>)"

type_synonym token_parser = "string \<Rightarrow> (string \<rightharpoonup> principal_file, string) result"

definition parse_tokens :: "token_parser \<Rightarrow> string \<Rightarrow> (string \<rightharpoonup> principal, string) result" where
  "parse_tokens from_str raw =
     bind_result (from_str raw) (\<lambda>parsed. Ok (\<lambda>token. map_option principal_from (parsed token)))"

definition load_tokens ::
    "token_parser \<Rightarrow> (string \<Rightarrow> (string, string) result) \<Rightarrow> string \<Rightarrow> (string \<rightharpoonup> principal, string) result" where
  "load_tokens from_str read_to_string path = bind_result (read_to_string path) (parse_tokens from_str)"

section \<open>Properties\<close>

text \<open>A token file grants exactly what it lists: the loaded file authenticates a token iff the file
  has an entry for it, the account and its domains are the entry's, and a tunnel or stream limit the
  entry leaves out has its default and is never zero, which would mean no limit.\<close>

lemma loaded_tokens_authenticate:
  assumes "load_tokens from_str read_file path = Ok principals"
    and "read_file path = Ok raw" "from_str raw = Ok parsed"
  shows "(case parsed tok of
      None \<Rightarrow> \<exists>e. authenticate (static_token_auth_new principals) tok = Err e
    | Some f \<Rightarrow>
        \<exists>p. authenticate (static_token_auth_new principals) tok = Ok p \<and> account_id p = pf_account_id f \<and>
          custom_domains p = pf_custom_domains f \<and> reserved_subdomains p = pf_reserved_subdomains f \<and>
          (\<forall>l. pf_limits f = Some l \<longrightarrow> lf_max_tunnels l = None \<longrightarrow>
             max_tunnels (principal_limits p) = max_tunnels default_limits \<and> 0 < max_tunnels (principal_limits p)) \<and>
          (\<forall>l. pf_limits f = Some l \<longrightarrow> lf_max_concurrent_streams l = None \<longrightarrow>
             max_concurrent_streams (principal_limits p) = max_concurrent_streams default_limits \<and>
             0 < max_concurrent_streams (principal_limits p)) \<and>
          (pf_limits f = None \<longrightarrow> principal_limits p = default_limits))"
  using assms
  by (auto simp: load_tokens_def parse_tokens_def authenticate_def static_token_auth_new_def principal_from_def
      unwrap_or_def Let_def default_limits_def split: option.splits)

lemma loaded_tokens_authenticate_witness:
  "\<exists>p. authenticate (static_token_auth_new [''tok_a'' \<mapsto> principal_from \<lparr>pf_account_id = ''acct_a'',
      pf_display_name = None, pf_reserved_subdomains = [], pf_custom_domains = [], pf_limits = None\<rparr>]) ''tok_a'' = Ok p \<and>
     principal_limits p = default_limits"
proof -
  let ?f = "\<lparr>pf_account_id = ''acct_a'', pf_display_name = None, pf_reserved_subdomains = [], pf_custom_domains = [],
    pf_limits = None\<rparr>"
  have "load_tokens (\<lambda>_. Ok [''tok_a'' \<mapsto> ?f]) (\<lambda>_. Ok ''{}'') ''tokens.json'' = Ok [''tok_a'' \<mapsto> principal_from ?f]"
    by (auto simp: load_tokens_def parse_tokens_def)
  from loaded_tokens_authenticate [OF this, of "''{}''" "[''tok_a'' \<mapsto> ?f]" "''tok_a''"] show ?thesis by auto
qed

end
