(* ===== verification/Server.thy ===== *)
theory Server
  imports Ingress Tokens
begin

text \<open>
  \<open>norupo-server/src/lib.rs\<close> and the accept loop of \<open>ingress.rs\<close>: starting a node. The operating system's
  sockets, the file system, the connection to Redis and the HTTP server's connection loop are
  parameters; an error is the chain of its messages, outermost first, the way \<open>anyhow\<close> keeps it.
\<close>

section \<open>Model\<close>

type_synonym 'a anyhow = "('a, string list) result"

definition with_context :: "string \<Rightarrow> 'a anyhow \<Rightarrow> 'a anyhow" where
  "with_context message res = map_err (\<lambda>chain. message # chain) res"

text \<open>The two kinds of routing table behind the \<open>dyn Registry\<close>, and the dispatch to them.\<close>

datatype 'd backend = InMemory mem_table | InRedis "link \<times> 'd"

definition dispatch ::
    "(mem_table \<Rightarrow> mem_table \<times> 'x) \<Rightarrow> (link \<times> 'd \<Rightarrow> (link \<times> 'd) \<times> 'x) \<Rightarrow> 'd backend \<Rightarrow> 'd backend \<times> 'x" where
  "dispatch f g s = (case s of InMemory m \<Rightarrow> map_prod InMemory id (f m) | InRedis d \<Rightarrow> map_prod InRedis id (g d))"

definition backend_registry :: "'d redis_ops \<Rightarrow> string \<Rightarrow> 'd backend registry_ops" where
  "backend_registry rops prefix =
     \<lparr>rg_claim = (\<lambda>t t' s r ttl. dispatch (\<lambda>m. rg_claim memory_registry t t' m r ttl)
          (\<lambda>d. rg_claim (redis_registry rops prefix) t t' d r ttl) s),
      rg_lookup = (\<lambda>t s k. dispatch (\<lambda>m. rg_lookup memory_registry t m k) (\<lambda>d. rg_lookup (redis_registry rops prefix) t d k) s),
      rg_renew = (\<lambda>t t' s k sid ttl. dispatch (\<lambda>m. rg_renew memory_registry t t' m k sid ttl)
          (\<lambda>d. rg_renew (redis_registry rops prefix) t t' d k sid ttl) s),
      rg_release = (\<lambda>t s k sid. dispatch (\<lambda>m. rg_release memory_registry t m k sid)
          (\<lambda>d. rg_release (redis_registry rops prefix) t d k sid) s)\<rparr>"

record 'd environment =
  env_redis_feature :: bool
  env_redis_open :: "string \<Rightarrow> (unit, string) result"
  env_redis_connect :: "string \<Rightarrow> (link \<times> 'd, string) result"
  env_parse_tokens :: token_parser
  env_read_file :: "string \<Rightarrow> (string, string) result"
  env_bind :: "string list \<Rightarrow> string \<Rightarrow> (string, string) result"

definition redis_connect :: "'d environment \<Rightarrow> string \<Rightarrow> (link \<times> 'd, error) result" where
  "redis_connect env url =
     bind_result (map_err (\<lambda>e. RegistryUnavailable (''bad redis url: '' @ e)) (env_redis_open env url)) (\<lambda>_.
       map_err (\<lambda>e. RegistryUnavailable (''redis connect failed: '' @ e)) (env_redis_connect env url))"

definition build_registry :: "'d environment \<Rightarrow> server_config \<Rightarrow> 'd backend anyhow" where
  "build_registry env cfg = (case redis_url cfg of
     Some url \<Rightarrow>
       if env_redis_feature env
       then bind_result (with_context (''connecting to redis at '' @ url)
              (map_err (\<lambda>e. [error_to_string e]) (redis_connect env url))) (\<lambda>table. Ok (InRedis table))
       else Err [''this build has the `redis-registry` feature disabled; rebuild with it to use --redis-url'']
   | None \<Rightarrow> Ok (InMemory mem_new))"

definition build_auth :: "'d environment \<Rightarrow> server_config \<Rightarrow> (string \<Rightarrow> (principal, error) result) anyhow" where
  "build_auth env cfg = (case tokens_file cfg of
     Some path \<Rightarrow>
       bind_result (with_context (''loading tokens from '' @ path)
           (map_err (\<lambda>e. [e]) (load_tokens (env_parse_tokens env) (env_read_file env) path)))
         (\<lambda>principals. Ok (authenticate (static_token_auth_new principals)))
   | None \<Rightarrow>
       if cfg_allow_anonymous cfg then Ok (authenticate static_token_auth_anonymous)
       else Err [''no authentication configured: pass --tokens-file, or --allow-anonymous for local development''])"

text \<open>A started node: the addresses it bound, its state, the shutdown flag, and the tasks that serve the
  listeners, each with whether it has ended.\<close>

datatype listener_task = ServeIngress role string | ServeControl string

record ('m, 'qo, 'qb, 'o, 'd) running_server =
  rs_http_addr :: string
  rs_control_addr :: string
  rs_peer_addr :: string
  rs_state :: "('m, 'qo, 'qb, 'o, 'd backend) server"
  rs_peers_node :: string
  rs_shutdown :: bool
  rs_tasks :: "(listener_task \<times> bool) list"

definition bind_listener :: "'d environment \<Rightarrow> string \<Rightarrow> string list \<Rightarrow> string \<Rightarrow> string anyhow" where
  "bind_listener env what bound addr =
     with_context (''binding '' @ what @ '' on '' @ addr) (map_err (\<lambda>e. [e]) (env_bind env bound addr))"

definition start_with_registry ::
    "'d environment \<Rightarrow> nat list \<Rightarrow> nat \<Rightarrow> server_config \<Rightarrow> 'd backend \<Rightarrow>
     ('m, 'qo, 'qb, 'o, 'd) running_server anyhow" where
  "start_with_registry env draws now cfg table =
     (let node_id = (case cfg_node_id cfg of Some n \<Rightarrow> n | None \<Rightarrow> new_node_id draws) in
      bind_result (build_auth env cfg) (\<lambda>auth.
      bind_result (bind_listener env ''public HTTP listener'' [] (http_addr cfg)) (\<lambda>http.
      bind_result (bind_listener env ''peer listener'' [http] (peer_addr cfg)) (\<lambda>peer.
      bind_result (bind_listener env ''gRPC control listener'' [http, peer] (control_addr cfg)) (\<lambda>control.
      Ok \<lparr>rs_http_addr = http, rs_control_addr = control, rs_peer_addr = peer,
          rs_state = \<lparr>app_config = cfg, app_node_id = node_id,
            app_node_addr = (case advertise_addr cfg of Some a \<Rightarrow> a | None \<Rightarrow> peer),
            app_registry = table, app_auth = auth, app_sessions = manager_new, clock = now,
            heartbeat_aborted = (\<lambda>_. False)\<rparr>,
          rs_peers_node = node_id, rs_shutdown = False,
          rs_tasks = [(ServeIngress Public http, False), (ServeIngress Peer peer, False), (ServeControl control, False)]\<rparr>)))))"

definition start ::
    "'d environment \<Rightarrow> nat list \<Rightarrow> nat \<Rightarrow> server_config \<Rightarrow> ('m, 'qo, 'qb, 'o, 'd) running_server anyhow" where
  "start env draws now cfg = bind_result (build_registry env cfg) (start_with_registry env draws now cfg)"

text \<open>Stopping a node: set the flag, then wait for every task.\<close>

definition shutdown :: "(('m, 'qo, 'qb, 'o, 'd) running_server, unit) task" where
  "shutdown =
     call (update (\<lambda>rs. rs\<lparr>rs_shutdown := True\<rparr>)) (\<lambda>_.
     call (read (\<lambda>rs. length (rs_tasks rs))) (\<lambda>n.
       for_each (\<lambda>i. await (\<lambda>rs. if snd (rs_tasks rs ! i) then Some (rs, ()) else None)) [0..<n]))"

section \<open>Serving\<close>

text \<open>The process around a started node: what the operating system has queued on the two HTTP listeners, and the
  interrupt once it has come.\<close>

record ('m, 'qo, 'qb, 'o, 'd, 'c) process =
  pr_server :: "('m, 'qo, 'qb, 'o, 'd) running_server"
  pr_backlog :: "role \<Rightarrow> ('c \<times> string, string) result list"
  pr_ctrl_c :: "(unit, string) result option"

definition on_running ::
    "(('m, 'qo, 'qb, 'o, 'd) running_server, 'x) task \<Rightarrow> (('m, 'qo, 'qb, 'o, 'd, 'c) process, 'x) task" where
  "on_running = zoom pr_server (\<lambda>rs p. p\<lparr>pr_server := rs\<rparr>)"

definition on_state ::
    "(('m, 'qo, 'qb, 'o, 'd backend) server, 'x) task \<Rightarrow> (('m, 'qo, 'qb, 'o, 'd) running_server, 'x) task" where
  "on_state = zoom rs_state (\<lambda>w rs. rs\<lparr>rs_state := w\<rparr>)"

definition with_backlog ::
    "role \<Rightarrow> ('c \<times> string, string) result list \<Rightarrow> ('m, 'qo, 'qb, 'o, 'd, 'c) process \<Rightarrow> ('m, 'qo, 'qb, 'o, 'd, 'c) process" where
  "with_backlog role xs p = p\<lparr>pr_backlog := (pr_backlog p)(role := xs)\<rparr>"

text \<open>The accept loop. The \<open>select!\<close> takes a connection or the shutdown, whichever is ready; when both are, it draws, and
  the draws are the last argument, one for each turn. A connection is served by a task of its own, which the HTTP server runs with
  the handler; a failed accept is passed over.\<close>

definition accept_or_stop ::
    "role \<Rightarrow> bool \<Rightarrow> (('m, 'qo, 'qb, 'o, 'd, 'c) process, ('c \<times> string, string) result option) task" where
  "accept_or_stop role stop_first = await (\<lambda>p. case pr_backlog p role of
     [] \<Rightarrow> if rs_shutdown (pr_server p) then Some (p, None) else None
   | x # rest \<Rightarrow>
       if rs_shutdown (pr_server p) \<and> stop_first then Some (p, None)
       else Some (with_backlog role rest p, Some x))"

primrec serve ::
    "((request \<Rightarrow> (('m, 'qo, 'qb, 'o, 'd backend) server, response) task) \<Rightarrow> 'c \<Rightarrow> (('m, 'qo, 'qb, 'o, 'd backend) server, unit) task) \<Rightarrow>
     (request \<Rightarrow> string \<Rightarrow> (('m, 'qo, 'qb, 'o, 'd backend) server, response) task) \<Rightarrow> role \<Rightarrow> bool list \<Rightarrow>
     (('m, 'qo, 'qb, 'o, 'd, 'c) process, unit) task" where
  "serve serve_connection handler role [] = Halt"
| "serve serve_connection handler role (pick # picks) =
     call (accept_or_stop role pick) (\<lambda>accepted. case accepted of
       None \<Rightarrow> Return ()
     | Some (Err e) \<Rightarrow> serve serve_connection handler role picks
     | Some (Ok (conn, remote_addr)) \<Rightarrow>
         spawn (on_running (on_state (serve_connection (\<lambda>req. handler req remote_addr) conn)))
           (serve serve_connection handler role picks))"

text \<open>The three tasks of a node. \<open>tonic\<close>'s server is a parameter; it gets the future that ends when the flag is
  set.\<close>

definition stop_signal :: "(('m, 'qo, 'qb, 'o, 'd, 'c) process, unit) task" where
  "stop_signal = await (\<lambda>p. if rs_shutdown (pr_server p) then Some (p, ()) else None)"

definition end_task ::
    "nat \<Rightarrow> ('m, 'qo, 'qb, 'o, 'd, 'c) process \<Rightarrow> ('m, 'qo, 'qb, 'o, 'd, 'c) process" where
  "end_task i p = p\<lparr>pr_server := (pr_server p)\<lparr>rs_tasks := (rs_tasks (pr_server p))[i := (fst (rs_tasks (pr_server p) ! i), True)]\<rparr>\<rparr>"

definition serving_task ::
    "nat \<Rightarrow> (('m, 'qo, 'qb, 'o, 'd, 'c) process, unit) task \<Rightarrow> (('m, 'qo, 'qb, 'o, 'd, 'c) process, unit) task" where
  "serving_task i work = call work (\<lambda>_. update (end_task i))"

definition spawn_tasks ::
    "((request \<Rightarrow> (('m, 'qo, 'qb, 'o, 'd backend) server, response) task) \<Rightarrow> 'c \<Rightarrow> (('m, 'qo, 'qb, 'o, 'd backend) server, unit) task) \<Rightarrow>
     (string \<Rightarrow> role \<Rightarrow> request \<Rightarrow> string \<Rightarrow> (('m, 'qo, 'qb, 'o, 'd backend) server, response) task) \<Rightarrow>
     ((('m, 'qo, 'qb, 'o, 'd, 'c) process, unit) task \<Rightarrow> (('m, 'qo, 'qb, 'o, 'd, 'c) process, unit) task) \<Rightarrow>
     (role \<Rightarrow> bool list) \<Rightarrow> ('m, 'qo, 'qb, 'o, 'd) running_server \<Rightarrow>
     (('m, 'qo, 'qb, 'o, 'd, 'c) process, 'x) task \<Rightarrow> (('m, 'qo, 'qb, 'o, 'd, 'c) process, 'x) task" where
  "spawn_tasks serve_connection handler serve_control picks rs rest =
     spawn (serving_task 0 (serve serve_connection (handler (rs_peers_node rs) Public) Public (picks Public)))
      (spawn (serving_task 1 (serve serve_connection (handler (rs_peers_node rs) Peer) Peer (picks Peer)))
       (spawn (serving_task 2 (serve_control stop_signal)) rest))"

text \<open>\<open>main.rs\<close>: start, wait for the interrupt, stop.\<close>

definition server_main ::
    "('m, 'qo, 'qb, 'o) runtime \<Rightarrow> 'd redis_ops \<Rightarrow> http_lib \<Rightarrow> json_lib \<Rightarrow> ((string \<rightharpoonup> nat) \<Rightarrow> string list) \<Rightarrow>
     ((string \<rightharpoonup> tunnel) \<Rightarrow> string list) \<Rightarrow> (string \<Rightarrow> (uri, string) result) \<Rightarrow>
     (client_options \<Rightarrow> nat \<Rightarrow> request \<Rightarrow> (peer_answer, string) result option) \<Rightarrow>
     ((request \<Rightarrow> (('m, 'qo, 'qb, 'o, 'd backend) server, response) task) \<Rightarrow> 'c \<Rightarrow> (('m, 'qo, 'qb, 'o, 'd backend) server, unit) task) \<Rightarrow>
     ((('m, 'qo, 'qb, 'o, 'd, 'c) process, unit) task \<Rightarrow> (('m, 'qo, 'qb, 'o, 'd, 'c) process, unit) task) \<Rightarrow>
     'd environment \<Rightarrow> nat list \<Rightarrow> nat \<Rightarrow> (role \<Rightarrow> bool list) \<Rightarrow> server_config \<Rightarrow> (('m, 'qo, 'qb, 'o, 'd, 'c) process, unit anyhow) task" where
  "server_main R rops lib js keys tkeys parse_uri build serve_connection serve_control env draws now picks cfg =
     (case start env draws now cfg of
        Err chain \<Rightarrow> Return (Err chain)
      | Ok rs \<Rightarrow>
          call (update (\<lambda>p. p\<lparr>pr_server := rs\<rparr>)) (\<lambda>_.
          spawn_tasks serve_connection
            (\<lambda>node. handle R (backend_registry rops (redis_prefix cfg)) lib js keys tkeys (peer_client_new parse_uri build node))
            serve_control picks rs
            (call (await (\<lambda>p. map_option (Pair p) (pr_ctrl_c p))) (\<lambda>signal. case signal of
               Err e \<Rightarrow> Return (Err [e])
             | Ok _ \<Rightarrow> call (on_running shutdown) (\<lambda>_. Return (Ok ()))))))"

section \<open>The routing table of a started node\<close>

text \<open>Whichever table the configuration names, the node's dispatching table meets the contract.\<close>

definition backend_leases ::
    "('d \<Rightarrow> string \<Rightarrow> string leased option) \<Rightarrow> string \<Rightarrow> 'd backend \<Rightarrow> string \<Rightarrow> lease option" where
  "backend_leases entries prefix s = (case s of InMemory m \<Rightarrow> m | InRedis d \<Rightarrow> shared_leases entries prefix d)"

definition backend_wf :: "('d \<Rightarrow> string \<Rightarrow> string leased option) \<Rightarrow> string \<Rightarrow> 'd backend \<Rightarrow> bool" where
  "backend_wf entries prefix s = (case s of InMemory m \<Rightarrow> True | InRedis d \<Rightarrow> shared_wf entries prefix d)"

lemma dispatch_simps [simp]:
  "dispatch f g (InMemory m) = map_prod InMemory id (f m)" "dispatch f g (InRedis d) = map_prod InRedis id (g d)"
  by (simp_all add: dispatch_def)

sublocale redis_table \<subseteq> backend: routing_table "backend_registry ops prefix" "backend_leases entries prefix"
  "backend_wf entries prefix" tab_free px_ok
  unfolding routing_table_def
proof (rule registryI)
  fix s assume wf: "backend_wf entries prefix s"
  show "laws_at (rg_claim (backend_registry ops prefix)) (rg_lookup (backend_registry ops prefix))
      (rg_renew (backend_registry ops prefix)) (rg_release (backend_registry ops prefix))
      (backend_leases entries prefix) (backend_wf entries prefix) tab_free px_ok s"
  proof (cases s)
    case (InMemory m)
    show ?thesis unfolding InMemory
      by (rule laws_at_embed [THEN iffD2, OF _ _ _ _ _ _ laws_at_mono [OF memory_table.laws [OF TrueI]]])
        (simp_all add: backend_registry_def backend_leases_def backend_wf_def)
  next
    case (InRedis d)
    then have "shared_wf entries prefix d" using wf by (simp add: backend_wf_def)
    then show ?thesis unfolding InRedis
      by (intro laws_at_embed [THEN iffD2, OF _ _ _ _ _ _ shared.laws])
        (simp_all add: backend_registry_def backend_leases_def backend_wf_def)
  qed
qed

section \<open>Starting\<close>

lemma with_context_Ok_iff [simp]: "with_context m r = Ok x \<longleftrightarrow> r = Ok x"
  by (simp add: with_context_def)

lemma bind_listener_Ok_iff: "bind_listener env what bound addr = Ok a \<longleftrightarrow> env_bind env bound addr = Ok a"
  by (simp add: bind_listener_def)

definition started ::
    "nat list \<Rightarrow> nat \<Rightarrow> server_config \<Rightarrow> 'd backend \<Rightarrow> (string \<Rightarrow> (principal, error) result) \<Rightarrow> string \<Rightarrow> string \<Rightarrow> string \<Rightarrow>
     ('m, 'qo, 'qb, 'o, 'd) running_server" where
  "started draws now cfg table auth h p c =
     (let node_id = (case cfg_node_id cfg of Some n \<Rightarrow> n | None \<Rightarrow> new_node_id draws) in
      \<lparr>rs_http_addr = h, rs_control_addr = c, rs_peer_addr = p,
       rs_state = \<lparr>app_config = cfg, app_node_id = node_id, app_node_addr = (case advertise_addr cfg of Some a \<Rightarrow> a | None \<Rightarrow> p),
         app_registry = table, app_auth = auth, app_sessions = manager_new, clock = now, heartbeat_aborted = (\<lambda>_. False)\<rparr>,
       rs_peers_node = node_id, rs_shutdown = False,
       rs_tasks = [(ServeIngress Public h, False), (ServeIngress Peer p, False), (ServeControl c, False)]\<rparr>)"

lemma start_Ok_iff:
  "start env draws now cfg = Ok rs \<longleftrightarrow> (\<exists>table auth h p c. build_registry env cfg = Ok table \<and> build_auth env cfg = Ok auth \<and>
     env_bind env [] (http_addr cfg) = Ok h \<and> env_bind env [h] (peer_addr cfg) = Ok p \<and>
     env_bind env [h, p] (control_addr cfg) = Ok c \<and> rs = started draws now cfg table auth h p c)"
  by (auto simp: start_def start_with_registry_def Let_def bind_listener_Ok_iff started_def)

lemma build_auth_accepts:
  assumes "build_auth env cfg = Ok auth"
  shows "auth token = Ok p \<longleftrightarrow> (case tokens_file cfg of
      Some path \<Rightarrow> \<exists>raw parsed f. env_read_file env path = Ok raw \<and> env_parse_tokens env raw = Ok parsed \<and>
        parsed token = Some f \<and> p = principal_from f
    | None \<Rightarrow> cfg_allow_anonymous cfg \<and> p = anonymous_principal)"
  using assms
  by (auto simp: build_auth_def load_tokens_def parse_tokens_def authenticate_def static_token_auth_new_def
      static_token_auth_anonymous_def split: option.splits if_splits)

text \<open>Stopping sets the flag first and returns once every listener task has ended.\<close>

lemma run_await_tasks:
  "run (for_each (\<lambda>i. await (\<lambda>rs. if snd (rs_tasks rs ! i) then Some (rs, ()) else None)) is) rs =
     (if \<forall>i \<in> set is. snd (rs_tasks rs ! i) then Finished rs ()
      else Blocked rs (for_each (\<lambda>i. await (\<lambda>rs. if snd (rs_tasks rs ! i) then Some (rs, ()) else None))
        (dropWhile (\<lambda>i. snd (rs_tasks rs ! i)) is)))"
  by (induction "is") (auto simp: run_call)

lemma run_shutdown:
  "\<forall>task \<in> set (rs_tasks rs). snd task \<Longrightarrow> run shutdown rs = Finished (rs\<lparr>rs_shutdown := True\<rparr>) ()"
  "\<exists>task \<in> set (rs_tasks rs). \<not> snd task \<Longrightarrow> \<exists>t. run shutdown rs = Blocked (rs\<lparr>rs_shutdown := True\<rparr>) t"
  by (force simp: shutdown_def run_call run_await_tasks all_set_conv_all_nth in_set_conv_nth)+

text \<open>Before the shutdown the accept loop gives every accepted connection its own task, whatever failed before it.\<close>

lemma with_backlog_simps [simp]:
  "pr_backlog (with_backlog role xs p) role = xs" "pr_server (with_backlog role xs p) = pr_server p"
  "with_backlog role ys (with_backlog role xs p) = with_backlog role ys p"
  by (simp_all add: with_backlog_def)

definition connection_task where
  "connection_task sc h = (\<lambda>(conn, addr). call (on_running (on_state (sc (\<lambda>req. h req addr) conn))) (\<lambda>_. Halt))"

lemma serve_turn:
  assumes "\<not> rs_shutdown (pr_server p)"
  shows "pool_step\<^sup>*\<^sup>* (with_backlog role (x # accepted) p, serve sc h role (pick # picks) # ts)
    (with_backlog role accepted p, serve sc h role picks # ts @ (case x of Ok c \<Rightarrow> [connection_task sc h c] | Err e \<Rightarrow> []))"
proof -
  let ?t = "case x of Err e \<Rightarrow> serve sc h role picks | Ok c \<Rightarrow> Spawn (connection_task sc h c) (serve sc h role picks)"
  have go: "pool_step (with_backlog role (x # accepted) p, serve sc h role (pick # picks) # ts) (with_backlog role accepted p, ?t # ts)"
    using pool_step.go [of 0 "serve sc h role (pick # picks) # ts" _ "with_backlog role (x # accepted) p"] assms
    by (simp add: accept_or_stop_def await_def spawn_def connection_task_def split: result.split)
  moreover have "pool_step\<^sup>*\<^sup>* (with_backlog role accepted p, ?t # ts)
      (with_backlog role accepted p, serve sc h role picks # ts @ (case x of Ok c \<Rightarrow> [connection_task sc h c] | Err e \<Rightarrow> []))"
    using pool_step.fork [of 0 "?t # ts" _ "serve sc h role picks" "with_backlog role accepted p"]
    by (auto split: result.split)
  ultimately show ?thesis by (rule converse_rtranclp_into_rtranclp)
qed

lemma serve_pool:
  assumes "\<not> rs_shutdown (pr_server p)" "length accepted \<le> length picks"
  shows "pool_step\<^sup>*\<^sup>* (with_backlog role accepted p, serve sc h role picks # ts)
     (with_backlog role [] p, serve sc h role (drop (length accepted) picks) # ts @ map (connection_task sc h) (List.map_filter result_ok accepted))"
  using assms
proof (induction accepted arbitrary: picks ts)
  case (Cons x accepted)
  obtain pick picks' where picks: "picks = pick # picks'" using Cons.prems(2) by (cases picks) auto
  have "pool_step\<^sup>*\<^sup>* (with_backlog role accepted p, serve sc h role picks' # ts @ new)
      (with_backlog role [] p, serve sc h role (drop (length accepted) picks') # ts @ new @ map (connection_task sc h) (List.map_filter result_ok accepted))"
    for new using Cons.IH [of picks' "ts @ new"] Cons.prems picks by simp
  from rtranclp_trans [OF serve_turn [OF assms(1), of role x accepted sc h pick picks' ts] this] show ?case
    by (cases x) (auto simp: picks List.map_filter_simps)
qed (simp add: List.map_filter_simps)

text \<open>Once the flag is set the loop ends after at most as many turns as there are connections waiting; it leaves the node as it is and
  gives a task to every connection it still takes. Without the flag and without a connection it waits.\<close>

lemma run_serve_stops:
  assumes "rs_shutdown (pr_server p)" "length (pr_backlog p role) < length picks"
  shows "\<exists>n. run (serve sc h role picks) p = Finished (with_backlog role (drop n (pr_backlog p role)) p) ()"
  using assms
proof (induction picks arbitrary: p)
  case (Cons pick picks)
  show ?case
  proof (cases "pr_backlog p role = [] \<or> pick")
    case True
    then have "run (serve sc h role (pick # picks)) p = Finished p ()"
      using Cons.prems(1) by (auto simp: run_call accept_or_stop_def split: list.split)
    moreover have "p = with_backlog role (drop 0 (pr_backlog p role)) p" by (simp add: with_backlog_def)
    ultimately show ?thesis by metis
  next
    case False
    then obtain x rest where b: "pr_backlog p role = x # rest" "\<not> pick" by (cases "pr_backlog p role") auto
    then have "run (serve sc h role (pick # picks)) p = run (serve sc h role picks) (with_backlog role rest p)"
      by (simp add: run_call accept_or_stop_def split: result.split prod.split)
    moreover obtain n where "run (serve sc h role picks) (with_backlog role rest p) =
        Finished (with_backlog role (drop n (pr_backlog (with_backlog role rest p) role)) (with_backlog role rest p)) ()"
      using Cons.IH [of "with_backlog role rest p"] Cons.prems b by auto
    ultimately show ?thesis using b(1) by (intro exI [of _ "Suc n"]) simp
  qed
qed simp

lemma run_serve_waits:
  "\<not> rs_shutdown (pr_server p) \<Longrightarrow> pr_backlog p role = [] \<Longrightarrow> \<exists>t. run (serve sc h role (pick # picks)) p = Blocked p t"
  by (simp add: run_call accept_or_stop_def)

lemma run_on_running:
  "run (on_running m) p = (case run m (pr_server p) of
     Finished rs x \<Rightarrow> Finished (p\<lparr>pr_server := rs\<rparr>) x | Blocked rs t \<Rightarrow> Blocked (p\<lparr>pr_server := rs\<rparr>) (on_running t)
   | Panicked rs e \<Rightarrow> Panicked (p\<lparr>pr_server := rs\<rparr>) e | Halted rs \<Rightarrow> Halted (p\<lparr>pr_server := rs\<rparr>))"
  unfolding on_running_def by (rule run_zoom [where ok = "\<lambda>_. True"]) simp_all

lemma run_spawn_tasks [simp]: "run (spawn_tasks sc h control picks rs rest) p = run rest p"
  by (simp add: spawn_tasks_def)

text \<open>A stop that has to wait sets the flag and goes on when all tasks have ended.\<close>

lemma run_shutdown_waits:
  assumes "\<exists>task \<in> set (rs_tasks rs). \<not> snd task"
  obtains t where "run shutdown rs = Blocked (rs\<lparr>rs_shutdown := True\<rparr>) t"
    "\<And>rs'. length (rs_tasks rs') = length (rs_tasks rs) \<Longrightarrow> \<forall>task \<in> set (rs_tasks rs'). snd task \<Longrightarrow> run t rs' = Finished rs' ()"
proof -
  let ?wait = "\<lambda>i. await (\<lambda>rs. if snd (rs_tasks rs ! i) then Some (rs, ()) else None)"
  let ?t = "for_each ?wait (dropWhile (\<lambda>i. snd (rs_tasks rs ! i)) [0..<length (rs_tasks rs)])"
  have "run shutdown rs = Blocked (rs\<lparr>rs_shutdown := True\<rparr>) ?t"
    using assms by (force simp: shutdown_def run_call run_await_tasks in_set_conv_nth)
  moreover have "run ?t rs' = Finished rs' ()"
    if "length (rs_tasks rs') = length (rs_tasks rs)" "\<forall>task \<in> set (rs_tasks rs'). snd task" for rs'
    using that by (auto simp: run_await_tasks dest!: set_dropWhileD)
  ultimately show ?thesis using that by blast
qed

section \<open>Properties\<close>

text \<open>C25. A node starts completely or not at all, and never without credentials. The start succeeds exactly when
  the routing table could be built, a credential source is configured and loads, and all three
  listeners could be bound; then exactly the three serving tasks exist, on the addresses that were
  really bound, the routing table and the session table are new, and a token is accepted exactly when the token file
  lists it, or, without a token file, when anonymous access was asked for. A token file is never weakened by the
  flag for anonymous access.\<close>

theorem node_starts_exactly:
  "case (start env draws now cfg :: ('m, 'qo, 'qb, 'o, 'd) running_server anyhow) of
     Err chain \<Rightarrow> \<not> (is_ok (build_registry env cfg) \<and> is_ok (build_auth env cfg) \<and> (\<exists>h p. env_bind env [] (http_addr cfg) = Ok h \<and>
        env_bind env [h] (peer_addr cfg) = Ok p \<and> is_ok (env_bind env [h, p] (control_addr cfg))))
   | Ok rs \<Rightarrow> build_registry env cfg = Ok (app_registry (rs_state rs)) \<and>
       env_bind env [] (http_addr cfg) = Ok (rs_http_addr rs) \<and> env_bind env [rs_http_addr rs] (peer_addr cfg) = Ok (rs_peer_addr rs) \<and>
       env_bind env [rs_http_addr rs, rs_peer_addr rs] (control_addr cfg) = Ok (rs_control_addr rs) \<and>
       map fst (rs_tasks rs) = [ServeIngress Public (rs_http_addr rs), ServeIngress Peer (rs_peer_addr rs), ServeControl (rs_control_addr rs)] \<and>
       app_node_addr (rs_state rs) = (case advertise_addr cfg of Some a \<Rightarrow> a | None \<Rightarrow> rs_peer_addr rs) \<and>
       app_sessions (rs_state rs) = manager_new \<and>
       (\<forall>token p. app_auth (rs_state rs) token = Ok p \<longleftrightarrow> (case tokens_file cfg of
          Some path \<Rightarrow> \<exists>raw parsed f. env_read_file env path = Ok raw \<and> env_parse_tokens env raw = Ok parsed \<and>
            parsed token = Some f \<and> p = principal_from f
        | None \<Rightarrow> cfg_allow_anonymous cfg \<and> p = anonymous_principal))"
proof (cases "start env draws now cfg :: ('m, 'qo, 'qb, 'o, 'd) running_server anyhow")
  case (Ok rs)
  then obtain table auth h p c where s: "build_registry env cfg = Ok table" "build_auth env cfg = Ok auth"
    "env_bind env [] (http_addr cfg) = Ok h" "env_bind env [h] (peer_addr cfg) = Ok p" "env_bind env [h, p] (control_addr cfg) = Ok c"
    "rs = started draws now cfg table auth h p c"
    by (auto simp: start_Ok_iff)
  show ?thesis unfolding Ok using s(1-5) build_auth_accepts [OF s(2)] by (simp add: s(6) started_def Let_def cong: option.case_cong)
next
  case (Err chain)
  then have none: "\<And>rs. start env draws now cfg \<noteq> (Ok rs :: ('m, 'qo, 'qb, 'o, 'd) running_server anyhow)" by simp
  have "\<not> (is_ok (build_registry env cfg) \<and> is_ok (build_auth env cfg) \<and> (\<exists>h p. env_bind env [] (http_addr cfg) = Ok h \<and>
      env_bind env [h] (peer_addr cfg) = Ok p \<and> is_ok (env_bind env [h, p] (control_addr cfg))))"
    using none unfolding start_Ok_iff by (metis is_ok_iff)
  then show ?thesis unfolding Err by simp
qed

text \<open>C24. An interrupted node stops, and not before its listeners have. The process ends with the start-up error when the node does not start;
  otherwise it serves until the interrupt, then sets the flag and waits for the three tasks of the listeners, and returns once they have ended. An HTTP listener
  that sees the flag ends by itself, after at most one turn for each connection that is still waiting and one more, and leaves the node as it is.\<close>

theorem interrupted_node_stops:
  fixes p :: "('m, 'qo, 'qb, 'o, 'd, 'c) process"
  shows "let main = server_main R rops lib js keys tkeys parse_uri build sc control env draws now picks cfg in case start env draws now cfg of
      Err chain \<Rightarrow> run main p = Finished p (Err chain)
    | Ok rs \<Rightarrow> pr_ctrl_c p = None \<longrightarrow>
        (\<exists>t. run main p = Blocked (p\<lparr>pr_server := rs\<rparr>) t \<and>
          (\<forall>p1. pr_ctrl_c p1 = Some (Ok ()) \<and> (\<exists>task \<in> set (rs_tasks (pr_server p1)). \<not> snd task) \<longrightarrow>
             (\<exists>t1. run t p1 = Blocked (p1\<lparr>pr_server := (pr_server p1)\<lparr>rs_shutdown := True\<rparr>\<rparr>) t1 \<and>
               (\<forall>p2. length (rs_tasks (pr_server p2)) = length (rs_tasks (pr_server p1)) \<and> (\<forall>task \<in> set (rs_tasks (pr_server p2)). snd task) \<longrightarrow>
                  run t1 p2 = Finished p2 (Ok ())))) \<and>
          (\<forall>p2 i h role turns. rs_shutdown (pr_server p2) \<and> length (pr_backlog p2 role) < length turns \<longrightarrow>
             (\<exists>n. run (serving_task i (serve sc h role turns)) p2 =
                Finished (end_task i (with_backlog role (drop n (pr_backlog p2 role)) p2)) ())))"
proof (cases "start env draws now cfg :: ('m, 'qo, 'qb, 'o, 'd) running_server anyhow")
  case (Err chain)
  then show ?thesis by (simp add: server_main_def)
next
  case (Ok rs)
  define rest :: "(('m, 'qo, 'qb, 'o, 'd, 'c) process, unit anyhow) task" where
    "rest = call (await (\<lambda>p. map_option (Pair p) (pr_ctrl_c p))) (\<lambda>signal. case signal of
       Err e \<Rightarrow> Return (Err [e]) | Ok _ \<Rightarrow> call (on_running shutdown) (\<lambda>_. Return (Ok ())))"
  have "run (server_main R rops lib js keys tkeys parse_uri build sc control env draws now picks cfg) p = Blocked (p\<lparr>pr_server := rs\<rparr>) rest" if "pr_ctrl_c p = None"
    using Ok that by (simp add: server_main_def run_call rest_def)
  moreover have "\<exists>t1. run rest p1 = Blocked (p1\<lparr>pr_server := (pr_server p1)\<lparr>rs_shutdown := True\<rparr>\<rparr>) t1 \<and>
      (\<forall>p2. length (rs_tasks (pr_server p2)) = length (rs_tasks (pr_server p1)) \<and> (\<forall>task \<in> set (rs_tasks (pr_server p2)). snd task) \<longrightarrow>
        run t1 p2 = Finished p2 (Ok ()))"
    if "pr_ctrl_c p1 = Some (Ok ())" "\<exists>task \<in> set (rs_tasks (pr_server p1)). \<not> snd task" for p1
  proof -
    note waiting = that
    obtain t where t: "run shutdown (pr_server p1) = Blocked ((pr_server p1)\<lparr>rs_shutdown := True\<rparr>) t"
      "\<And>rs'. length (rs_tasks rs') = length (rs_tasks (pr_server p1)) \<Longrightarrow> \<forall>task \<in> set (rs_tasks rs'). snd task \<Longrightarrow> run t rs' = Finished rs' ()"
      using run_shutdown_waits [OF waiting(2)] by metis
    with waiting(1) show ?thesis
      by (intro exI [of _ "call (on_running t) (\<lambda>_. Return (Ok ()))"]) (simp add: rest_def run_call run_on_running)
  qed
  moreover have "\<exists>n. run (serving_task i (serve sc h role turns)) p2 = Finished (end_task i (with_backlog role (drop n (pr_backlog p2 role)) p2)) ()"
    if "rs_shutdown (pr_server p2)" "length (pr_backlog p2 role) < length turns"
    for i h role turns and p2 :: "('m, 'qo, 'qb, 'o, 'd, 'c) process"
    using run_serve_stops [OF that, of sc h] by (auto simp: serving_task_def run_call)
  ultimately show ?thesis by (simp add: Ok Let_def)
qed

text \<open>A process before it has started anything, and a machine on which every address can be bound.\<close>

definition open_config :: server_config where
  "open_config = default_config\<lparr>cfg_allow_anonymous := True, cfg_node_id := Some ''node_a''\<rparr>"

definition sample_environment :: "store environment" where
  "sample_environment = \<lparr>env_redis_feature = True, env_redis_open = (\<lambda>_. Ok ()), env_redis_connect = (\<lambda>_. Err ''refused''),
     env_parse_tokens = (\<lambda>_. Err ''none''), env_read_file = (\<lambda>_. Err ''none''), env_bind = (\<lambda>_ addr. Ok addr)\<rparr>"

definition sample_process ::
    "(sem_view, outbound_item chan_view, chunk chan_view, http_response_head slot, store, unit) process" where
  "sample_process = \<lparr>pr_server = started [] 0 open_config (InMemory mem_new) (\<lambda>_. Err (Unauthorized [])) [] [] [],
     pr_backlog = (\<lambda>_. []), pr_ctrl_c = None\<rparr>"

theorem interrupted_node_stops_witness:
  "\<exists>rs t t1. let main = server_main ref_runtime ref_store ref_http \<lparr>json_display = (\<lambda>_. []), json_to_string = (\<lambda>_. Ok [])\<rparr> (\<lambda>_. []) (\<lambda>_. [])
       (\<lambda>_. Err []) (\<lambda>_ _ _. None) (\<lambda>_ _. Return ()) id sample_environment [] 0 (\<lambda>_. [True]) open_config;
       p1 = sample_process\<lparr>pr_server := rs, pr_ctrl_c := Some (Ok ())\<rparr>; stopping = p1\<lparr>pr_server := rs\<lparr>rs_shutdown := True\<rparr>\<rparr>;
       p2 = stopping\<lparr>pr_server := rs\<lparr>rs_shutdown := True, rs_tasks := map (\<lambda>task. (fst task, True)) (rs_tasks rs)\<rparr>\<rparr>
     in run main sample_process = Blocked (sample_process\<lparr>pr_server := rs\<rparr>) t \<and> run t p1 = Blocked stopping t1 \<and> run t1 p2 = Finished p2 (Ok ())"
proof -
  let ?rs = "started [] 0 open_config (InMemory mem_new) (authenticate static_token_auth_anonymous) (http_addr open_config)
    (peer_addr open_config) (control_addr open_config) ::
    (sem_view, outbound_item chan_view, chunk chan_view, http_response_head slot, store) running_server"
  have start: "start sample_environment [] 0 open_config = Ok ?rs"
    by (simp add: start_Ok_iff build_registry_def build_auth_def sample_environment_def open_config_def default_config_def)
  have tasks: "length (rs_tasks ?rs) = 3" "\<exists>task \<in> set (rs_tasks ?rs). \<not> snd task" by (simp_all add: started_def Let_def)
  have "pr_ctrl_c sample_process = None" by (simp add: sample_process_def)
  with interrupted_node_stops [where R = ref_runtime and rops = ref_store and lib = ref_http and js = "\<lparr>json_display = (\<lambda>_. []), json_to_string = (\<lambda>_. Ok [])\<rparr>" and
      keys = "\<lambda>_. []" and tkeys = "\<lambda>_. []" and parse_uri = "\<lambda>_. Err []" and build = "\<lambda>_ _ _. None" and sc = "\<lambda>_ _. Return ()" and control = id and
      env = sample_environment and draws = "[]" and now = 0 and picks = "\<lambda>_. [True]" and cfg = open_config and p = sample_process]
  obtain t where t: "run (server_main ref_runtime ref_store ref_http \<lparr>json_display = (\<lambda>_. []), json_to_string = (\<lambda>_. Ok [])\<rparr> (\<lambda>_. []) (\<lambda>_. [])
       (\<lambda>_. Err []) (\<lambda>_ _ _. None) (\<lambda>_ _. Return ()) id sample_environment [] 0 (\<lambda>_. [True]) open_config) sample_process =
       Blocked (sample_process\<lparr>pr_server := ?rs\<rparr>) t"
    "\<And>p1. pr_ctrl_c p1 = Some (Ok ()) \<Longrightarrow> \<exists>task \<in> set (rs_tasks (pr_server p1)). \<not> snd task \<Longrightarrow>
       \<exists>t1. run t p1 = Blocked (p1\<lparr>pr_server := (pr_server p1)\<lparr>rs_shutdown := True\<rparr>\<rparr>) t1 \<and>
        (\<forall>p2. length (rs_tasks (pr_server p2)) = length (rs_tasks (pr_server p1)) \<and> (\<forall>task \<in> set (rs_tasks (pr_server p2)). snd task) \<longrightarrow>
          run t1 p2 = Finished p2 (Ok ()))"
    unfolding start Let_def by auto
  let ?p1 = "sample_process\<lparr>pr_server := ?rs, pr_ctrl_c := Some (Ok ())\<rparr>"
  obtain t1 where t1: "run t ?p1 = Blocked (?p1\<lparr>pr_server := ?rs\<lparr>rs_shutdown := True\<rparr>\<rparr>) t1"
    "\<And>p2. length (rs_tasks (pr_server p2)) = 3 \<Longrightarrow> \<forall>task \<in> set (rs_tasks (pr_server p2)). snd task \<Longrightarrow> run t1 p2 = Finished p2 (Ok ())"
    using t(2) [of ?p1] tasks by auto
  show ?thesis
    unfolding Let_def
    by (intro exI [of _ ?rs] exI [of _ t] exI [of _ t1] conjI t(1) t1) (simp_all add: tasks(1))
qed

end
