(* ===== verification/Rely.thy ===== *)
theory Rely
  imports Async
begin

text \<open>
  Tasks among others. Between two steps of a task the others change the shared state, but only in the ways a
  rely relation allows: what a task has read stays true as far as the relation keeps it. \<open>secures R I s t\<close> says of a
  task that last saw the state \<open>s\<close>: from every state the others may have led to and that has the invariant \<open>I\<close>, its next
  step keeps \<open>I\<close>, is itself allowed by \<open>R\<close>, and leaves a task of the same kind. The tasks of a pool then keep the
  invariant together. A relation that is reflexive and transitive is what the locale \<open>rely\<close> asks for.
\<close>

inductive secures :: "('s \<Rightarrow> 's \<Rightarrow> bool) \<Rightarrow> ('s \<Rightarrow> bool) \<Rightarrow> 's \<Rightarrow> ('s, 'a) task \<Rightarrow> bool" for R I where
  Return [intro, simp]: "secures R I s (Return a)"
| Halt [intro, simp]: "secures R I s Halt"
| Panic [intro, simp]: "secures R I s (Panic e)"
| Step: "(\<And>u u' t. \<lbrakk>R s u; I u; f u = Some (u', t)\<rbrakk> \<Longrightarrow> I u' \<and> R u u' \<and> secures R I u' t) \<Longrightarrow> secures R I s (Step f)"
| Spawn: "\<lbrakk>secures R I s c; secures R I s t\<rbrakk> \<Longrightarrow> secures R I s (Spawn c t)"

inductive_cases secures_StepE: "secures R I s (Step f)"
inductive_cases secures_SpawnE: "secures R I s (Spawn c t)"

locale rely =
  fixes R :: "'s \<Rightarrow> 's \<Rightarrow> bool"
  assumes rely_refl [simp]: "R s s"
    and rely_trans: "R s t \<Longrightarrow> R t u \<Longrightarrow> R s u"
begin

lemma later:
  assumes "secures R I s t" "R s u"
  shows "secures R I u t"
  using assms
proof (induction arbitrary: u rule: secures.induct)
  case (Step s f)
  show ?case by (rule secures.Step) (use Step in \<open>meson rely_trans\<close>)
qed (auto intro: secures.Spawn)

lemma secures_call:
  assumes "secures R I s m" "\<And>x u. R s u \<Longrightarrow> secures R I u (k x)"
  shows "secures R I s (call m k)"
  using assms
proof (induction rule: secures.induct)
  case (Step s f)
  show ?case
    unfolding call.simps
  proof (rule secures.Step)
    fix u u' t
    assume u: "R s u" "I u" and "map_option (map_prod id (\<lambda>t. call t k)) (f u) = Some (u', t)"
    then obtain t' where "f u = Some (u', t')" "t = call t' k" by auto
    with Step.IH u Step.prems show "I u' \<and> R u u' \<and> secures R I u' t" by (meson rely_trans)
  qed
qed (auto intro: secures.Spawn)

text \<open>A first step, and how the task goes on with what it has seen.\<close>

lemma secures_atomically_then:
  assumes "\<And>u. R s u \<Longrightarrow> I u \<Longrightarrow> I (fst (f u)) \<and> R u (fst (f u)) \<and> secures R I (fst (f u)) (k (snd (f u)))"
  shows "secures R I s (call (atomically f) k)"
  unfolding atomically_def call.simps
  by (rule secures.Step) (use assms in \<open>force simp: case_prod_unfold Let_def\<close>)

lemma secures_read_then:
  "(\<And>u. R s u \<Longrightarrow> I u \<Longrightarrow> secures R I u (k (f u))) \<Longrightarrow> secures R I s (call (read f) k)"
  unfolding read_def by (rule secures_atomically_then) simp

lemma secures_atomically:
  "(\<And>u. R s u \<Longrightarrow> I u \<Longrightarrow> I (fst (f u)) \<and> R u (fst (f u))) \<Longrightarrow> secures R I s (atomically f)"
  unfolding atomically_def by (rule secures.Step) (force simp: case_prod_unfold Let_def)

lemma secures_update: "(\<And>u. R s u \<Longrightarrow> I u \<Longrightarrow> I (f u) \<and> R u (f u)) \<Longrightarrow> secures R I s (update f)"
  unfolding update_def by (rule secures_atomically) simp

lemma secures_read [simp]: "secures R I s (read f)"
  unfolding read_def by (rule secures_atomically) simp

lemma secures_await:
  fixes f :: "'s \<Rightarrow> ('s \<times> 'a) option"
  assumes "\<And>u u' a. R s u \<Longrightarrow> I u \<Longrightarrow> f u = Some (u', a) \<Longrightarrow> I u' \<and> R u u'"
  shows "secures R I s (await f)"
  unfolding await_def
proof (rule secures.Step)
  fix u u' :: 's and t :: "('s, 'a) task"
  assume u: "R s u" "I u" and "map_option (map_prod id Return) (f u) = Some (u', t)"
  then obtain a where "f u = Some (u', a)" "t = Return a" by auto
  with assms [OF u] show "I u' \<and> R u u' \<and> secures R I u' t" by simp
qed

lemma secures_await_then:
  assumes "\<And>u u' x. R s u \<Longrightarrow> I u \<Longrightarrow> f u = Some (u', x) \<Longrightarrow> I u' \<and> R u u' \<and> secures R I u' (k x)"
  shows "secures R I s (call (await f) k)"
  unfolding await_def call.simps
proof (rule secures.Step)
  fix u u' t
  assume u: "R s u" "I u"
    and "map_option (map_prod id (\<lambda>t. call t k)) (map_option (map_prod id Return) (f u)) = Some (u', t)"
  then obtain x where "f u = Some (u', x)" "t = k x" by auto
  with assms [OF u] show "I u' \<and> R u u' \<and> secures R I u' t" by simp
qed

lemma secures_access:
  fixes f :: "'s \<Rightarrow> ('s \<times> 'a) option"
  assumes "\<And>u u' a. R s u \<Longrightarrow> I u \<Longrightarrow> f u = Some (u', a) \<Longrightarrow> I u' \<and> R u u'"
  shows "secures R I s (access e f)"
  unfolding access_def
proof (rule secures.Step)
  fix u u' :: 's and t :: "('s, 'a) task"
  assume u: "R s u" "I u"
    and "(case f u of Some (s', a) \<Rightarrow> Some (s', Return a) | None \<Rightarrow> Some (u, Panic e)) = Some (u', t)"
  then consider a where "f u = Some (u', a)" "t = Return a" | "u' = u" "t = Panic e" by (auto split: option.splits)
  then show "I u' \<and> R u u' \<and> secures R I u' t" using assms [OF u] u by cases simp_all
qed

lemma secures_for_each:
  "(\<And>x u. x \<in> set xs \<Longrightarrow> R s u \<Longrightarrow> secures R I u (body x)) \<Longrightarrow> secures R I s (for_each body xs)"
proof (induction xs arbitrary: s)
  case (Cons x xs)
  show ?case
    unfolding for_each.simps
    by (rule secures_call) (auto intro!: Cons.IH Cons.prems intro: rely_trans)
qed simp

lemma secures_spawn: "secures R I s c \<Longrightarrow> secures R I s t \<Longrightarrow> secures R I s (spawn c t)"
  unfolding spawn_def by (rule secures.Spawn) (auto intro: secures_call)

lemma secures_cancellable:
  "secures R I s t \<Longrightarrow> secures R I s (cancellable c t)"
proof (induction rule: secures.induct)
  case (Step s f)
  show ?case
    unfolding cancellable.simps
  proof (rule secures.Step)
    fix u u' t
    assume u: "R s u" "I u"
      and "(if c u then Some (u, Halt) else map_option (map_prod id (cancellable c)) (f u)) = Some (u', t)"
    then consider "u' = u" "t = Halt" | t' where "f u = Some (u', t')" "t = cancellable c t'"
      by (auto split: if_splits)
    then show "I u' \<and> R u u' \<and> secures R I u' t" using Step.IH [OF u] u by cases simp_all
  qed
qed (auto intro: secures.Spawn)

text \<open>A task on a part of the state, which keeps the part's invariant \<open>J\<close> and moves the part within \<open>Q\<close>.\<close>

lemma secures_zoom:
  assumes "secures Q J x m"
    and part: "\<And>w w'. ok w \<Longrightarrow> R w w' \<Longrightarrow> ok w' \<and> Q (get w) (get w')"
    and inv: "\<And>w. ok w \<Longrightarrow> I w \<Longrightarrow> J (get w)"
    and whole: "\<And>w y. ok w \<Longrightarrow> I w \<Longrightarrow> Q (get w) y \<Longrightarrow> J y \<Longrightarrow> I (put y w) \<and> R w (put y w) \<and> get (put y w) = y"
    and Q: "\<And>x y z. Q x y \<Longrightarrow> Q y z \<Longrightarrow> Q x z" and "ok s" "Q x (get s)"
  shows "secures R I s (zoom get put m)"
  using assms(1,6,7)
proof (induction arbitrary: s rule: secures.induct)
  case (Step x f)
  show ?case
    unfolding zoom.simps
  proof (rule secures.Step)
    fix u u' t
    assume u: "R s u" "I u" and "map_option (map_prod (\<lambda>y. put y u) (zoom get put)) (f (get u)) = Some (u', t)"
    then obtain y t' where y: "f (get u) = Some (y, t')" "u' = put y u" "t = zoom get put t'" by auto
    have ok: "ok u" "Q x (get u)" using part [OF Step.prems(1) u(1)] Step.prems(2) Q by blast+
    note IH = Step.IH [OF ok(2) inv [OF ok(1) u(2)] y(1)]
    have step: "I u'" "R u u'" "get u' = y" using whole [OF ok(1) u(2)] IH y(2) by auto
    then have "ok u'" "Q y y" using part [OF ok(1)] part [of u' u'] by auto
    with IH step y(3) show "I u' \<and> R u u' \<and> secures R I u' t" by simp
  qed
qed (auto intro: secures.Spawn)

text \<open>A pool.\<close>

lemma pool_step_secures:
  assumes "pool_step (s, ts) (s', ts')" "I s" "\<forall>t \<in> set ts. secures R I s t"
  shows "I s' \<and> R s s' \<and> (\<forall>t \<in> set ts'. secures R I s' t)"
  using assms(1)
proof (cases rule: pool_step.cases)
  case (go i f t)
  then have "secures R I s (Step f)" using assms(3) by (metis nth_mem)
  then have s': "I s'" "R s s'" "secures R I s' t" using go(4) assms(2)
    by (blast elim: secures_StepE intro: rely_refl)+
  then have "\<forall>t \<in> set ts. secures R I s' t" using assms(3) later by blast
  then show ?thesis using go s' set_update_subset_insert [of ts i t] by auto
next
  case (fork i c t)
  then have "secures R I s (Spawn c t)" using assms(3) by (metis nth_mem)
  then have "secures R I s c" "secures R I s t" by (auto elim: secures_SpawnE)
  then show ?thesis using fork assms(2,3) set_update_subset_insert [of ts i t] by auto
qed

lemma pool_secures:
  assumes "pool_step\<^sup>*\<^sup>* (s, ts) (s', ts')" "I s" "\<forall>t \<in> set ts. secures R I s t"
  shows "I s' \<and> R s s'"
proof -
  have "I s' \<and> R s s' \<and> (\<forall>t \<in> set ts'. secures R I s' t)"
    using assms(1)
  proof (induction "(s', ts')" arbitrary: s' ts' rule: rtranclp_induct)
    case base
    then show ?case using assms(2,3) by simp
  next
    case (step y)
    obtain s1 ts1 where "y = (s1, ts1)" by force
    with step show ?case using pool_step_secures [of s1 ts1 s' ts' I] rely_trans by blast
  qed
  then show ?thesis by blast
qed

end

end
