(* ===== verification/Session_Identity.thy ===== *)
theory Session_Identity
  imports Rely Ingress
begin

text \<open>
  What no operation of a session changes, whoever runs it: its id and its principal; its streams stay in the heap, and
  its stream table names streams that exist. A task on a session with these guarantees is \<open>steady\<close>, and every
  operation is.
\<close>

definition session_moves :: "('m, 'qo, 'qb, 'o) session \<Rightarrow> ('m, 'qo, 'qb, 'o) session \<Rightarrow> bool" where
  "session_moves s s' \<longleftrightarrow> session_id s' = session_id s \<and> session_principal s' = session_principal s \<and>
     length (stream_heap s) \<le> length (stream_heap s')"

definition streams_exist :: "('m, 'qo, 'qb, 'o) session \<Rightarrow> bool" where
  "streams_exist s \<longleftrightarrow> (\<forall>sid a. streams s sid = Some a \<longrightarrow> a < length (stream_heap s))"

interpretation session_rely: rely session_moves
  by unfold_locales (auto simp: session_moves_def)

named_theorems steady_intros \<open>tasks that keep a session's identity and its stream table\<close>

definition steady :: "(('m, 'qo, 'qb, 'o) session, 'x) task \<Rightarrow> bool" where
  "steady m \<longleftrightarrow> (\<forall>s. secures session_moves streams_exist s m)"

lemma steady_basic [steady_intros, simp]: "steady (Return x)" "steady Halt" "steady (Panic e)" "steady (read f)"
  by (simp_all add: steady_def)

lemma steady_call [steady_intros]: "steady m \<Longrightarrow> (\<And>x. steady (k x)) \<Longrightarrow> steady (call m k)"
  by (simp add: steady_def session_rely.secures_call)

lemma steady_for_each [steady_intros]: "(\<And>x. steady (act x)) \<Longrightarrow> steady (for_each act xs)"
proof (induction xs)
  case (Cons x xs)
  then show ?case unfolding for_each.simps by (intro steady_call) simp_all
qed simp

lemma steady_cases [steady_intros]:
  "(b \<Longrightarrow> steady t) \<Longrightarrow> (\<not> b \<Longrightarrow> steady u) \<Longrightarrow> steady (if b then t else u)"
  "steady t \<Longrightarrow> (\<And>x. steady (k x)) \<Longrightarrow> steady (case opt of None \<Rightarrow> t | Some x \<Rightarrow> k x)"
  "(\<And>x y. steady (h x y)) \<Longrightarrow> steady (case p of (x, y) \<Rightarrow> h x y)"
  by (simp_all split: option.split prod.split)

lemma steady_atomically:
  "(\<And>s. streams_exist s \<Longrightarrow> streams_exist (fst (f s)) \<and> session_moves s (fst (f s))) \<Longrightarrow> steady (atomically f)"
  by (simp add: steady_def session_rely.secures_atomically)

lemma steady_update:
  "(\<And>s. streams_exist s \<Longrightarrow> streams_exist (f s) \<and> session_moves s (f s)) \<Longrightarrow> steady (update f)"
  by (simp add: steady_def session_rely.secures_update)

lemma steady_await:
  "(\<And>s s' x. streams_exist s \<Longrightarrow> f s = Some (s', x) \<Longrightarrow> streams_exist s' \<and> session_moves s s') \<Longrightarrow> steady (await f)"
  by (simp add: steady_def session_rely.secures_await)

lemma steady_access:
  "(\<And>s s' x. streams_exist s \<Longrightarrow> f s = Some (s', x) \<Longrightarrow> streams_exist s' \<and> session_moves s s') \<Longrightarrow> steady (access e f)"
  by (simp add: steady_def session_rely.secures_access)

lemma moves_fields [simp]:
  "session_moves s (s\<lparr>outbound := q\<rparr>)" "session_moves s (s\<lparr>open_streams := n\<rparr>)" "session_moves s (s\<lparr>next_stream_id := i\<rparr>)"
  "session_moves s (s\<lparr>streams := m\<rparr>)" "session_moves s (s\<lparr>tunnels := ts\<rparr>)" "session_moves s (set_stream a f s)" "session_moves s s"
  by (simp_all add: session_moves_def set_stream_def)

lemma streams_exist_fields [simp]:
  "streams_exist (s\<lparr>outbound := q\<rparr>) = streams_exist s" "streams_exist (s\<lparr>open_streams := n\<rparr>) = streams_exist s"
  "streams_exist (s\<lparr>next_stream_id := i\<rparr>) = streams_exist s" "streams_exist (s\<lparr>tunnels := ts\<rparr>) = streams_exist s"
  "streams_exist (set_stream a f s) = streams_exist s"
  by (simp_all add: streams_exist_def set_stream_def)

lemma streams_exist_remove: "streams_exist s \<Longrightarrow> streams_exist (s\<lparr>streams := (streams s)(sid := None)\<rparr>)"
  by (simp add: streams_exist_def)

lemma steady_set_stream [steady_intros, simp]: "steady (update (set_stream a f))"
  by (simp add: steady_update)

lemma steady_session_send [steady_intros]: "steady (session_send R frame)"
  unfolding session_send_def by (rule steady_await) (auto split: poll.splits)

lemma steady_session_try_send [steady_intros]: "steady (session_try_send R frame)"
  unfolding session_try_send_def by (rule steady_atomically) (auto split: option.splits)

lemma steady_close_stream [steady_intros]: "steady (close_stream R sid)"
  unfolding close_stream_def by (intro steady_intros steady_atomically steady_update) (simp_all add: streams_exist_remove)

lemma streams_exist_open:
  "streams_exist s \<Longrightarrow> streams_exist (s\<lparr>stream_heap := stream_heap s @ [st], streams := (streams s)(sid \<mapsto> length (stream_heap s))\<rparr>)"
  by (auto simp: streams_exist_def less_Suc_eq)

lemma moves_open: "session_moves s (s\<lparr>stream_heap := stream_heap s @ [st], streams := m\<rparr>)"
  by (simp add: session_moves_def)

lemma steady_receivers [steady_intros]: "steady (drop_head_receiver R a)" "steady (drop_body_receiver R a)"
  unfolding drop_head_receiver_def drop_body_receiver_def by simp_all

lemma steady_open_http_stream [steady_intros]: "steady (open_http_stream R tid head addr)"
  unfolding open_http_stream_def
  by (intro steady_intros steady_atomically steady_update) (simp_all add: streams_exist_open moves_open)

lemma steady_acquire_credit [steady_intros]: "steady (acquire_credit R a n)"
  unfolding acquire_credit_def by (rule steady_await) (auto split: poll.splits)

lemma steady_send_chunks [steady_intros]: "steady (send_chunks R a sid chunks)"
  by (induction chunks) (simp_all, intro steady_intros)

lemma steady_send_stream_data [steady_intros]: "steady (send_stream_data R sid payload)"
  unfolding send_stream_data_def by (intro steady_intros)

lemma steady_small [steady_intros]:
  "steady (send_stream_end R sid)" "steady (grant_window R sid n)" "steady (reset_stream R sid code message)"
  "steady (close_all_streams R keys)" "steady (drop_body_sender R a)"
  "steady (guard_drop R sid)"
  unfolding send_stream_end_def grant_window_def reset_stream_def close_all_streams_def drop_body_sender_def
      guard_drop_def
  by (intro steady_intros)+

lemma steady_on_response_head [steady_intros]: "steady (on_response_head R head)"
  unfolding on_response_head_def by (rule steady_update) (auto split: option.splits)

lemma steady_stream_body_sender [steady_intros]: "steady (stream_body_sender R sid)"
  unfolding stream_body_sender_def by (rule steady_atomically) (auto split: option.splits)

lemma steady_body_send [steady_intros]: "steady (body_send R a chunk)"
  unfolding body_send_def by (rule steady_await) (auto split: poll.splits)

lemma steady_inbound [steady_intros]:
  "steady (on_stream_data R sid payload)" "steady (on_stream_end R sid trailers)" "steady (on_stream_reset R sid code message)"
  unfolding on_stream_data_def on_stream_end_def on_stream_reset_def
  by (intro steady_intros)+

lemma steady_on_window_update [steady_intros]: "steady (on_window_update R sid n)"
  unfolding on_window_update_def by (rule steady_access) (auto split: option.splits)

lemma steady_tunnels [steady_intros]: "steady (update (insert_tunnel t))" "steady (atomically (remove_tunnel tid))"
  by (auto simp: insert_tunnel_def remove_tunnel_def intro: steady_update steady_atomically)

lemma steady_pump_body [steady_intros]: "steady (pump_body R sid frames)"
  by (induction frames) (auto intro!: steady_intros split: result.split body_frame.split)

lemma steady_poll_body [steady_intros]: "steady (poll_body R lib st)"
  unfolding poll_body_def by (rule steady_await) auto

end
