(* ===== verification/Honest.thy ===== *)
theory Honest
  imports State
begin

text \<open>
  The weaker contract of a routing table that security rests on. A full \<open>registry\<close> promises what each operation
  answers; an honest table only promises that nothing gets into it but what was claimed: after any operation a live lease
  was live before with the same record, or is the record just claimed under its own key. The in-process table is
  honest, and so is the Redis-backed one even when requests and replies are lost.
\<close>

definition adds ::
    "('r \<Rightarrow> string \<Rightarrow> lease option) \<Rightarrow> nat \<Rightarrow> 'r \<Rightarrow> 'r \<Rightarrow> (string \<Rightarrow> route_record \<Rightarrow> bool) \<Rightarrow> bool" where
  "adds leases t s s' new \<longleftrightarrow>
     (\<forall>k r e. live leases s' t k = Some (r, e) \<longrightarrow> new k r \<or> (\<exists>e0. live leases s t k = Some (r, e0)))"

lemma addsD:
  "adds leases t s s' new \<Longrightarrow> live leases s' t k = Some (r, e) \<Longrightarrow> new k r \<or> (\<exists>e0. live leases s t k = Some (r, e0))"
  by (simp add: adds_def)

lemma adds_same: "live leases s' t = live leases s t \<Longrightarrow> adds leases t s s' new"
  by (simp add: adds_def)

lemma adds_refl [simp]: "adds leases t s s new"
  by (simp add: adds_def)

lemma live_earlier: "live leases s u k = Some (r, e) \<Longrightarrow> t \<le> u \<Longrightarrow> live leases s t k = Some (r, e)"
  by (auto simp: live_def split: option.splits if_splits)

locale honest_table =
  fixes G :: "'r registry_ops" and leases :: "'r \<Rightarrow> string \<Rightarrow> lease option" and wf :: "'r \<Rightarrow> bool"
    and storable :: "route_record \<Rightarrow> bool" and ttl_ok :: "nat \<Rightarrow> bool"
  assumes claim_honest: "\<lbrakk>wf s; storable r; ttl_ok ttl\<rbrakk> \<Longrightarrow>
      wf (fst (rg_claim G t t s r ttl)) \<and>
      adds leases t s (fst (rg_claim G t t s r ttl)) (\<lambda>k r'. k = rr_key r \<and> r' = r)"
    and lookup_honest: "wf s \<Longrightarrow>
      wf (fst (rg_lookup G t s k)) \<and> adds leases t s (fst (rg_lookup G t s k)) (\<lambda>_ _. False) \<and>
      (\<forall>r. snd (rg_lookup G t s k) = Ok (Some r) \<longrightarrow> (\<exists>e. live leases s t k = Some (r, e)))"
    and renew_honest: "\<lbrakk>wf s; ttl_ok ttl\<rbrakk> \<Longrightarrow>
      wf (fst (rg_renew G t t s k sid ttl)) \<and> adds leases t s (fst (rg_renew G t t s k sid ttl)) (\<lambda>_ _. False)"
    and release_honest: "wf s \<Longrightarrow>
      wf (fst (rg_release G t s k sid)) \<and> adds leases t s (fst (rg_release G t s k sid)) (\<lambda>_ _. False)"

text \<open>The full contract gives this one.\<close>

context routing_table
begin

lemma claim_adds:
  assumes "wf s" "storable r" "ttl_ok ttl"
  shows "wf (fst (rg_claim G t t s r ttl)) \<and> adds leases t s (fst (rg_claim G t t s r ttl)) (\<lambda>k r'. k = rr_key r \<and> r' = r)"
proof (cases "\<exists>r0 e0. live leases s t (rr_key r) = Some (r0, e0) \<and> rr_session r0 \<noteq> rr_session r")
  case True
  then show ?thesis using claim_taken [OF assms(1,2) le_refl assms(3)] by (force intro!: adds_same)
next
  case False
  then obtain s' e where "rg_claim G t t s r ttl = (s', Ok Acquired)" "wf s'"
    "live leases s' t = (live leases s t)(rr_key r := valid_until (r, e) t)"
    using claim_acquired [OF assms(1,2) le_refl assms(3)] by (metis le_refl)
  then show ?thesis by (auto simp: adds_def valid_until_def split: if_splits)
qed

lemma renew_adds:
  assumes "wf s" "ttl_ok ttl"
  shows "wf (fst (rg_renew G t t s k sid ttl)) \<and> adds leases t s (fst (rg_renew G t t s k sid ttl)) (\<lambda>_ _. False)"
proof (cases "\<exists>r e. live leases s t k = Some (r, e) \<and> rr_session r = sid")
  case True
  then obtain r e0 s' e where "live leases s t k = Some (r, e0)" "rg_renew G t t s k sid ttl = (s', Ok True)" "wf s'"
    "live leases s' t = (live leases s t)(k := valid_until (r, e) t)"
    using renew_owner [OF assms(1) le_refl assms(2)] by (metis le_refl)
  then show ?thesis by (auto simp: adds_def valid_until_def split: if_splits)
next
  case False
  then show ?thesis using renew_other [OF assms(1) le_refl assms(2)] by (force intro!: adds_same)
qed

lemma release_adds:
  assumes "wf s"
  shows "wf (fst (rg_release G t s k sid)) \<and> adds leases t s (fst (rg_release G t s k sid)) (\<lambda>_ _. False)"
proof (cases "\<exists>r e. live leases s t k = Some (r, e) \<and> rr_session r = sid")
  case True
  then obtain s' where "rg_release G t s k sid = (s', Ok ())" "wf s'" "live leases s' t = (live leases s t)(k := None)"
    using release_owner [OF assms] by blast
  then show ?thesis by (auto simp: adds_def split: if_splits)
next
  case False
  then show ?thesis using release_other [OF assms] by (force intro!: adds_same)
qed

end

sublocale routing_table \<subseteq> honest: honest_table G leases wf storable ttl_ok
proof (unfold_locales, goal_cases)
  case (2 s t k)
  obtain s' where "rg_lookup G t s k = (s', Ok (map_option fst (live leases s t k)))" "wf s'" "live leases s' t = live leases s t"
    using lookup_live [OF 2] by blast
  then show ?case by (auto intro: adds_same)
qed (rule claim_adds renew_adds release_adds; assumption)+


text \<open>Whatever the way to the server does with a request, the Redis-backed table stays honest.\<close>

definition remote_wf :: "('d \<Rightarrow> string \<Rightarrow> string leased option) \<Rightarrow> string \<Rightarrow> link \<times> 'd \<Rightarrow> bool" where
  "remote_wf entries prefix s \<longleftrightarrow> redis_wf entries prefix (snd s)"

lemma remote_state:
  "fst (rg_claim (redis_registry rops prefix) t t (l, db) r ttl) =
     (l, if reaches l then snd (fst (rg_claim (redis_registry rops prefix) t t (Up, db) r ttl)) else db)"
  "fst (rg_lookup (redis_registry rops prefix) t (l, db) k) = (l, db)"
  "fst (rg_renew (redis_registry rops prefix) t t (l, db) k sid ttl) =
     (l, if reaches l then snd (fst (rg_renew (redis_registry rops prefix) t t (Up, db) k sid ttl)) else db)"
  "fst (rg_release (redis_registry rops prefix) t (l, db) k sid) =
     (l, if reaches l then snd (fst (rg_release (redis_registry rops prefix) t (Up, db) k sid)) else db)"
  by (simp_all add: redis_registry_def redis_claim_def redis_lookup_def redis_renew_def redis_release_def
      case_prod_unfold Let_def invoke_async_state reaches_def)

lemma remote_lookup_answer:
  "snd (rg_lookup (redis_registry rops prefix) t (l, db) k) = Ok (Some r) \<Longrightarrow>
   snd (rg_lookup (redis_registry rops prefix) t (Up, db) k) = Ok (Some r)"
  by (cases l) (simp_all add: redis_registry_def redis_lookup_def case_prod_unfold Let_def)

lemma adds_remote:
  "adds (shared_leases entries prefix) t (Up, db) (Up, db') new \<Longrightarrow>
   adds (shared_leases entries prefix) t (l, db) (l, if b then db' else db) new"
  by (auto simp: adds_def live_def shared_leases_def)

sublocale redis_table \<subseteq> remote: honest_table "redis_registry ops prefix" "shared_leases entries prefix"
  "remote_wf entries prefix" tab_free px_ok
proof -
  have up: "shared_wf entries prefix (Up, db)" if "remote_wf entries prefix (l, db)" for l db
    using that by (simp add: shared_wf_def remote_wf_def)
  have step: "remote_wf entries prefix (l, if b then snd x else db) \<and>
      adds (shared_leases entries prefix) t (l, db) (l, if b then snd x else db) new"
    if "remote_wf entries prefix (l, db)" "shared_wf entries prefix x \<and> adds (shared_leases entries prefix) t (Up, db) x new"
    for l db b t x new
    using that adds_remote [of entries prefix t db "snd x" new l b] by (cases x) (auto simp: shared_wf_def remote_wf_def)
  show "honest_table (redis_registry ops prefix) (shared_leases entries prefix) (remote_wf entries prefix) tab_free px_ok"
  proof (unfold_locales, goal_cases)
    case (1 s r ttl t)
    then show ?case using step [OF _ shared.honest.claim_honest [OF up]] by (cases s) (simp add: remote_state)
  next
    case (2 s t k)
    obtain l db where s: "s = (l, db)" by force
    have "\<exists>e. live (shared_leases entries prefix) (l, db) t k = Some (r, e)"
      if "snd (rg_lookup (redis_registry ops prefix) t (l, db) k) = Ok (Some r)" for r
      using shared.honest.lookup_honest [OF up, of l db t k] remote_lookup_answer [OF that] 2
      by (simp add: s live_def shared_leases_def)
    then show ?case using 2 by (simp add: s remote_state)
  next
    case (3 s ttl t k sid)
    then show ?case using step [OF _ shared.honest.renew_honest [OF up]] by (cases s) (simp add: remote_state)
  next
    case (4 s t k sid)
    then show ?case using step [OF _ shared.honest.release_honest [OF up]] by (cases s) (simp add: remote_state)
  qed
qed

end
