(* ===== verification/Node_Security.thy ===== *)
theory Node_Security
  imports Session_Identity Honest Control_Properties
begin

text \<open>
  One node under concurrency. Every task of a node (a session's RPC with its read loop, heartbeat and teardown, a request
  of a visitor on either listener with its upload, the response body and its guard) moves the node's state only in
  the ways \<open>node_moves\<close> allows and keeps \<open>node_secure\<close>: the session table names existing sessions under their own
  ids, the streams of a session exist, every session belongs to a principal that the credential check returned, and
  every live route is one that the principal of its session is entitled to.

  \<open>who\<close> maps a session id to its principal and \<open>members\<close> lists the nodes that share the routing table, each with its
  configuration, id, address and credential check.
\<close>

section \<open>The invariant\<close>

text \<open>Which keys a principal may hold on a node: a host that its account's custom domains cover, a child of the base
  domain with a label that is not reserved or was granted, or a TCP port.\<close>

definition entitled :: "server_config \<Rightarrow> principal \<Rightarrow> string \<Rightarrow> bool" where
  "entitled cfg p k \<longleftrightarrow>
     canonical_host k \<and> may_use_custom_domain p k \<or>
     (\<exists>label. subdomain_of k (base_domain cfg) = Some label \<and> dns_label label \<and> normalize_host k = Ok k \<and>
        (\<not> is_reserved_subdomain label \<or> may_claim_subdomain p label)) \<or>
     (\<exists>port. port \<noteq> 0 \<and> k = as_storage_key (TcpPort port))"

type_synonym member = "server_config \<times> string \<times> string \<times> (string \<Rightarrow> (principal, error) result)"

definition legit :: "(string \<Rightarrow> principal) \<Rightarrow> member set \<Rightarrow> string \<Rightarrow> route_record \<Rightarrow> bool" where
  "legit who members k r \<longleftrightarrow>
     rr_key r = k \<and> rr_account r = account_id (who (rr_session r)) \<and>
     (\<exists>d. id_draws d \<and> rr_session r = new_session_id d) \<and> (\<exists>d. id_draws d \<and> rr_tunnel r = new_tunnel_id d) \<and>
     (\<exists>cfg auth token. (cfg, rr_node_id r, rr_node_addr r, auth) \<in> members \<and> auth token = Ok (who (rr_session r)) \<and>
        entitled cfg (who (rr_session r)) k)"

definition session_secure ::
    "(string \<Rightarrow> principal) \<Rightarrow> (string \<Rightarrow> (principal, error) result) \<Rightarrow> ('m, 'qo, 'qb, 'o) session \<Rightarrow> bool" where
  "session_secure who auth s \<longleftrightarrow>
     streams_exist s \<and> session_principal s = who (session_id s) \<and>
     (\<exists>d. id_draws d \<and> session_id s = new_session_id d) \<and> (\<exists>token. auth token = Ok (session_principal s))"

definition node_secure ::
    "(string \<Rightarrow> principal) \<Rightarrow> member set \<Rightarrow> ('r \<Rightarrow> string \<Rightarrow> lease option) \<Rightarrow> ('r \<Rightarrow> bool) \<Rightarrow>
     ('m, 'qo, 'qb, 'o, 'r) server \<Rightarrow> bool" where
  "node_secure who members leases good w \<longleftrightarrow>
     (app_config w, app_node_id w, app_node_addr w, app_auth w) \<in> members \<and>
     (\<forall>a. has_session a w \<longrightarrow> session_secure who (app_auth w) (session_at a w)) \<and>
     (\<forall>sid a. sessions (app_sessions w) sid = Some a \<longrightarrow> has_session a w \<and> session_id (session_at a w) = sid) \<and>
     good (app_registry w) \<and>
     (\<forall>k r e. live leases (app_registry w) (clock w) k = Some (r, e) \<longrightarrow> legit who members k r)"

definition node_moves :: "('m, 'qo, 'qb, 'o, 'r) server \<Rightarrow> ('m, 'qo, 'qb, 'o, 'r) server \<Rightarrow> bool" where
  "node_moves w w' \<longleftrightarrow>
     app_config w' = app_config w \<and> app_node_id w' = app_node_id w \<and> app_node_addr w' = app_node_addr w \<and>
     app_auth w' = app_auth w \<and> clock w \<le> clock w' \<and>
     (\<forall>a. has_session a w \<longrightarrow> has_session a w' \<and> session_moves (session_at a w) (session_at a w'))"

interpretation node_rely: rely node_moves
  by unfold_locales (auto simp: node_moves_def intro: session_rely.rely_trans)

text \<open>What the random generator and the agents' frames deliver.\<close>

definition entropy_ok :: "entropy \<Rightarrow> bool" where
  "entropy_ok ent \<longleftrightarrow> length (subdomain_draws ent) = GENERATED_SUBDOMAIN_LEN \<and>
     set (subdomain_draws ent) \<subseteq> {..<length SUBDOMAIN_ALPHABET} \<and> id_draws (tunnel_draws ent)"

definition base_ok :: "server_config \<Rightarrow> bool" where
  "base_ok cfg \<longleftrightarrow> (case normalize_host (base_domain cfg) of Ok b \<Rightarrow> plain_host b | Err _ \<Rightarrow> False)"

text \<open>What an agent may ask for without bringing a tab into a record: a custom domain that holds none, or that no account of the
  cluster may use.\<close>

definition ask_ok :: "member set \<Rightarrow> tunnel_spec option \<Rightarrow> bool" where
  "ask_ok members spec \<longleftrightarrow> (case spec of
     Some (HttpSpec hs) \<Rightarrow> (\<forall>h. normalize_host (hs_custom_domain hs) = Ok h \<longrightarrow> tab_char \<in> set h \<longrightarrow>
       (\<forall>(cfg, node, addr, auth) \<in> members. \<forall>token p. auth token = Ok p \<longrightarrow> \<not> may_use_custom_domain p h))
   | _ \<Rightarrow> True)"

definition frame_ok :: "member set \<Rightarrow> (client_payload option, status) result \<Rightarrow> bool" where
  "frame_ok members frame \<longleftrightarrow> (case frame of Ok (Some (COpenTunnel req)) \<Rightarrow> ask_ok members (ot_spec req) | _ \<Rightarrow> True)"

definition inbound_ok :: "member set \<Rightarrow> inbound \<Rightarrow> bool" where
  "inbound_ok members inbound \<longleftrightarrow> (\<forall>(frame, ent) \<in> set inbound. entropy_ok ent \<and> frame_ok members frame)"

text \<open>The base domains of the nodes hold no tab.\<close>

definition bases_ok :: "member set \<Rightarrow> bool" where
  "bases_ok members \<longleftrightarrow> (\<forall>(cfg, node, addr, auth) \<in> members. \<forall>b. normalize_host (base_domain cfg) = Ok b \<longrightarrow> tab_char \<notin> set b)"

section \<open>Steps\<close>

lemma session_secure_moves:
  "session_secure who auth s \<Longrightarrow> session_moves s y \<Longrightarrow> streams_exist y \<Longrightarrow> session_secure who auth y"
  unfolding session_secure_def session_moves_def by metis

lemma node_secureD:
  assumes "node_secure who members leases good w"
  shows "(app_config w, app_node_id w, app_node_addr w, app_auth w) \<in> members" "good (app_registry w)"
    and "\<And>a. has_session a w \<Longrightarrow> session_secure who (app_auth w) (session_at a w)"
    and "\<And>sid a. sessions (app_sessions w) sid = Some a \<Longrightarrow> has_session a w \<and> session_id (session_at a w) = sid"
    and "\<And>k r e. live leases (app_registry w) (clock w) k = Some (r, e) \<Longrightarrow> legit who members k r"
  using assms by (simp_all add: node_secure_def)

lemma has_session_registry [simp]:
  "has_session a (w\<lparr>app_registry := r\<rparr>) = has_session a w" "has_session a (w\<lparr>heartbeat_aborted := h\<rparr>) = has_session a w"
  by (simp_all add: has_session_def)

lemma resolved_entitled:
  assumes "resolve_target cfg p draws spec = Ok (key, url)" "base_ok cfg"
    and "length draws = GENERATED_SUBDOMAIN_LEN" "set draws \<subseteq> {..<length SUBDOMAIN_ALPHABET}"
  shows "entitled cfg p (as_storage_key key)"
proof -
  obtain b where b: "normalize_host (base_domain cfg) = Ok b" "plain_host b"
    using assms(2) by (auto simp: base_ok_def split: result.splits)
  consider (http) h where "spec = Some (HttpSpec h)" "resolve_http_target cfg p draws h = Ok (key, url)"
    | (tcp) t where "resolve_tcp_target cfg t = Ok (key, url)"
    using assms(1) by (auto simp: resolve_target_def split: option.splits tunnel_spec.splits)
  then show ?thesis
  proof cases
    case http
    from resolved_host_authorised [OF http(2) b assms(3,4)] show ?thesis
      by (auto simp: entitled_def dest: canonical_host_normalize split: if_splits)
  next
    case tcp
    then show ?thesis by (auto simp: resolve_tcp_target_def entitled_def Let_def split: if_splits)
  qed
qed

lemma tab_not_in_label: "dns_label l \<Longrightarrow> tab_char \<notin> set l"
  by (auto simp: dns_label_def list_all_iff label_char_def is_ascii_digit_def is_ascii_lowercase_def byte_def)

lemma resolved_tab_free:
  assumes "resolve_target cfg p draws spec = Ok (key, url)" "base_ok cfg"
    and "length draws = GENERATED_SUBDOMAIN_LEN" "set draws \<subseteq> {..<length SUBDOMAIN_ALPHABET}"
    and m: "(cfg, node, addr, auth) \<in> members" "auth token = Ok p" and "ask_ok members spec" "bases_ok members"
  shows "tab_char \<notin> set (as_storage_key key)"
proof -
  obtain b where b: "normalize_host (base_domain cfg) = Ok b" "plain_host b"
    using assms(2) by (auto simp: base_ok_def split: result.splits)
  have base: "tab_char \<notin> set b" using assms(8) m(1) b(1) by (fastforce simp: bases_ok_def)
  consider (http) h where "spec = Some (HttpSpec h)" "resolve_http_target cfg p draws h = Ok (key, url)"
    | (tcp) t where "resolve_tcp_target cfg t = Ok (key, url)"
    using assms(1) by (auto simp: resolve_target_def split: option.splits tunnel_spec.splits)
  then show ?thesis
  proof cases
    case http
    from resolved_host_authorised [OF http(2) b assms(3,4)] show ?thesis
      using assms(7) m base tab_not_in_label
      by (fastforce simp: http(1) ask_ok_def subdomain_of_Some_iff b(1) split: if_splits)
  next
    case tcp
    then show ?thesis by (auto simp: resolve_tcp_target_def Let_def tab_not_in_number split: if_splits)
  qed
qed

context honest_table
begin

abbreviation secure ::
    "(string \<Rightarrow> principal) \<Rightarrow> member set \<Rightarrow> ('m, 'qo, 'qb, 'o, 'r) server \<Rightarrow> bool" where
  "secure who members \<equiv> node_secure who members leases wf"

lemma on_session_secures:
  assumes "steady m" "has_session a s"
  shows "secures node_moves (secure who members) s (on_session a m)"
  unfolding on_session_def
proof (rule node_rely.secures_zoom [where ok = "has_session a" and Q = session_moves and J = streams_exist])
  show "secures session_moves streams_exist (session_at a s) m" using assms(1) by (simp add: steady_def)
  fix w y
  assume w: "has_session a w" "secure who members w" "session_moves (session_at a w) y" "streams_exist y"
  have "session_secure who (app_auth w) (session_at b (set_session a y w))" if "has_session b w" for b
    using that w(1,3,4) node_secureD(3) [OF w(2)] session_secure_moves by (cases "b = a") force+
  moreover have "session_id (session_at b (set_session a y w)) = session_id (session_at b w)"
    "session_moves (session_at b w) (session_at b (set_session a y w))" for b
    using w by (cases "b = a"; auto simp: session_moves_def)+
  ultimately show "secure who members (set_session a y w) \<and> node_moves w (set_session a y w) \<and> session_at a (set_session a y w) = y"
    using w by (auto simp: node_secure_def node_moves_def)
qed (use assms in \<open>auto simp: node_moves_def node_secure_def session_secure_def intro: session_rely.rely_trans\<close>)

text \<open>A call of the table.\<close>

lemma table_call_secures:
  assumes honest: "\<And>t x. wf x \<Longrightarrow> wf (fst (op t x)) \<and> adds leases t x (fst (op t x)) new"
    and new: "\<And>k x. new k x \<Longrightarrow> legit who members k x"
  shows "secures node_moves (secure who members) s
    (atomically (\<lambda>w. let (r, res) = op (clock w) (app_registry w) in (w\<lparr>app_registry := r\<rparr>, res)))"
proof (rule node_rely.secures_atomically)
  fix u assume u: "secure who members u"
  let ?r = "fst (op (clock u) (app_registry u))"
  have r: "wf ?r" "adds leases (clock u) (app_registry u) ?r new" using honest [OF node_secureD(2) [OF u]] by simp_all
  have "legit who members k x" if "live leases ?r (clock u) k = Some (x, e)" for k x e
    using addsD [OF r(2) that] new node_secureD(5) [OF u] by blast
  with u r(1) show "secure who members (fst (let (r, res) = op (clock u) (app_registry u) in (u\<lparr>app_registry := r\<rparr>, res))) \<and>
      node_moves u (fst (let (r, res) = op (clock u) (app_registry u) in (u\<lparr>app_registry := r\<rparr>, res)))"
    by (simp add: case_prod_unfold Let_def node_secure_def node_moves_def)
qed

lemma claim_secures:
  assumes "legit who members (rr_key r) r" "storable r" "ttl_ok ttl"
  shows "secures node_moves (secure who members) s (registry_claim G r ttl)"
  unfolding registry_claim_def
  by (rule table_call_secures [where op = "\<lambda>t x. rg_claim G t t x r ttl" and new = "\<lambda>k x. k = rr_key r \<and> x = r"])
    (use claim_honest assms in auto)

lemma lookup_secures: "secures node_moves (secure who members) s (registry_lookup G key)"
  unfolding registry_lookup_def
  by (rule table_call_secures [where op = "\<lambda>t x. rg_lookup G t x key" and new = "\<lambda>_ _. False"]) (use lookup_honest in auto)

lemma renew_secures: "ttl_ok ttl \<Longrightarrow> secures node_moves (secure who members) s (registry_renew G key sid ttl)"
  unfolding registry_renew_def
  by (rule table_call_secures [where op = "\<lambda>t x. rg_renew G t t x key sid ttl" and new = "\<lambda>_ _. False"]) (use renew_honest in auto)

lemma release_secures: "secures node_moves (secure who members) s (registry_release G key sid)"
  unfolding registry_release_def
  by (rule table_call_secures [where op = "\<lambda>t x. rg_release G t x key sid" and new = "\<lambda>_ _. False"]) (use release_honest in auto)

text \<open>Registration: what is claimed is what the session's principal is entitled to.\<close>

lemma new_route_legit:
  assumes "secure who members w" "has_session a w" "base_ok (app_config w)" "entropy_ok ent"
    and "resolve_target (app_config w) (session_principal (session_at a w)) (subdomain_draws ent) spec = Ok (key, url)"
  shows "legit who members (as_storage_key key) (new_route w a key (new_tunnel_id (tunnel_draws ent)))"
proof -
  note s = node_secureD(3) [OF assms(1,2)]
  have "entitled (app_config w) (session_principal (session_at a w)) (as_storage_key key)"
    using resolved_entitled [OF assms(5,3)] assms(4) by (simp add: entropy_ok_def)
  then show ?thesis
    using s node_secureD(1) [OF assms(1)] assms(4) by (auto simp: legit_def new_route_def session_secure_def entropy_ok_def) blast
qed

lemma register_secures:
  assumes "has_session a s" "base_ok (app_config s)" "ttl_ok (route_ttl (app_config s))" "entropy_ok ent" "ask_ok members (ot_spec req)"
    and storable: "\<And>k r. legit who members k r \<Longrightarrow> tab_char \<notin> set k \<Longrightarrow> storable r" "bases_ok members"
  shows "secures node_moves (secure who members) s (register_tunnel G a ent req)"
  unfolding register_tunnel_def
proof (rule node_rely.secures_read_then, goal_cases)
  case (1 u)
  then have u: "has_session a u" "app_config u = app_config s" using assms(1) by (auto simp: node_moves_def)
  have claim: "secures node_moves (secure who members) u' (registry_claim G (new_route u a key (new_tunnel_id (tunnel_draws ent))) (route_ttl (app_config u)))"
    if "resolve_target (app_config u) (session_principal (session_at a u)) (subdomain_draws ent) (ot_spec req) = Ok (key, url)" for u' key url
  proof -
    have "session_secure who (app_auth u) (session_at a u)" using node_secureD(3) [OF 1(2) u(1)] .
    then obtain token where "app_auth u token = Ok (session_principal (session_at a u))" by (auto simp: session_secure_def)
    with resolved_tab_free [OF that _ _ _ node_secureD(1) [OF 1(2)]] assms u(2) have "tab_char \<notin> set (as_storage_key key)"
      by (simp add: entropy_ok_def)
    then show ?thesis
      using new_route_legit [OF 1(2) u(1) _ assms(4) that] u(2) assms(2,3) storable
      by (intro claim_secures) (auto simp: new_route_def)
  qed
  have tunnel: "secures node_moves (secure who members) u' (on_session a (update (insert_tunnel t)))" if "node_moves u u'" for t u'
    using that u(1) by (intro on_session_secures steady_tunnels) (simp add: node_moves_def)
  show ?case
    by (auto simp: Let_def split: result.split claim.split intro!: node_rely.secures_call [OF claim] node_rely.secures_call [OF tunnel])
qed

text \<open>A session that exists goes on existing, so its operations stay allowed.\<close>

lemma moves_session: "node_moves s u \<Longrightarrow> has_session a s \<Longrightarrow> has_session a u"
  by (simp add: node_moves_def)

lemmas secures_intros = node_rely.secures_call node_rely.secures_for_each node_rely.secures_cancellable node_rely.secures_read
  on_session_secures lookup_secures release_secures renew_secures steady_intros

lemma frame_secures:
  assumes "has_session a s" "base_ok (app_config s)" "ttl_ok (route_ttl (app_config s))" "entropy_ok ent" "frame_ok members (Ok frame)"
    and "\<And>k r. legit who members k r \<Longrightarrow> tab_char \<notin> set k \<Longrightarrow> storable r" "bases_ok members"
  shows "secures node_moves (secure who members) s (handle_client_frame R G a ent frame)"
  unfolding handle_client_frame_def
  using assms(5)
  by (auto simp: frame_ok_def split: option.split client_payload.split intro!: secures_intros register_secures [OF assms(1-4) _ assms(6,7)] assms(1)
      intro: moves_session)

lemma read_loop_secures:
  assumes "has_session a s" "base_ok (app_config s)" "ttl_ok (route_ttl (app_config s))" "inbound_ok members inbound"
    and "\<And>k r. legit who members k r \<Longrightarrow> tab_char \<notin> set k \<Longrightarrow> storable r" "bases_ok members"
  shows "secures node_moves (secure who members) s (read_loop R G a inbound)"
  using assms(1-4)
proof (induction inbound arbitrary: s)
  case (Cons item inbound)
  have "secures node_moves (secure who members) u (read_loop R G a inbound)" if "node_moves s u" for u
    using that Cons.prems by (intro Cons.IH) (auto simp: node_moves_def inbound_ok_def)
  with Cons.prems show ?case
    by (auto simp: inbound_ok_def split: prod.split result.split intro!: node_rely.secures_call frame_secures assms(5,6))
qed simp

lemma teardown_secures:
  assumes "has_session a s"
  shows "secures node_moves (secure who members) s (teardown R G tkeys skeys a)"
proof -
  have remove: "secures node_moves (secure who members) u
      (update (\<lambda>w. w\<lparr>app_sessions := fst (manager_remove sid (app_sessions w))\<rparr>))" for u sid
    by (rule node_rely.secures_update)
      (auto simp: node_secure_def node_moves_def manager_remove_def has_session_def session_at_def)
  show ?thesis
    unfolding teardown_def by (auto intro!: secures_intros remove) (blast intro: moves_session assms)+
qed

lemma renew_tunnel_secures:
  assumes "has_session a s" "ttl_ok ttl"
  shows "secures node_moves (secure who members) s (renew_tunnel R G a sid ttl t)"
  unfolding renew_tunnel_def notify_tunnel_lost_def
  by (auto split: result.split bool.split intro!: secures_intros assms(2)) (blast intro: moves_session assms(1))+

lemma beat_secures:
  assumes "has_session a s" "ttl_ok ttl"
  shows "secures node_moves (secure who members) s (beat R G tkeys a ttl p)"
  unfolding beat_def
  by (auto intro!: secures_intros renew_tunnel_secures assms) (blast intro: moves_session assms(1))+

lemma tick_secures: "secures node_moves (secure who members) s (tick a due)"
  unfolding tick_def
  by (intro node_rely.secures_cancellable node_rely.secures_await) (auto split: if_splits)

lemma heartbeat_loop_secures:
  "has_session a s \<Longrightarrow> ttl_ok ttl \<Longrightarrow> secures node_moves (secure who members) s (heartbeat_loop R G tkeys a interval ttl due ps)"
proof (induction ps arbitrary: s due)
  case (Cons p ps)
  then show ?case by (auto intro!: node_rely.secures_call tick_secures beat_secures Cons.IH) (blast intro: moves_session)+
qed simp

lemma heartbeat_secures:
  assumes "has_session a s" "ttl_ok (route_ttl (app_config s))"
  shows "secures node_moves (secure who members) s (heartbeat_task R G tkeys a ps)"
  unfolding heartbeat_task_def
proof (rule node_rely.secures_read_then, goal_cases)
  case (1 u)
  then have "app_config u = app_config s" "has_session a u" using assms(1) by (auto simp: node_moves_def)
  with assms(2) show ?case
    by (auto intro!: node_rely.secures_call tick_secures heartbeat_loop_secures intro: moves_session)
qed

lemma run_session_secures:
  assumes "has_session a s" "base_ok (app_config s)" "ttl_ok (route_ttl (app_config s))" "inbound_ok members inbound"
    and "\<And>k r. legit who members k r \<Longrightarrow> tab_char \<notin> set k \<Longrightarrow> storable r" "bases_ok members"
  shows "secures node_moves (secure who members) s (run_session R G tkeys skeys a ps inbound)"
proof -
  have abort: "secures node_moves (secure who members) u (update (\<lambda>w. w\<lparr>heartbeat_aborted := h w\<rparr>))" for u h
    by (rule node_rely.secures_update) (auto simp: node_secure_def node_moves_def)
  have end': "secures node_moves (secure who members) u (teardown R G tkeys skeys a)" if "node_moves s u" for u
    using that assms(1) by (intro teardown_secures) (simp add: node_moves_def)
  show ?thesis
    unfolding run_session_def
    by (intro node_rely.secures_spawn heartbeat_secures node_rely.secures_call read_loop_secures abort assms)
      (auto intro: end' node_rely.rely_trans)
qed

text \<open>The RPC. \<open>who\<close> has to give the session id that is drawn here to the principal that is admitted here.\<close>

definition with_session ::
    "('m, 'qo, 'qb, 'o) session \<Rightarrow> ('m, 'qo, 'qb, 'o, 'r) server \<Rightarrow> ('m, 'qo, 'qb, 'o, 'r) server" where
  "with_session x w = w\<lparr>app_sessions := (app_sessions w)\<lparr>session_heap := session_heap (app_sessions w) @ [x]\<rparr>\<rparr>"

lemma with_session_at:
  "has_session b w \<Longrightarrow> session_at b (with_session x w) = session_at b w"
  "session_at (length (session_heap (app_sessions w))) (with_session x w) = x"
  "has_session b (with_session x w) \<longleftrightarrow> has_session b w \<or> b = length (session_heap (app_sessions w))"
  by (auto simp: with_session_def has_session_def session_at_def nth_append)

lemma with_session_fields [simp]:
  "app_config (with_session x w) = app_config w" "app_node_id (with_session x w) = app_node_id w"
  "app_node_addr (with_session x w) = app_node_addr w" "app_auth (with_session x w) = app_auth w" "clock (with_session x w) = clock w"
  "app_registry (with_session x w) = app_registry w" "sessions (app_sessions (with_session x w)) = sessions (app_sessions w)"
  by (simp_all add: with_session_def)

lemma with_session_secure:
  assumes "secure who members u" "session_secure who (app_auth u) x"
  shows "secure who members (with_session x u) \<and> node_moves u (with_session x u)"
proof -
  have "session_secure who (app_auth u) (session_at b (with_session x u))" if "has_session b (with_session x u)" for b
    using that assms(2) node_secureD(3) [OF assms(1)] by (auto simp: with_session_at)
  moreover have "has_session b (with_session x u) \<and> session_id (session_at b (with_session x u)) = sid"
    if "sessions (app_sessions u) sid = Some b" for sid b
    using node_secureD(4) [OF assms(1) that] by (simp add: with_session_at)
  ultimately show ?thesis
    using assms(1) by (auto simp: node_secure_def node_moves_def with_session_at)
qed

lemma insert_secures:
  assumes "has_session a s"
  shows "secures node_moves (secure who members) s (update (\<lambda>w. w\<lparr>app_sessions := manager_insert a (app_sessions w)\<rparr>))"
proof (rule node_rely.secures_update)
  fix u assume u: "node_moves s u" "secure who members u"
  let ?u = "u\<lparr>app_sessions := manager_insert a (app_sessions u)\<rparr>"
  have same: "has_session b ?u = has_session b u" "session_at b ?u = session_at b u" for b
    by (simp_all add: has_session_def session_at_def manager_insert_def)
  have "has_session a u" using u(1) assms by (simp add: node_moves_def)
  then show "secure who members ?u \<and> node_moves u ?u"
    using u(2) by (auto simp: node_secure_def node_moves_def same) (auto simp: manager_insert_def session_at_def split: if_splits)
qed

lemma admitted_secures:
  assumes "has_session a s" "base_ok (app_config s)" "ttl_ok (route_ttl (app_config s))" "inbound_ok members inbound"
    and "\<And>k r. legit who members k r \<Longrightarrow> tab_char \<notin> set k \<Longrightarrow> storable r" "bases_ok members"
  shows "secures node_moves (secure who members) s
    (call (on_session a (session_send R frame)) (\<lambda>sent. if \<not> sent then Return (Err st) else
       call (update (\<lambda>w. w\<lparr>app_sessions := manager_insert a (app_sessions w)\<rparr>)) (\<lambda>_.
       spawn (run_session R G tkeys skeys a ps inbound) (Return (Ok a)))))"
proof -
  have run: "secures node_moves (secure who members) u (run_session R G tkeys skeys a ps inbound)" if "node_moves s u" for u
    using that assms by (intro run_session_secures) (auto simp: node_moves_def)
  show ?thesis
    by (auto intro!: secures_intros insert_secures node_rely.secures_spawn run assms(1)) (blast intro: moves_session assms(1) node_rely.rely_trans)+
qed

lemma rpc_secures:
  assumes "base_ok (app_config s)" "ttl_ok (route_ttl (app_config s))" "inbound_ok members inbound" "id_draws draws"
    and storable: "\<And>k r. legit who members k r \<Longrightarrow> tab_char \<notin> set k \<Longrightarrow> storable r" "bases_ok members"
    and who: "\<And>token p. greeting first = Some token \<Longrightarrow> app_auth s token = Ok p \<Longrightarrow> who (new_session_id draws) = p"
  shows "secures node_moves (secure who members) s (session_rpc R G tkeys skeys draws ps first inbound)"
proof (cases "greeting first")
  case None
  then show ?thesis
    by (auto simp: session_rpc_def greeting_def split: option.splits result.splits client_payload.splits if_splits)
next
  case (Some token)
  then obtain hello where first: "first = Some (Ok (Some (CHello hello)))" "hello_protocol_version hello = PROTOCOL_VERSION"
    "token = hello_token hello" by (auto simp: greeting_Some)
  have fresh: "session_secure who (app_auth u) (session_new R (new_session_id draws) node p window)"
    if "app_auth u = app_auth s" "app_auth s token = Ok p" for u node p window
    using that who [OF Some that(2)] assms(4) by (auto simp: session_secure_def session_new_def streams_exist_def)
  have go: "secures node_moves (secure who members) (with_session x u)
      (call (on_session (length (session_heap (app_sessions u))) (session_send R frame)) (\<lambda>sent. if \<not> sent then Return (Err st) else
       call (update (\<lambda>w. w\<lparr>app_sessions := manager_insert (length (session_heap (app_sessions u))) (app_sessions w)\<rparr>)) (\<lambda>_.
       spawn (run_session R G tkeys skeys (length (session_heap (app_sessions u))) ps inbound)
         (Return (Ok (length (session_heap (app_sessions u))))))))" if "node_moves s u" for u x frame st
    using that assms(1-3,6) storable by (intro admitted_secures) (auto simp: with_session_at node_moves_def)
  show ?thesis
    unfolding session_rpc_def first(1)
  proof (simp add: first(2), rule node_rely.secures_read_then, goal_cases)
    case (1 u)
    then have auth: "app_auth u = app_auth s" by (simp add: node_moves_def)
    show ?case
    proof (cases "app_auth u token")
      case (Ok p)
      show ?thesis
        unfolding first(3) [symmetric] Ok
      proof (simp add: Let_def with_session_def [symmetric], rule node_rely.secures_atomically_then, goal_cases)
        case (1 v)
        then have v: "node_moves s v" "app_auth v = app_auth s" using \<open>node_moves s u\<close> node_rely.rely_trans [of s u v] by (auto simp: node_moves_def)
        from with_session_secure [OF 1(2) fresh [OF v(2)]] Ok auth go [OF v(1)] show ?case by (simp cong: if_cong)
      qed
    qed (simp add: first(3))
  qed
qed

section \<open>Visitors\<close>

lemma forward_local_secures:
  assumes "has_session a s"
  shows "secures node_moves (secure who members) s (forward_local R lib a record req addr)"
proof -
  have head: "secures node_moves (secure who members) u (await_head R a st deadline)" for u st deadline
    unfolding await_head_def by (rule node_rely.secures_await) (auto split: option.splits if_splits)
  have finish: "secures node_moves (secure who members) u (finish_forward R lib a sid st answer)" if "has_session a u" for u sid st answer
    unfolding finish_forward_def using that
    by (auto split: option.split intro!: secures_intros) (blast intro: moves_session)+
  show ?thesis
    unfolding forward_local_def
    by (auto simp: Let_def split: result.split open_error.split
        intro!: secures_intros node_rely.secures_spawn head finish assms) (blast intro: moves_session assms)+
qed

lemma peer_forward_secures: "secures node_moves (secure who members) s (peer_forward lib P record req)"
  unfolding peer_forward_def
  by (auto split: result.split intro!: node_rely.secures_call node_rely.secures_await)

lemma handle_secures: "secures node_moves (secure who members) s (handle R G lib js keys tkeys P role req addr)"
proof -
  have owned: "secures node_moves (secure who members) u
      (call (read (\<lambda>w. manager_get (rr_session r) (app_sessions w))) (\<lambda>session. case session of
         Some a \<Rightarrow> forward_local R lib a r req addr
       | None \<Rightarrow> call (registry_release G key (rr_session r)) (\<lambda>_. Return (tunnel_not_found key))))" for u r key
    by (rule node_rely.secures_read_then)
      (auto simp: manager_get_def split: option.split dest: node_secureD(4) intro!: secures_intros forward_local_secures)
  show ?thesis
    unfolding handle_def
    by (auto split: option.split result.split intro!: secures_intros owned peer_forward_secures)
qed

lemma drop_response_secures:
  "(\<And>a sid st. res_body response = StreamBody a sid st \<Longrightarrow> has_session a s) \<Longrightarrow>
   secures node_moves (secure who members) s (drop_response R response)"
  unfolding drop_response_def
  by (auto split: response_body.split intro!: secures_intros) (blast intro: moves_session)+

lemma wait_secures: "secures node_moves (secure who members) s (update (\<lambda>w. w\<lparr>clock := clock w + n\<rparr>))"
proof (rule node_rely.secures_update)
  fix u assume u: "secure who members u"
  have "legit who members k r" if "live leases (app_registry u) (clock u + n) k = Some (r, e)" for k r e
    using live_earlier [OF that, of "clock u"] node_secureD(5) [OF u] by simp
  with u show "secure who members (u\<lparr>clock := clock u + n\<rparr>) \<and> node_moves u (u\<lparr>clock := clock u + n\<rparr>)"
    by (simp add: node_secure_def node_moves_def)
qed

end

end
