(* ===== verification/Progress.thy ===== *)
theory Progress
  imports Async
begin

text \<open>
  States that a pool can reach. \<open>leads s t s' t'\<close> says that a pool in which \<open>t\<close> waits to run can be scheduled, from \<open>s\<close>,
  to the state \<open>s'\<close> with \<open>t'\<close> waiting, whatever else is in the pool: \<open>t'\<close> is what is left of \<open>t\<close>, or a task that \<open>t\<close> has spawned.
  A task that returns when run on its own leads to what follows it.
\<close>

definition leads :: "'s \<Rightarrow> ('s, 'a) task \<Rightarrow> 's \<Rightarrow> ('s, 'a) task \<Rightarrow> bool" where
  "leads s t s' t' \<longleftrightarrow> (\<forall>us vs. \<exists>us' vs'. pool_step\<^sup>*\<^sup>* (s, us @ t # vs) (s', us' @ t' # vs'))"

lemma leads_refl [simp]: "leads s t s t"
  by (auto simp: leads_def)

lemma leads_trans [trans]: "leads s t s1 t1 \<Longrightarrow> leads s1 t1 s2 t2 \<Longrightarrow> leads s t s2 t2"
  unfolding leads_def by (meson rtranclp_trans)

lemma leads_Step: "f s = Some (s', t) \<Longrightarrow> leads s (Step f) s' t"
  unfolding leads_def using pool_step.go [of "length us" for us] by (metis (no_types, lifting) length_append length_Cons
      less_add_same_cancel1 list_update_length nth_append_length r_into_rtranclp zero_less_Suc)

lemma leads_Spawn: "leads s (Spawn c t) s t" "leads s (Spawn c t) s c"
proof -
  have fork: "pool_step (s, us @ Spawn c t # vs) (s, us @ t # vs @ [c])" for us vs
    using pool_step.fork [of "length us" "us @ Spawn c t # vs" c t s] by simp
  then show "leads s (Spawn c t) s t" unfolding leads_def by blast
  from fork show "leads s (Spawn c t) s c"
    unfolding leads_def by (metis append.assoc append_Cons r_into_rtranclp)
qed

lemma leads_call:
  assumes "run m s = Finished s' x"
  shows "leads s (call m k) s' (k x)"
  using assms
proof (induction m arbitrary: s rule: task_induct)
  case (Step f)
  then obtain s1 t where t: "f s = Some (s1, t)" "run t s1 = Finished s' x" by (auto split: option.splits)
  have "leads s (call (Step f) k) s1 (call t k)" using t(1) by (auto intro: leads_Step)
  also have "leads s1 (call t k) s' (k x)" using Step.IH t by blast
  finally show ?case .
next
  case (Spawn c t)
  have "leads s (call (Spawn c t) k) s (call t k)" by (simp add: leads_Spawn)
  also have "leads s (call t k) s' (k x)" using Spawn by simp
  finally show ?case .
qed simp_all

lemma leads_atomically: "leads s (call (atomically f) k) (fst (f s)) (k (snd (f s)))"
  by (rule leads_call) (simp split: prod.split)

lemma leads_read: "leads s (call (read f) k) s (k (f s))"
  by (rule leads_call) simp

lemma leads_alone: "leads s t s' t' \<Longrightarrow> \<exists>ts. pool_step\<^sup>*\<^sup>* (s, [t]) (s', ts)"
  unfolding leads_def by (metis append_Nil)

lemma call_assoc: "call (call m k) k' = call m (\<lambda>x. call (k x) k')"
proof (induction m rule: task_induct)
  case (Step f)
  have "map_option (map_prod id (\<lambda>t. call t k')) (map_option (map_prod id (\<lambda>t. call t k)) (f s)) =
      map_option (map_prod id (\<lambda>t. call t (\<lambda>x. call (k x) k'))) (f s)" for s
    using Step by (cases "f s") auto
  then show ?case by simp
qed simp_all

text \<open>A run of tasks on a part of the state is one of the tasks on the whole.\<close>

lemma pool_zoom_step:
  assumes "pool_step (get w, ts) (s', ts')" "get (put s' w) = s'" "put (get w) w = w"
  shows "pool_step (w, map (zoom get put) ts) (put s' w, map (zoom get put) ts')"
  using assms(1)
proof (cases rule: pool_step.cases)
  case (go i f t)
  then show ?thesis using pool_step.go [of i "map (zoom get put) ts"] by (auto simp: map_update)
next
  case (fork i c t)
  then show ?thesis
    using pool_step.fork [of i "map (zoom get put) ts" "zoom get put c" "zoom get put t" w] assms(3) by (auto simp: map_update)
qed

lemma pool_zoom:
  assumes "pool_step\<^sup>*\<^sup>* (get w, ts) (s', ts')" "ok w"
    and "\<And>s w. ok w \<Longrightarrow> ok (put s w) \<and> get (put s w) = s" "\<And>w. ok w \<Longrightarrow> put (get w) w = w"
  shows "\<exists>w'. pool_step\<^sup>*\<^sup>* (w, map (zoom get put) ts) (w', map (zoom get put) ts') \<and> get w' = s' \<and> ok w'"
  using assms(1)
proof (induction "(s', ts')" arbitrary: s' ts' rule: rtranclp_induct)
  case base
  then show ?case using assms(2) by blast
next
  case (step y)
  obtain s1 ts1 where y: "y = (s1, ts1)" by force
  then obtain w1 where w1: "pool_step\<^sup>*\<^sup>* (w, map (zoom get put) ts) (w1, map (zoom get put) ts1)" "get w1 = s1" "ok w1"
    using step.hyps(3) by blast
  have "pool_step (w1, map (zoom get put) ts1) (put s' w1, map (zoom get put) ts')"
    using step.hyps(2) w1(2,3) assms(3,4) y by (intro pool_zoom_step) auto
  with w1(1) have "pool_step\<^sup>*\<^sup>* (w, map (zoom get put) ts) (put s' w1, map (zoom get put) ts')" by (rule rtranclp.rtrancl_into_rtrancl)
  with w1(3) assms(3) show ?case by blast
qed

end
