(* ===== verification/Cluster.thy ===== *)
theory Cluster
  imports Node_Security Progress
begin

text \<open>
  Several nodes that share one routing table. The cluster's state is the nodes, the table and the time; a task of a
  node runs on that node with the shared table in place. What happens to a cluster is a list of events, each of which
  starts a task: an agent's RPC, a visitor's request on either listener, a poll or the drop of a response body, an agent
  taking frames from its queue, the way to the table changing, time passing. The pool interleaves them in every
  way, and whatever the agents send, the cluster stays secure.
\<close>

section \<open>The cluster\<close>

record ('m, 'qo, 'qb, 'o, 'r) cluster =
  nodes :: "('m, 'qo, 'qb, 'o, 'r) server list"
  shared_table :: 'r
  now :: nat

definition node_view :: "nat \<Rightarrow> ('m, 'qo, 'qb, 'o, 'r) cluster \<Rightarrow> ('m, 'qo, 'qb, 'o, 'r) server" where
  "node_view i c = (nodes c ! i)\<lparr>app_registry := shared_table c, clock := now c\<rparr>"

definition put_node ::
    "nat \<Rightarrow> ('m, 'qo, 'qb, 'o, 'r) server \<Rightarrow> ('m, 'qo, 'qb, 'o, 'r) cluster \<Rightarrow> ('m, 'qo, 'qb, 'o, 'r) cluster" where
  "put_node i w c = c\<lparr>nodes := (nodes c)[i := w], shared_table := app_registry w, now := clock w\<rparr>"

definition on_node ::
    "nat \<Rightarrow> (('m, 'qo, 'qb, 'o, 'r) server, 'x) task \<Rightarrow> (('m, 'qo, 'qb, 'o, 'r) cluster, 'x) task" where
  "on_node i = zoom (node_view i) (put_node i)"

definition cluster_moves :: "('m, 'qo, 'qb, 'o, 'r) cluster \<Rightarrow> ('m, 'qo, 'qb, 'o, 'r) cluster \<Rightarrow> bool" where
  "cluster_moves c c' \<longleftrightarrow> length (nodes c') = length (nodes c) \<and>
     (\<forall>i < length (nodes c). node_moves (node_view i c) (node_view i c'))"

definition cluster_secure ::
    "(string \<Rightarrow> principal) \<Rightarrow> member set \<Rightarrow> ('r \<Rightarrow> string \<Rightarrow> lease option) \<Rightarrow> ('r \<Rightarrow> bool) \<Rightarrow>
     ('m, 'qo, 'qb, 'o, 'r) cluster \<Rightarrow> bool" where
  "cluster_secure who members leases good c \<longleftrightarrow>
     good (shared_table c) \<and> (\<forall>k r e. live leases (shared_table c) (now c) k = Some (r, e) \<longrightarrow> legit who members k r) \<and>
     (\<forall>i < length (nodes c). node_secure who members leases good (node_view i c))"

interpretation cluster_rely: rely cluster_moves
  by unfold_locales (auto simp: cluster_moves_def intro: node_rely.rely_trans)

lemma put_node_simps [simp]:
  "length (nodes (put_node i w c)) = length (nodes c)" "i < length (nodes c) \<Longrightarrow> node_view i (put_node i w c) = w"
  "j \<noteq> i \<Longrightarrow> node_view j (put_node i w c) = (node_view j c)\<lparr>app_registry := app_registry w, clock := clock w\<rparr>"
  by (simp_all add: put_node_def node_view_def)

lemma node_secure_elsewhere:
  assumes "node_secure who members leases good v" "node_secure who members leases good w" "clock v \<le> clock w"
  shows "node_secure who members leases good (v\<lparr>app_registry := app_registry w, clock := clock w\<rparr>) \<and>
    node_moves v (v\<lparr>app_registry := app_registry w, clock := clock w\<rparr>)"
  using assms by (simp add: node_secure_def node_moves_def has_session_def session_at_def)

lemma on_node_secures:
  assumes "secures node_moves (node_secure who members leases good) (node_view i s) t" "i < length (nodes s)"
  shows "secures cluster_moves (cluster_secure who members leases good) s (on_node i t)"
  unfolding on_node_def
proof (rule cluster_rely.secures_zoom [where ok = "\<lambda>c. i < length (nodes c)" and Q = node_moves and J = "node_secure who members leases good"])
  fix c w
  assume c: "i < length (nodes c)" "cluster_secure who members leases good c" "node_moves (node_view i c) w" "node_secure who members leases good w"
  have clock: "clock (node_view j c) \<le> clock w" for j using c(3) by (simp add: node_moves_def node_view_def)
  have "node_secure who members leases good (node_view j (put_node i w c)) \<and> node_moves (node_view j c) (node_view j (put_node i w c))"
    if "j < length (nodes c)" for j
    using that c clock node_secure_elsewhere [of who members leases good "node_view j c" w]
    by (cases "j = i") (auto simp: cluster_secure_def)
  then show "cluster_secure who members leases good (put_node i w c) \<and> cluster_moves c (put_node i w c) \<and> node_view i (put_node i w c) = w"
    using c(1) node_secureD(2,5) [OF c(4)] by (auto simp: cluster_secure_def cluster_moves_def) (auto simp: put_node_def)
qed (use assms in \<open>auto simp: cluster_moves_def cluster_secure_def intro: node_rely.rely_trans\<close>)

section \<open>What happens to a cluster\<close>

datatype ('qo, 'r) event =
    AgentConnects nat "nat list" "(u64 \<times> wall_clock) list" "(client_frame, status) result option" inbound
  | VisitorRequests nat role request string
  | BodyPolled nat nat nat
  | BodyDropped nat nat u64 nat
  | AgentTakes nat nat "'qo \<Rightarrow> 'qo"
  | TableChanges "'r \<Rightarrow> 'r"
  | TimePasses nat

text \<open>What a client does with a body, and an agent with its queue, comes after the session exists.\<close>

definition at_session ::
    "nat \<Rightarrow> (('m, 'qo, 'qb, 'o) session, 'x) task \<Rightarrow> (('m, 'qo, 'qb, 'o, 'r) server, unit) task" where
  "at_session a m = call (await (\<lambda>w. if has_session a w then Some (w, ()) else None)) (\<lambda>_.
     call (on_session a m) (\<lambda>_. Return ()))"

fun event_task ::
    "('m, 'qo, 'qb, 'o) runtime \<Rightarrow> 'r registry_ops \<Rightarrow> http_lib \<Rightarrow> json_lib \<Rightarrow> ((string \<rightharpoonup> nat) \<Rightarrow> string list) \<Rightarrow>
     ((string \<rightharpoonup> tunnel) \<Rightarrow> string list) \<Rightarrow> ((u64 \<rightharpoonup> nat) \<Rightarrow> u64 list) \<Rightarrow> (nat \<Rightarrow> peer_client) \<Rightarrow> ('qo, 'r) event \<Rightarrow>
     (('m, 'qo, 'qb, 'o, 'r) cluster, unit) task" where
  "event_task R G lib js keys tkeys skeys P (AgentConnects i draws ps first inbound) =
     on_node i (call (session_rpc R G tkeys skeys draws ps first inbound) (\<lambda>_. Return ()))"
| "event_task R G lib js keys tkeys skeys P (VisitorRequests i role req addr) =
     on_node i (call (handle R G lib js keys tkeys (P i) role req addr) (\<lambda>_. Return ()))"
| "event_task R G lib js keys tkeys skeys P (BodyPolled i a st) = on_node i (at_session a (poll_body R lib st))"
| "event_task R G lib js keys tkeys skeys P (BodyDropped i a sid st) =
     on_node i (at_session a (call (drop_body_receiver R st) (\<lambda>_. guard_drop R sid)))"
| "event_task R G lib js keys tkeys skeys P (AgentTakes i a f) =
     on_node i (at_session a (update (\<lambda>s. s\<lparr>outbound := f (outbound s)\<rparr>)))"
| "event_task R G lib js keys tkeys skeys P (TableChanges f) = update (\<lambda>c. c\<lparr>shared_table := f (shared_table c)\<rparr>)"
| "event_task R G lib js keys tkeys skeys P (TimePasses n) = update (\<lambda>c. c\<lparr>now := now c + n\<rparr>)"

fun event_ok :: "(('r \<Rightarrow> 'r) \<Rightarrow> bool) \<Rightarrow> member set \<Rightarrow> nat \<Rightarrow> ('qo, 'r) event \<Rightarrow> bool" where
  "event_ok harmless members n (AgentConnects i draws ps first inbound) \<longleftrightarrow> i < n \<and> id_draws draws \<and> inbound_ok members inbound"
| "event_ok harmless members n (VisitorRequests i role req addr) \<longleftrightarrow> i < n"
| "event_ok harmless members n (BodyPolled i a st) \<longleftrightarrow> i < n"
| "event_ok harmless members n (BodyDropped i a sid st) \<longleftrightarrow> i < n"
| "event_ok harmless members n (AgentTakes i a f) \<longleftrightarrow> i < n"
| "event_ok harmless members n (TableChanges f) \<longleftrightarrow> harmless f"
| "event_ok harmless members n (TimePasses k) \<longleftrightarrow> True"

text \<open>The session ids that a list of events draws, each with the node and the greeting.\<close>

fun drawn :: "('qo, 'r) event list \<Rightarrow> (string \<times> nat \<times> (client_frame, status) result option) list" where
  "drawn [] = []"
| "drawn (AgentConnects i draws ps first inbound # evs) = (new_session_id draws, i, first) # drawn evs"
| "drawn (_ # evs) = drawn evs"

lemma drawn_mem: "AgentConnects i draws ps first inbound \<in> set evs \<Longrightarrow> (new_session_id draws, i, first) \<in> set (drawn evs)"
  by (induction evs rule: drawn.induct) auto

context honest_table
begin

lemma at_session_secures:
  assumes "steady m"
  shows "secures node_moves (secure who members) s (at_session a m)"
  unfolding at_session_def
  by (rule node_rely.secures_await_then) (auto split: if_splits intro!: node_rely.secures_call on_session_secures assms)

lemma event_secures:
  assumes ok: "event_ok harmless members (length (nodes s)) ev"
    and "\<And>i. i < length (nodes s) \<Longrightarrow> base_ok (app_config (nodes s ! i)) \<and> ttl_ok (route_ttl (app_config (nodes s ! i)))"
    and storable: "\<And>k r. legit who members k r \<Longrightarrow> tab_char \<notin> set k \<Longrightarrow> storable r" "bases_ok members"
    and harmless: "\<And>f x. harmless f \<Longrightarrow> wf x \<Longrightarrow> wf (f x) \<and> live leases (f x) = live leases x"
    and who: "\<And>i draws ps first inbound token p. ev = AgentConnects i draws ps first inbound \<Longrightarrow>
        greeting first = Some token \<Longrightarrow> app_auth (nodes s ! i) token = Ok p \<Longrightarrow> who (new_session_id draws) = p"
  shows "secures cluster_moves (cluster_secure who members leases wf) s (event_task R G lib js keys tkeys skeys P ev)"
proof (cases ev)
  case (AgentConnects i draws ps first inbound)
  have "secures node_moves (secure who members) (node_view i s) (session_rpc R G tkeys skeys draws ps first inbound)"
    using ok assms(2) [of i] storable assms(4) who [OF AgentConnects] unfolding AgentConnects
    by (intro rpc_secures) (auto simp: node_view_def)
  then show ?thesis using ok unfolding AgentConnects by (auto intro!: on_node_secures node_rely.secures_call)
next
  case (TableChanges f)
  have "cluster_secure who members leases wf (u\<lparr>shared_table := f (shared_table u)\<rparr>) \<and> cluster_moves u (u\<lparr>shared_table := f (shared_table u)\<rparr>)"
    if "cluster_secure who members leases wf u" for u
    using that harmless [of f] ok unfolding TableChanges
    by (auto simp: cluster_secure_def cluster_moves_def node_secure_def node_moves_def node_view_def has_session_def session_at_def)
  then show ?thesis unfolding TableChanges event_task.simps by (intro cluster_rely.secures_update) blast
next
  case (TimePasses n)
  have "cluster_secure who members leases wf (u\<lparr>now := now u + n\<rparr>) \<and> cluster_moves u (u\<lparr>now := now u + n\<rparr>)"
    if "cluster_secure who members leases wf u" for u
    using that live_earlier [of leases "shared_table u" "now u + n" _ _ _ "now u"]
    by (auto simp: cluster_secure_def cluster_moves_def node_secure_def node_moves_def node_view_def has_session_def session_at_def)
  then show ?thesis unfolding TimePasses event_task.simps by (intro cluster_rely.secures_update) blast
qed (use ok in \<open>auto intro!: on_node_secures at_session_secures node_rely.secures_call handle_secures steady_intros
    steady_update\<close>)

text \<open>A cluster that starts secure stays secure in every interleaving.\<close>

lemma cluster_stays_secure:
  assumes "pool_step\<^sup>*\<^sup>* (c, map (event_task R G lib js keys tkeys skeys P) evs) (c', ts)"
    and "cluster_secure who members leases wf c" "\<forall>ev \<in> set evs. event_ok harmless members (length (nodes c)) ev"
    and "\<And>i. i < length (nodes c) \<Longrightarrow> base_ok (app_config (nodes c ! i)) \<and> ttl_ok (route_ttl (app_config (nodes c ! i)))"
    and "\<And>k r. legit who members k r \<Longrightarrow> tab_char \<notin> set k \<Longrightarrow> storable r" "bases_ok members"
    and "\<And>f x. harmless f \<Longrightarrow> wf x \<Longrightarrow> wf (f x) \<and> live leases (f x) = live leases x"
    and who: "\<And>sid i first token p. (sid, i, first) \<in> set (drawn evs) \<Longrightarrow>
        greeting first = Some token \<Longrightarrow> app_auth (nodes c ! i) token = Ok p \<Longrightarrow> who sid = p"
  shows "cluster_secure who members leases wf c' \<and> cluster_moves c c'"
proof (rule cluster_rely.pool_secures [where I = "cluster_secure who members leases wf", OF assms(1,2)], intro ballI)
  fix t assume "t \<in> set (map (event_task R G lib js keys tkeys skeys P) evs)"
  then obtain ev where ev: "ev \<in> set evs" "t = event_task R G lib js keys tkeys skeys P ev" by auto
  show "secures cluster_moves (cluster_secure who members leases wf) c t"
    unfolding ev(2) using ev(1) assms(3) by (intro event_secures [where harmless = harmless] assms(4-7) who drawn_mem) auto
qed

end

section \<open>A cluster on Redis\<close>

text \<open>The members of a cluster, a cluster that nobody has connected to, and the condition on its configuration under which
  the records of its nodes are free of tabs: none in the ids, addresses and base domains of the nodes, nor in the ids of the
  accounts that they accept. The domains of the accounts are free; what has to be free of tabs is the domain an agent asks for.\<close>

definition cluster_members :: "('m, 'qo, 'qb, 'o, 'r) cluster \<Rightarrow> member set" where
  "cluster_members c = (\<lambda>w. (app_config w, app_node_id w, app_node_addr w, app_auth w)) ` set (nodes c)"

definition fresh_node :: "('m, 'qo, 'qb, 'o, 'r) server \<Rightarrow> bool" where
  "fresh_node w \<longleftrightarrow> app_sessions w = manager_new \<and> base_ok (app_config w) \<and> px_ok (route_ttl (app_config w))"

definition tabless :: "member \<Rightarrow> bool" where
  "tabless m \<longleftrightarrow> (case m of (cfg, node, addr, auth) \<Rightarrow>
     tab_char \<notin> set node \<and> tab_char \<notin> set addr \<and> (\<forall>b. normalize_host (base_domain cfg) = Ok b \<longrightarrow> tab_char \<notin> set b) \<and>
     (\<forall>token p. auth token = Ok p \<longrightarrow> tab_char \<notin> set (account_id p)))"

definition way_only :: "(link \<times> 'd \<Rightarrow> link \<times> 'd) \<Rightarrow> bool" where
  "way_only f \<longleftrightarrow> (\<exists>l. f = (\<lambda>s. (l, snd s)))"

lemma tabless_bases: "\<forall>m \<in> members. tabless m \<Longrightarrow> bases_ok members"
  by (fastforce simp: bases_ok_def tabless_def)

lemma legit_tab_free:
  assumes "legit who members k r" "tab_char \<notin> set k" "\<forall>m \<in> members. tabless m"
  shows "tab_free r"
proof -
  obtain cfg auth token where m: "(cfg, rr_node_id r, rr_node_addr r, auth) \<in> members" "auth token = Ok (who (rr_session r))"
    "rr_key r = k" "rr_account r = account_id (who (rr_session r))"
    "\<exists>d. id_draws d \<and> rr_session r = new_session_id d" "\<exists>d. id_draws d \<and> rr_tunnel r = new_tunnel_id d"
    using assms(1) by (auto simp: legit_def)
  from m(1) assms(3) have "tabless (cfg, rr_node_id r, rr_node_addr r, auth)" by blast
  then show ?thesis
    using m assms(2) tab_not_in_suffix
    by (auto simp: tabless_def tab_free_def new_session_id_def new_tunnel_id_def)
qed

text \<open>Distinct session ids give every session one principal.\<close>

definition principal_of ::
    "('m, 'qo, 'qb, 'o, 'r) cluster \<Rightarrow> ('qo, 'r) event list \<Rightarrow> string \<Rightarrow> principal" where
  "principal_of c evs sid = (case map_of (drawn evs) sid of
     Some (i, first) \<Rightarrow> (case greeting first of
         Some token \<Rightarrow> (case app_auth (nodes c ! i) token of Ok p \<Rightarrow> p | Err _ \<Rightarrow> anonymous_principal)
       | None \<Rightarrow> anonymous_principal)
   | None \<Rightarrow> anonymous_principal)"

lemma principal_of_drawn:
  assumes "distinct (map fst (drawn evs))" "(sid, i, first) \<in> set (drawn evs)" "greeting first = Some token"
    and "app_auth (nodes c ! i) token = Ok p"
  shows "principal_of c evs sid = p"
  using assms(2-4) map_of_is_SomeI [OF assms(1,2)] by (simp add: principal_of_def)

lemma fresh_cluster_secure:
  assumes "\<forall>w \<in> set (nodes c). fresh_node w" "good (shared_table c)"
    and "\<And>k. live leases (shared_table c) (now c) k = None"
  shows "cluster_secure who (cluster_members c) leases good c"
proof -
  have "node_secure who (cluster_members c) leases good (node_view i c)" if i: "i < length (nodes c)" for i
  proof -
    have "fresh_node (nodes c ! i)" using assms(1) i by simp
    then show ?thesis
      using assms(2,3) i
      by (auto simp: node_secure_def fresh_node_def node_view_def manager_new_def has_session_def cluster_members_def)
  qed
  with assms(2,3) show ?thesis by (simp add: cluster_secure_def)
qed

lemma way_only_harmless:
  "way_only f \<Longrightarrow> remote_wf entries prefix x \<Longrightarrow>
   remote_wf entries prefix (f x) \<and> live (shared_leases entries prefix) (f x) = live (shared_leases entries prefix) x"
  by (cases x) (auto simp: way_only_def remote_wf_def live_def shared_leases_def fun_eq_iff)

context redis_table
begin

lemma routes_authorised:
  assumes nodes: "\<forall>w \<in> set (nodes c). fresh_node w" "\<forall>m \<in> cluster_members c. tabless m"
    and table: "wf (snd (shared_table c))" "\<forall>k. live leases (snd (shared_table c)) (now c) k = None"
    and events: "\<forall>ev \<in> set evs. event_ok way_only (cluster_members c) (length (nodes c)) ev" "distinct (map fst (drawn evs))"
    and run: "pool_step\<^sup>*\<^sup>* (c, map (event_task R (redis_registry ops prefix) lib js keys tkeys skeys P) evs) (c', ts)"
    and found: "snd (redis_lookup ops prefix Up (now c') (snd (shared_table c')) k) = Ok (Some r)"
  shows "\<exists>w \<in> set (nodes c). \<exists>token p. app_auth w token = Ok p \<and> entitled (app_config w) p k \<and>
    rr_key r = k \<and> rr_account r = account_id p \<and> rr_node_id r = app_node_id w \<and> rr_node_addr r = app_node_addr w \<and>
    (\<forall>v \<in> set (nodes c'). \<forall>a. manager_get (rr_session r) (app_sessions v) = Some a \<longrightarrow>
       has_session a v \<and> session_principal (session_at a v) = p)"
proof -
  let ?leases = "shared_leases entries prefix" and ?wf = "remote_wf entries prefix" and ?who = "principal_of c evs"
  have ok: "base_ok (app_config (nodes c ! i)) \<and> px_ok (route_ttl (app_config (nodes c ! i)))" if "i < length (nodes c)" for i
    using nodes(1) that by (simp add: fresh_node_def)
  have secure: "cluster_secure ?who (cluster_members c) ?leases ?wf c"
    using table nodes(1) by (intro fresh_cluster_secure) (auto simp: remote_wf_def live_def shared_leases_def)
  have after: "cluster_secure ?who (cluster_members c) ?leases ?wf c'"
    by (rule remote.cluster_stays_secure [OF run secure events(1) ok _ tabless_bases [OF nodes(2)], THEN conjunct1])
      (use way_only_harmless legit_tab_free [OF _ _ nodes(2)] principal_of_drawn [OF events(2)] in blast)+
  have db: "wf (snd (shared_table c'))" using after by (simp add: cluster_secure_def remote_wf_def)
  from found obtain e where "live leases (snd (shared_table c')) (now c') k = Some (r, e)" by (auto simp: lookup_of [OF db])
  then have "live ?leases (shared_table c') (now c') k = Some (r, e)" by (simp add: live_def shared_leases_def)
  then have legit: "legit ?who (cluster_members c) k r" using after by (simp add: cluster_secure_def)
  have served: "has_session a v \<and> session_principal (session_at a v) = ?who (rr_session r)"
    if "v \<in> set (nodes c')" "manager_get (rr_session r) (app_sessions v) = Some a" for v a
  proof -
    obtain j where j: "j < length (nodes c')" "v = nodes c' ! j" using \<open>v \<in> set (nodes c')\<close> by (metis in_set_conv_nth)
    then have "node_secure ?who (cluster_members c) ?leases ?wf (node_view j c')" using after by (simp add: cluster_secure_def)
    from node_secureD(3,4) [OF this] that(2) j(2) show ?thesis
      by (force simp: manager_get_def node_view_def session_secure_def has_session_def session_at_def)
  qed
  from legit served show ?thesis by (auto simp: legit_def cluster_members_def)
qed

end

section \<open>A run\<close>

text \<open>An agent that is admitted gets to open its first tunnel: some schedule of its RPC leads to the registration.\<close>

lemma run_send_then:
  assumes "run (call m (\<lambda>sent. if \<not> sent then Return (Err st) else call (update f) (\<lambda>_. spawn c (Return (Ok b))))) s = Finished s' (Ok a)"
  shows "\<exists>s1. run m s = Finished s1 True \<and> s' = f s1 \<and> a = b"
  using assms by (cases "run m s") (auto simp: run_call split: if_splits)

lemma session_rpc_leads:
  assumes "run (session_rpc R G tkeys skeys draws ps first inbound) w = Finished w' (Ok a)"
  shows "leads w (call (session_rpc R G tkeys skeys draws ps first inbound) k) w'
    (call (call (run_session R G tkeys skeys a ps inbound) (\<lambda>_. Halt)) k)"
proof -
  have "admitted w first \<noteq> None"
    using assms run_session_rpc_refused [of w first R G tkeys skeys draws ps inbound] by auto
  then obtain p hello where first: "first = Some (Ok (Some (CHello hello)))" "hello_protocol_version hello = PROTOCOL_VERSION"
    "app_auth w (hello_token hello) = Ok p"
    by (auto simp: admitted_def greeting_Some split: option.splits result.splits)
  let ?b = "length (session_heap (app_sessions w))" and ?sid = "new_session_id draws"
  let ?w1 = "w\<lparr>app_sessions := (app_sessions w)\<lparr>session_heap := session_heap (app_sessions w) @
    [session_new R ?sid (app_node_id w) p (window_bytes (app_config w))]\<rparr>\<rparr>"
  let ?send = "on_session ?b (session_send R (welcome_frame w ?sid p)) :: (_, bool) task"
  let ?insert = "\<lambda>w2. w2\<lparr>app_sessions := manager_insert ?b (app_sessions w2)\<rparr>"
  have "run (session_rpc R G tkeys skeys draws ps first inbound) w = run (call ?send (\<lambda>sent. if \<not> sent
      then Return (Err \<lparr>status_code = Unavailable, status_message = ''agent hung up during handshake''\<rparr>)
      else call (update ?insert) (\<lambda>_. spawn (run_session R G tkeys skeys ?b ps inbound) (Return (Ok ?b))))) ?w1"
    using first by (simp add: session_rpc_def run_call Let_def)
  from run_send_then [OF trans [OF sym [OF this] assms]]
  obtain w2 where w2: "run ?send ?w1 = Finished w2 True" "w' = ?insert w2" "a = ?b" by blast
  have "leads w (call (session_rpc R G tkeys skeys draws ps first inbound) k) ?w1
      (call ?send (\<lambda>sent. call (if \<not> sent
        then Return (Err \<lparr>status_code = Unavailable, status_message = ''agent hung up during handshake''\<rparr>)
        else call (update ?insert) (\<lambda>_. spawn (run_session R G tkeys skeys ?b ps inbound) (Return (Ok ?b)))) k))"
    unfolding session_rpc_def first(1)
    by (simp add: first(2) call_assoc del: call.simps)
       (rule leads_trans [OF leads_read], simp add: first(3) call_assoc Let_def del: call.simps,
        rule leads_trans [OF leads_atomically], unfold fst_conv snd_conv, rule leads_refl)
  also have "leads ?w1 \<dots> w2 (call (update ?insert) (\<lambda>_. call (spawn (run_session R G tkeys skeys ?b ps inbound) (Return (Ok ?b))) k))"
    by (rule leads_trans [OF leads_call [OF w2(1)]]) (simp add: call_assoc)
  also have "leads w2 \<dots> w' (call (spawn (run_session R G tkeys skeys a ps inbound) (Return (Ok a))) k)"
    unfolding w2(2,3) by (rule leads_call) simp
  also have "leads w' \<dots> w' (call (call (run_session R G tkeys skeys a ps inbound) (\<lambda>_. Halt)) k)"
    by (simp add: spawn_def leads_Spawn)
  finally show ?thesis .
qed

lemma rpc_registers:
  assumes "run (session_rpc R G tkeys skeys draws ps first ((Ok (Some (COpenTunnel req)), ent) # inbound)) w = Finished w1 (Ok a)"
    and "run (register_tunnel G a ent req) w1 = Finished w2 st"
  shows "\<exists>ts. pool_step\<^sup>*\<^sup>* (w, [call (session_rpc R G tkeys skeys draws ps first ((Ok (Some (COpenTunnel req)), ent) # inbound)) k]) (w2, ts)"
proof -
  let ?inbound = "(Ok (Some (COpenTunnel req)), ent) # inbound"
  note session_rpc_leads [OF assms(1)]
  also have "\<exists>t. leads w1 (call (call (run_session R G tkeys skeys a ps ?inbound) (\<lambda>_. Halt)) k) w2 t"
    unfolding run_session_def spawn_def call.simps
    by (rule exI, rule leads_trans [OF leads_Spawn(1)],
        simp add: call_assoc handle_client_frame_def del: call.simps, rule leads_call [OF assms(2)])
  then obtain t where "leads w1 (call (call (run_session R G tkeys skeys a ps ?inbound) (\<lambda>_. Halt)) k) w2 t" ..
  finally show ?thesis by (rule leads_alone)
qed

lemma pool_on_node:
  assumes "pool_step\<^sup>*\<^sup>* (node_view i c, ts) (w, ts')" "i < length (nodes c)" "app_registry (nodes c ! i) = shared_table c"
    and "clock (nodes c ! i) = now c"
  shows "\<exists>c'. pool_step\<^sup>*\<^sup>* (c, map (on_node i) ts) (c', map (on_node i) ts') \<and> node_view i c' = w"
proof -
  let ?ok = "\<lambda>c. i < length (nodes c) \<and> app_registry (nodes c ! i) = shared_table c \<and> clock (nodes c ! i) = now c"
  have "put_node i (node_view i c) c = c" if "?ok c" for c
  proof -
    have "(nodes c ! i)\<lparr>app_registry := shared_table c, clock := now c\<rparr> = nodes c ! i" using that by (cases "nodes c ! i") simp
    then show ?thesis using that by (cases c) (simp add: put_node_def node_view_def)
  qed
  moreover have "?ok (put_node i v c) \<and> node_view i (put_node i v c) = v" if "?ok c" for v c
    using that by (simp add: put_node_def node_view_def)
  ultimately show ?thesis
    using pool_zoom [where get = "node_view i" and put = "put_node i" and ok = ?ok, OF assms(1)] assms(2-4)
    unfolding on_node_def by blast
qed

section \<open>A cluster for the witness\<close>

text \<open>A cluster of one node that accepts an account with a wildcard domain, and an agent of that account that opens a tunnel
  under it.\<close>

definition wildcard_principal :: principal where
  "wildcard_principal = (sample_principal 4)\<lparr>custom_domains := [''*.dev.example.com'']\<rparr>"

definition sample_cluster ::
    "(sem_view, outbound_item chan_view, chunk chan_view, http_response_head slot, link \<times> store) cluster" where
  "sample_cluster = \<lparr>nodes = [
     \<lparr>app_config = default_config\<lparr>base_domain := ''tunnel.com''\<rparr>, app_node_id = ''node_a'', app_node_addr = ''10.0.0.1:7100'',
      app_registry = (Up, Map.empty), app_auth = authenticate (static_token_auth_new [''tok_a'' \<mapsto> wildcard_principal]),
      app_sessions = manager_new, clock = 0, heartbeat_aborted = (\<lambda>_. False)\<rparr>],
     shared_table = (Up, Map.empty), now = 0\<rparr>"

definition sample_hello :: "(client_frame, status) result option" where
  "sample_hello = Some (Ok (Some (CHello \<lparr>hello_token = ''tok_a'', hello_agent_version = [], hello_protocol_version = 1,
     hello_metadata = Map.empty\<rparr>)))"

definition sample_tunnel_request :: open_tunnel where
  "sample_tunnel_request = \<lparr>ot_request_id = ''req_1'', ot_spec = Some (HttpSpec \<lparr>hs_subdomain = [], hs_custom_domain = ''api.dev.example.com'',
     hs_forward_to = [], hs_rewrite_host_header = False\<rparr>)\<rparr>"

definition sample_entropy :: entropy where
  "sample_entropy = \<lparr>subdomain_draws = replicate 12 0, tunnel_draws = replicate 16 0\<rparr>"

definition sample_event :: "(outbound_item chan_view, link \<times> store) event" where
  "sample_event = AgentConnects 0 (replicate 16 0) [] sample_hello [(Ok (Some (COpenTunnel sample_tunnel_request)), sample_entropy)]"

lemma sample_draws: "id_draws (replicate 16 0)" "entropy_ok sample_entropy"
  by (simp_all add: entropy_ok_def sample_entropy_def id_draws_def RANDOM_LEN_def ID_ALPHABET_def GENERATED_SUBDOMAIN_LEN_def
      SUBDOMAIN_ALPHABET_def list_all_iff)

lemma sample_opens:
  "resolve_target (app_config (node_view 0 sample_cluster)) wildcard_principal (subdomain_draws sample_entropy) (ot_spec sample_tunnel_request) =
     Ok (Host ''api.dev.example.com'', ''https://api.dev.example.com'')"
proof -
  have "normalize_host ''api.dev.example.com'' = Ok ''api.dev.example.com''" "may_use_custom_domain wildcard_principal ''api.dev.example.com''"
    by code_simp+
  then show ?thesis
    by (simp add: resolve_target_def sample_tunnel_request_def resolve_http_target_def public_url_def node_view_def sample_cluster_def
        default_config_def)
qed

lemma sample_registers:
  "\<exists>w ts. pool_step\<^sup>*\<^sup>* (node_view 0 sample_cluster, [call (session_rpc ref_runtime (redis_registry ref_store ''norupo:'') (\<lambda>_. []) (\<lambda>_. [])
      (replicate 16 0) [] sample_hello [(Ok (Some (COpenTunnel sample_tunnel_request)), sample_entropy)]) (\<lambda>_. Return ())]) (w, ts) \<and>
    shared_wf id ''norupo:'' (app_registry w) \<and>
    live (shared_leases id ''norupo:'') (app_registry w) (clock w) ''api.dev.example.com'' \<noteq> None"
proof -
  let ?w = "node_view 0 sample_cluster" and ?G = "redis_registry ref_store ''norupo:''"
  let ?inbound = "[(Ok (Some (COpenTunnel sample_tunnel_request)), sample_entropy)]"
  have w: "app_sessions ?w = manager_new" "app_registry ?w = (Up, Map.empty)" "clock ?w = 0" "px_ok (route_ttl (app_config ?w))"
    "0 < route_ttl (app_config ?w)" "tab_char \<notin> set (app_node_id ?w @ app_node_addr ?w)"
    by (simp_all add: node_view_def sample_cluster_def default_config_def route_ttl_def heartbeat_def px_ok_def)
  have "admitted ?w sample_hello = Some wildcard_principal"
    by (simp add: admitted_def greeting_def PROTOCOL_VERSION_def sample_hello_def node_view_def sample_cluster_def authenticate_def
        static_token_auth_new_def)
  from ref_rt.run_session_rpc_admitted [OF this, of ?G "\<lambda>_. []" "\<lambda>_. []" "replicate 16 0" "[]" ?inbound]
  obtain w1 where w1: "run (session_rpc ref_runtime ?G (\<lambda>_. []) (\<lambda>_. []) (replicate 16 0) [] sample_hello ?inbound) ?w = Finished w1 (Ok 0)"
    "session_principal (session_at 0 w1) = wildcard_principal" "app_registry w1 = (Up, Map.empty)" "app_config w1 = app_config ?w"
    "clock w1 = 0" "app_node_id w1 = app_node_id ?w" "app_node_addr w1 = app_node_addr ?w" "has_session 0 w1"
    "session_id (session_at 0 w1) = new_session_id (replicate 16 0)" "tunnels (session_at 0 w1) = Map.empty"
    unfolding w by (auto simp: manager_new_def)
  let ?r = "new_route w1 0 (Host ''api.dev.example.com'') (new_tunnel_id (tunnel_draws sample_entropy))"
  have "tab_free ?r"
    using w(6) sample_draws(1) by (simp add: tab_free_def new_route_def w1 new_session_id_def new_tunnel_id_def wildcard_principal_def sample_principal_def
        tab_not_in_suffix sample_entropy_def)
  moreover have "under_limit (session_principal (session_at 0 w1)) (session_tunnel_count (session_at 0 w1))"
    by (simp add: under_limit_def w1 session_tunnel_count_def wildcard_principal_def sample_principal_def default_limits_def)
  moreover have "shared_wf id ''norupo:'' (app_registry w1)" "claimable (live (shared_leases id ''norupo:'') (app_registry w1) (clock w1) k) sid" for k sid
    by (simp_all add: w1(3) shared_wf_def redis_wf_def claimable_def live_def shared_leases_def redis_leases_def)
  ultimately obtain w2 st e where "run (register_tunnel ?G 0 sample_entropy sample_tunnel_request) w1 = Finished w2 st" "clock w2 = 0"
    "shared_wf id ''norupo:'' (app_registry w2)" "route_ttl (app_config ?w) \<le> e"
    "\<forall>u. live (shared_leases id ''norupo:'') (app_registry w2) u ''api.dev.example.com'' = valid_until (?r, e) u"
    using run_register_claimed [OF ref_table.shared.routing_table_axioms, of w1 0 "Host ''api.dev.example.com''" sample_entropy sample_tunnel_request]
      sample_opens w(4) w1(2,4,5,8) by auto
  with rpc_registers [OF w1(1)] w(5) show ?thesis by (fastforce simp: valid_until_def)
qed

lemma sample_cluster_ok:
  "\<forall>w \<in> set (nodes sample_cluster). fresh_node w" "\<forall>m \<in> cluster_members sample_cluster. tabless m"
  "redis_wf id ''norupo:'' (snd (shared_table sample_cluster))"
  "\<forall>k. live (redis_leases id ''norupo:'') (snd (shared_table sample_cluster)) (now sample_cluster) k = None"
  "\<forall>ev \<in> set [sample_event]. event_ok way_only (cluster_members sample_cluster) (length (nodes sample_cluster)) ev" "distinct (map fst (drawn [sample_event]))"
proof -
  have norm: "normalize_host ''api.dev.example.com'' = Ok ''api.dev.example.com''" by code_simp
  have "normalize_host ''tunnel.com'' = Ok ''tunnel.com''" "plain_host ''tunnel.com''" by code_simp+
  then show "\<forall>w \<in> set (nodes sample_cluster). fresh_node w" "\<forall>m \<in> cluster_members sample_cluster. tabless m"
    by (auto simp: sample_cluster_def fresh_node_def base_ok_def px_ok_def route_ttl_def heartbeat_def default_config_def cluster_members_def
        tabless_def authenticate_def static_token_auth_new_def wildcard_principal_def sample_principal_def may_use_custom_domain_def split: option.splits if_splits)
  show "\<forall>ev \<in> set [sample_event]. event_ok way_only (cluster_members sample_cluster) (length (nodes sample_cluster)) ev" "distinct (map fst (drawn [sample_event]))"
    by (simp_all add: sample_event_def sample_draws sample_cluster_def inbound_ok_def frame_ok_def ask_ok_def sample_tunnel_request_def norm)
qed (simp_all add: sample_cluster_def redis_wf_def live_def redis_leases_def)

lemma sample_reached:
  "\<exists>c' ts r. pool_step\<^sup>*\<^sup>* (sample_cluster, map (event_task ref_runtime (redis_registry ref_store ''norupo:'') ref_http js (\<lambda>_. []) (\<lambda>_. [])
      (\<lambda>_. []) P) [sample_event]) (c', ts) \<and>
    snd (redis_lookup ref_store ''norupo:'' Up (now c') (snd (shared_table c')) ''api.dev.example.com'') = Ok (Some r)"
proof -
  obtain w ts where w: "pool_step\<^sup>*\<^sup>* (node_view 0 sample_cluster, [call (session_rpc ref_runtime (redis_registry ref_store ''norupo:'')
      (\<lambda>_. []) (\<lambda>_. []) (replicate 16 0) [] sample_hello [(Ok (Some (COpenTunnel sample_tunnel_request)), sample_entropy)]) (\<lambda>_. Return ())]) (w, ts)"
    "shared_wf id ''norupo:'' (app_registry w)"
    "live (shared_leases id ''norupo:'') (app_registry w) (clock w) ''api.dev.example.com'' \<noteq> None"
    using sample_registers by blast
  obtain c' where c': "pool_step\<^sup>*\<^sup>* (sample_cluster, map (on_node 0) [call (session_rpc ref_runtime (redis_registry ref_store ''norupo:'')
      (\<lambda>_. []) (\<lambda>_. []) (replicate 16 0) [] sample_hello [(Ok (Some (COpenTunnel sample_tunnel_request)), sample_entropy)]) (\<lambda>_. Return ())]) (c', map (on_node 0) ts)"
    "node_view 0 c' = w"
    using pool_on_node [OF w(1)] by (auto simp: sample_cluster_def)
  have "snd (redis_lookup ref_store ''norupo:'' Up (now c') (snd (shared_table c')) ''api.dev.example.com'') \<in> Ok ` range Some"
    using w(2,3) ref_table.lookup_of [of "snd (shared_table c')" "now c'" "''api.dev.example.com''"] unfolding c'(2) [symmetric]
    by (auto simp: node_view_def shared_wf_def live_def shared_leases_def)
  then show ?thesis using c'(1) by (auto simp: sample_event_def)
qed

section \<open>Properties\<close>

text \<open>C1. Nobody serves a host that his account is not entitled to, whatever agents send and however the tasks of the
  cluster interleave. A cluster of any number of nodes starts on an empty table in Redis. Agents connect anywhere and send frames,
  with or without credentials; visitors send any requests to either listener; response bodies are polled and dropped,
  requests to Redis and their replies get lost, time passes. In every state that any interleaving of all these tasks reaches, a route that a lookup
  finds names a node of the cluster and an account whose token that node accepted, and the account is entitled to the
  host there: it is one of its custom domains, a child of the base domain with a label that is not reserved or was
  granted, or a TCP port. Every session, on any node, that is found under the route's session id belongs to that
  principal, so no request for the host reaches anybody else. Accounts may have any custom domains, wildcards among them.
  The conditions are that session ids are distinct, that the nodes' ids, addresses and base domains and the account ids hold
  no tab (\<open>tabless\<close>), and that no agent asks for a custom domain that holds a tab and that some account of the cluster may use
  (\<open>ask_ok\<close> in \<open>event_ok\<close>). The last one is needed: C40 shows what an agent with a wildcard domain can store otherwise.\<close>

theorem cluster_routes_authorised:
  fixes c :: "('m, 'qo, 'qb, 'o, link \<times> 'd) cluster"
  assumes server: "redis_server ops entries"
    and nodes: "\<forall>w \<in> set (nodes c). fresh_node w" "\<forall>m \<in> cluster_members c. tabless m"
    and table: "redis_wf entries prefix (snd (shared_table c))"
      "\<forall>k. live (redis_leases entries prefix) (snd (shared_table c)) (now c) k = None"
    and events: "\<forall>ev \<in> set evs. event_ok way_only (cluster_members c) (length (nodes c)) ev" "distinct (map fst (drawn evs))"
    and run: "pool_step\<^sup>*\<^sup>* (c, map (event_task R (redis_registry ops prefix) lib js keys tkeys skeys P) evs) (c', ts)"
    and found: "snd (redis_lookup ops prefix Up (now c') (snd (shared_table c')) k) = Ok (Some r)"
  shows "\<exists>w \<in> set (nodes c). \<exists>token p. app_auth w token = Ok p \<and> entitled (app_config w) p k \<and>
    rr_key r = k \<and> rr_account r = account_id p \<and> rr_node_id r = app_node_id w \<and> rr_node_addr r = app_node_addr w \<and>
    (\<forall>v \<in> set (nodes c'). \<forall>a. manager_get (rr_session r) (app_sessions v) = Some a \<longrightarrow>
       has_session a v \<and> session_principal (session_at a v) = p)"
  by (rule redis_table.routes_authorised [OF _ nodes table events run found]) (simp add: redis_table_def server)

theorem cluster_routes_authorised_witness:
  "\<forall>js P. \<exists>c' ts r. pool_step\<^sup>*\<^sup>* (sample_cluster, map (event_task ref_runtime (redis_registry ref_store ''norupo:'') ref_http js (\<lambda>_. []) (\<lambda>_. [])
      (\<lambda>_. []) P) [sample_event]) (c', ts) \<and>
    snd (redis_lookup ref_store ''norupo:'' Up (now c') (snd (shared_table c')) ''api.dev.example.com'') = Ok (Some r) \<and>
    rr_key r = ''api.dev.example.com'' \<and> (\<exists>w \<in> set (nodes sample_cluster). \<exists>token p. app_auth w token = Ok p \<and> rr_account r = account_id p)"
proof (intro allI)
  fix js :: json_lib and P :: "nat \<Rightarrow> peer_client"
  obtain c' ts r where run: "pool_step\<^sup>*\<^sup>* (sample_cluster, map (event_task ref_runtime (redis_registry ref_store ''norupo:'') ref_http js
      (\<lambda>_. []) (\<lambda>_. []) (\<lambda>_. []) P) [sample_event]) (c', ts)"
    "snd (redis_lookup ref_store ''norupo:'' Up (now c') (snd (shared_table c')) ''api.dev.example.com'') = Ok (Some r)"
    using sample_reached by blast
  from cluster_routes_authorised [OF ref.redis_server_axioms sample_cluster_ok run] run
  show "\<exists>c' ts r. pool_step\<^sup>*\<^sup>* (sample_cluster, map (event_task ref_runtime (redis_registry ref_store ''norupo:'') ref_http js (\<lambda>_. []) (\<lambda>_. [])
      (\<lambda>_. []) P) [sample_event]) (c', ts) \<and>
    snd (redis_lookup ref_store ''norupo:'' Up (now c') (snd (shared_table c')) ''api.dev.example.com'') = Ok (Some r) \<and>
    rr_key r = ''api.dev.example.com'' \<and> (\<exists>w \<in> set (nodes sample_cluster). \<exists>token p. app_auth w token = Ok p \<and> rr_account r = account_id p)"
    by blast
qed

end
