(* ===== verification/Handoff.thy ===== *)
theory Handoff
  imports Ingress_Properties
begin

text \<open>
  A request that arrives at the wrong node: the first node hands it to the one the routing table names, whose peer
  listener serves it from its own session table. The network between the two is a parameter: \<open>deliver\<close> is what the
  sibling's listener makes of a request that the client has sent, as \<open>hyper\<close> and the HTTP/1.1 standard define it.
\<close>

section \<open>The way between two nodes\<close>

text \<open>What a client and a server that speak HTTP/1.1 to each other keep of a request: its method, its path and query in
  origin form, its version, its body, all end-to-end headers and the values of \<open>Host\<close>, \<open>Connection\<close> and \<open>Upgrade\<close>. Headers that
  frame the body belong to the connection.\<close>

definition end_to_end :: "header_map \<Rightarrow> header_map" where
  "end_to_end headers = filter (\<lambda>(name, _). to_ascii_lowercase name \<notin> set HOP_BY_HOP) headers"

lemma header_get_contains: "header_get n hs = Some v \<Longrightarrow> contains_key n hs"
  by (induction hs) (auto simp: header_get_def get_all_def contains_key_def split: if_splits)

lemma contains_key_append [simp]: "contains_key n (xs @ ys) \<longleftrightarrow> contains_key n xs \<or> contains_key n ys"
  by (auto simp: contains_key_def)

locale http_hop =
  fixes deliver :: "request \<Rightarrow> request"
  assumes deliver_parts: "req_method (deliver u) = req_method u" "req_version (deliver u) = req_version u" "req_body (deliver u) = req_body u"
    and deliver_origin: "uri_authority (req_uri (deliver u)) = None" "uri_path (req_uri (deliver u)) = uri_path (req_uri u)"
      "uri_path_and_query (req_uri (deliver u)) = uri_path_and_query (req_uri u)"
    and deliver_headers: "contains_key ''host'' (req_headers u) \<Longrightarrow> end_to_end (req_headers (deliver u)) = end_to_end (req_headers u)"
      "name \<in> {''connection'', ''upgrade''} \<Longrightarrow> get_all name (req_headers (deliver u)) = get_all name (req_headers u)"
begin

lemma deliver_host:
  assumes "contains_key ''host'' (req_headers u)"
  shows "get_all ''host'' (req_headers (deliver u)) = get_all ''host'' (req_headers u)"
proof -
  have "get_all ''host'' (end_to_end hs) = get_all ''host'' hs" for hs
    unfolding get_all_def end_to_end_def filter_filter by (rule arg_cong [of _ _ "map snd"], rule filter_cong) (auto simp: HOP_BY_HOP_def to_ascii_lowercase_def
      lower_char_def is_ascii_uppercase_def byte_def)
  then show ?thesis using deliver_headers(1) [OF assms] by metis
qed

text \<open>The agent gets the same headers, but for the mark of the hop.\<close>

lemma sanitize_end_to_end:
  "sanitize_headers lib headers = map (\<lambda>(name, value). \<lparr>header_name = name, header_value = value\<rparr>)
     (filter (\<lambda>(name, _). to_ascii_lowercase name \<notin> set (connection_listed lib headers)) (end_to_end headers))"
  by (simp add: sanitize_headers_def end_to_end_def Let_def case_prod_unfold conj_commute)

lemma deliver_head:
  assumes "Option.bind (header_get ''host'' (req_headers req)) (header_value_to_str lib) = Some host" "uri_authority (req_uri req) \<in> {None, Some host}"
    and "\<not> contains_key HOP_HEADER (req_headers req)"
    and "uri_path_and_query target = Some (path_and_query req)"
  shows "request_host lib (deliver (upstream_request lib P target req)) = Some host" (is "request_host lib (deliver ?u) = _")
    and "request_head lib (deliver (upstream_request lib P target req)) = (request_head lib req)
      \<lparr>rq_headers := rq_headers (request_head lib req) @ (if HOP_HEADER \<in> set (connection_listed lib (req_headers req)) then []
         else [\<lparr>header_name = HOP_HEADER, header_value = hop_value lib P\<rparr>])\<rparr>"
proof -
  have hs: "req_headers ?u = req_headers req @ [(HOP_HEADER, hop_value lib P)]"
    using assms(3) by (force simp: upstream_request_def header_insert_def contains_key_def intro!: filter_True)
  have parts: "req_method ?u = req_method req" "req_version ?u = req_version req" "req_uri ?u = target"
    by (simp_all add: upstream_request_def)
  have other [simp]: "get_all n (req_headers ?u) = get_all n (req_headers req)" if "n \<noteq> HOP_HEADER" for n
    using that by (simp add: hs get_all_def)
  have host: "contains_key ''host'' (req_headers ?u)"
    using assms(1) by (auto simp: hs Option.bind_eq_Some_conv contains_key_append intro: header_get_contains)
  have names [simp]: "HOP_HEADER \<noteq> ''host''" "HOP_HEADER \<noteq> ''connection''" "HOP_HEADER \<noteq> ''upgrade''" by (simp_all add: HOP_HEADER_def)
  have get: "header_get n (req_headers (deliver ?u)) = header_get n (req_headers req)" if "n \<in> {''host'', ''upgrade''}" for n
    using that deliver_host [OF host] deliver_headers(2) [of n ?u] names names [symmetric] by (auto simp: header_get_def)
  show "request_host lib (deliver ?u) = Some host" using assms(1) by (simp add: request_host_def deliver_origin get)
  have direct: "request_host lib req = Some host" using assms(1,2) by (auto simp: request_host_def)
  have listed: "connection_listed lib (req_headers (deliver ?u)) = connection_listed lib (req_headers req)"
    using names [symmetric] deliver_headers(2) [of "''connection''" ?u] by (simp add: connection_listed_def)
  have hop: "to_ascii_lowercase HOP_HEADER = HOP_HEADER" "HOP_HEADER \<notin> set HOP_BY_HOP"
    by (simp_all add: HOP_HEADER_def HOP_BY_HOP_def to_ascii_lowercase_def lower_char_def is_ascii_uppercase_def byte_def)
  have "rq_headers (request_head lib (deliver ?u)) = rq_headers (request_head lib req) @
      (if HOP_HEADER \<in> set (connection_listed lib (req_headers req)) then [] else [\<lparr>header_name = HOP_HEADER, header_value = hop_value lib P\<rparr>])"
    unfolding request_head_def using deliver_headers(1) [OF host] hop
    by (simp add: sanitize_end_to_end listed hs) (simp add: end_to_end_def)
  with \<open>request_host lib (deliver ?u) = Some host\<close> direct assms(4) show "request_head lib (deliver ?u) = (request_head lib req)
      \<lparr>rq_headers := rq_headers (request_head lib req) @ (if HOP_HEADER \<in> set (connection_listed lib (req_headers req)) then []
         else [\<lparr>header_name = HOP_HEADER, header_value = hop_value lib P\<rparr>])\<rparr>"
    by (simp add: request_head_def path_and_query_def deliver_parts deliver_origin get parts)
qed

end

text \<open>A network that hands every request over as it was sent.\<close>

definition wire :: "request \<Rightarrow> request" where
  "wire u = u\<lparr>req_uri := (req_uri u)\<lparr>uri_authority := None\<rparr>\<rparr>"

interpretation wire: http_hop wire
  by unfold_locales (simp_all add: wire_def)

text \<open>A request over HTTP/2 carries its host as the authority of its URI. The hand-off replaces the URI and keeps the version, so that the
  host is gone from what the client is asked to send.\<close>

lemma handoff_forgets_authority:
  assumes "uri_authority (req_uri req) = Some host" "\<not> contains_key ''host'' (req_headers req)"
  shows "request_host lib req = Some host" "request_host lib (upstream_request lib P target req) = uri_authority target"
    "req_version (upstream_request lib P target req) = req_version req"
proof -
  have "\<not> contains_key ''host'' (header_insert HOP_HEADER v (req_headers req))" for v
    using assms(2) by (auto simp: contains_key_def header_insert_def HOP_HEADER_def)
  then have "header_get ''host'' (header_insert HOP_HEADER v (req_headers req)) = None" for v
    using header_get_contains by (metis not_Some_eq)
  then show "request_host lib (upstream_request lib P target req) = uri_authority target"
    by (auto simp: request_host_def upstream_request_def split: option.split)
qed (use assms in \<open>simp_all add: request_host_def upstream_request_def\<close>)

section \<open>Properties\<close>

text \<open>C11. A request that reaches the wrong node is handed to the one that owns the route, and keeps what the agent has to serve it. When
  the table names a sibling, the first node hands the request over, provided its \<open>Host\<close> header names the host, be its URI in origin or in absolute form;
  what the sibling's peer listener receives it looks up under the same host, and forwards over the session the route
  names. The head that the agent gets has the method, path, authority, version and upgrade of the client's request and its end-to-end headers,
  followed by the mark of the hop with the first node's name, and the body is the client's; the remote address is that
  of the first node. Whatever status, headers and body frames the peer client then receives go back to the client as they
  are, an error becomes a page with status 502, and until one of them comes the request waits. A request whose host stands only in the URI, as over HTTP/2, is not covered: the hand-off
  replaces the URI, and \<open>handoff_forgets_authority\<close> shows what is left.\<close>

theorem handed_request_reaches_owner:
  fixes w1 w2 :: "('m, 'qo, 'qb, 'o, 'r) server"
  assumes hop: "http_hop deliver"
    and table: "routing_table G leases good storable ttl_ok" "good (app_registry w1)" "good (app_registry w2)"
    and req: "\<not> starts_with (uri_path (req_uri req)) INTERNAL_PREFIX" "normalize_host host = Ok key" "\<not> contains_key HOP_HEADER (req_headers req)"
    and host: "Option.bind (header_get ''host'' (req_headers req)) (header_value_to_str lib) = Some host" "uri_authority (req_uri req) \<in> {None, Some host}"
    and route: "live leases (app_registry w1) (clock w1) key = Some (record, e1)"
      "live leases (app_registry w2) (clock w2) key = Some (record, e2)"
      "rr_node_id record \<noteq> app_node_id w1" "rr_node_id record = app_node_id w2" "sessions (app_sessions w2) (rr_session record) = Some a"
    and target: "pc_parse_uri P (peer_target record req) = Ok target" "uri_path target = uri_path (req_uri req)"
      "uri_path_and_query target = Some (path_and_query req)"
  shows "let upstream = upstream_request lib P target req; received = deliver upstream in
    (\<exists>r1. same_leases leases (clock w1) (app_registry w1) r1 \<and>
       (case pc_request P (clock w1) upstream of
          Some (Ok (status, headers, frames)) \<Rightarrow> run (handle R G lib js keys tkeys P Public req addr) w1 =
            Finished (w1\<lparr>app_registry := r1\<rparr>) \<lparr>res_status = status, res_headers = headers, res_body = RelayedBody frames\<rparr>
        | Some (Err e) \<Rightarrow> \<exists>page. res_status page = 502 \<and>
            run (handle R G lib js keys tkeys P Public req addr) w1 = Finished (w1\<lparr>app_registry := r1\<rparr>) page
        | None \<Rightarrow> \<exists>t. run (handle R G lib js keys tkeys P Public req addr) w1 = Blocked (w1\<lparr>app_registry := r1\<rparr>) t)) \<and>
    (\<exists>r2. same_leases leases (clock w2) (app_registry w2) r2 \<and>
       run (handle R G lib js keys tkeys Q Peer received addr1) w2 =
         run (forward_local R lib a record received addr1) (w2\<lparr>app_registry := r2\<rparr>)) \<and>
    request_head lib received = (request_head lib req)\<lparr>rq_headers := rq_headers (request_head lib req) @
      (if HOP_HEADER \<in> set (connection_listed lib (req_headers req)) then []
       else [\<lparr>header_name = HOP_HEADER, header_value = hop_value lib P\<rparr>])\<rparr> \<and>
    req_body received = req_body req"
proof -
  let ?u = "upstream_request lib P target req"
  have rg: "registry (rg_claim G) (rg_lookup G) (rg_renew G) (rg_release G) leases good storable ttl_ok"
    using table(1) by (simp add: routing_table_def)
  obtain r1 where r1: "rg_lookup G (clock w1) (app_registry w1) key = (r1, Ok (Some record))" "same_leases leases (clock w1) (app_registry w1) r1"
    using registry.lookup_live [OF rg table(2), of "clock w1" key] route(1) by (auto simp: same_leases_def)
  obtain r2 where r2: "rg_lookup G (clock w2) (app_registry w2) key = (r2, Ok (Some record))" "same_leases leases (clock w2) (app_registry w2) r2"
    using registry.lookup_live [OF rg table(3), of "clock w2" key] route(2) by (auto simp: same_leases_def)
  note head = http_hop.deliver_head [OF hop host req(3) target(3), of P]
  have direct: "request_host lib req = Some host" using host by (auto simp: request_host_def)
  have path: "\<not> starts_with (uri_path (req_uri (deliver ?u))) INTERNAL_PREFIX"
    using req(1) target(2) http_hop.deliver_origin(2) [OF hop, of ?u] by (simp add: upstream_request_def)
  have first: "run (handle R G lib js keys tkeys P Public req addr) w1 = run (peer_forward lib P record req) (w1\<lparr>app_registry := r1\<rparr>)"
    using run_handle_found [OF req(1) direct req(2) r1(1), of R js keys tkeys P Public addr] route(3) req(3) by simp
  moreover have "run (handle R G lib js keys tkeys Q Peer (deliver ?u) addr1) w2 =
      run (forward_local R lib a record (deliver ?u) addr1) (w2\<lparr>app_registry := r2\<rparr>)"
    using run_handle_found [OF path head(1) req(2) r2(1), of R js keys tkeys Q Peer addr1] route(4,5) by simp
  moreover have "req_body (deliver ?u) = req_body req"
    using http_hop.deliver_parts(3) [OF hop, of ?u] by (simp add: upstream_request_def)
  ultimately show ?thesis using r1(2) r2(2) head(2) target(1)
    by (auto simp: Let_def peer_forward_def run_call error_page_def split: option.split result.split)
qed

theorem handed_request_reaches_owner_witness:
  "\<exists>r1 r2. let table = [''api.tunnel.com'' \<mapsto> (example_record ''sess_1'', 45)];
       w1 = sample_node\<lparr>app_node_id := ''node_b'', app_registry := table\<rparr>; w2 = sample_node\<lparr>app_registry := table\<rparr>;
       target = \<lparr>uri_authority = Some ''10.0.0.1:7100'', uri_path = ''/'', uri_path_and_query = Some ''/''\<rparr>;
       P = \<lparr>pc_node_id = ''node_b'', pc_parse_uri = (\<lambda>_. Ok target), pc_request = (\<lambda>_ _. Some (Ok (204, [], [Ok (DataFrame ''hi'')])))\<rparr>;
       received = wire (upstream_request ref_http P target sample_request);
       js = \<lparr>json_display = (\<lambda>_. []), json_to_string = (\<lambda>_. Ok [])\<rparr>
     in run (handle ref_runtime memory_registry ref_http js (\<lambda>_. []) (\<lambda>_. []) P Public sample_request ''192.0.2.1:1'') w1 =
          Finished (w1\<lparr>app_registry := r1\<rparr>) \<lparr>res_status = 204, res_headers = [], res_body = RelayedBody [Ok (DataFrame ''hi'')]\<rparr> \<and>
        run (handle ref_runtime memory_registry ref_http js (\<lambda>_. []) (\<lambda>_. []) P Peer received ''10.0.0.2:7100'') w2 =
          run (forward_local ref_runtime ref_http 0 (example_record ''sess_1'') received ''10.0.0.2:7100'') (w2\<lparr>app_registry := r2\<rparr>) \<and>
        rq_headers (request_head ref_http received) =
          [\<lparr>header_name = ''host'', header_value = ''api.tunnel.com''\<rparr>, \<lparr>header_name = ''x-norupo-hop'', header_value = ''node_b''\<rparr>]"
proof -
  let ?table = "[''api.tunnel.com'' \<mapsto> (example_record ''sess_1'', 45)]"
  let ?w1 = "sample_node\<lparr>app_node_id := ''node_b'', app_registry := ?table\<rparr>" and ?w2 = "sample_node\<lparr>app_registry := ?table\<rparr>"
  let ?target = "\<lparr>uri_authority = Some ''10.0.0.1:7100'', uri_path = ''/'', uri_path_and_query = Some ''/''\<rparr>"
  let ?P = "\<lparr>pc_node_id = ''node_b'', pc_parse_uri = (\<lambda>_. Ok ?target), pc_request = (\<lambda>_ _. Some (Ok (204, [], [Ok (DataFrame ''hi'')])))\<rparr>"
  let ?js = "\<lparr>json_display = (\<lambda>_. []), json_to_string = (\<lambda>_. Ok [])\<rparr>"
  have norm: "normalize_host ''api.tunnel.com'' = Ok ''api.tunnel.com''" by code_simp
  have req: "\<not> starts_with (uri_path (req_uri sample_request)) INTERNAL_PREFIX" "\<not> contains_key HOP_HEADER (req_headers sample_request)"
    "Option.bind (header_get ''host'' (req_headers sample_request)) (header_value_to_str ref_http) = Some ''api.tunnel.com''"
    "uri_authority (req_uri sample_request) = None" by code_simp+
  then have host: "uri_authority (req_uri sample_request) \<in> {None, Some ''api.tunnel.com''}" by simp
  have route: "live id (app_registry ?w1) (clock ?w1) ''api.tunnel.com'' = Some (example_record ''sess_1'', 45)"
    "live id (app_registry ?w2) (clock ?w2) ''api.tunnel.com'' = Some (example_record ''sess_1'', 45)"
    "rr_node_id (example_record ''sess_1'') \<noteq> app_node_id ?w1" "rr_node_id (example_record ''sess_1'') = app_node_id ?w2"
    "sessions (app_sessions ?w2) (rr_session (example_record ''sess_1'')) = Some 0"
    by (simp_all add: live_def sample_node_def example_record_def)
  have target: "pc_parse_uri ?P (peer_target (example_record ''sess_1'') sample_request) = Ok ?target"
    "uri_path ?target = uri_path (req_uri sample_request)" "uri_path_and_query ?target = Some (path_and_query sample_request)"
    by (simp_all add: sample_request_def path_and_query_def)
  have heads: "rq_headers (request_head ref_http sample_request) = [\<lparr>header_name = ''host'', header_value = ''api.tunnel.com''\<rparr>]"
    "connection_listed ref_http (req_headers sample_request) = []" "hop_value ref_http ?P = ''node_b''" by code_simp+
  from handed_request_reaches_owner [OF wire.http_hop_axioms memory_table.routing_table_axioms TrueI TrueI req(1) norm req(2,3) host route target,
      of ref_runtime ?js "\<lambda>_. []" "\<lambda>_. []" "''192.0.2.1:1''" ?P "''10.0.0.2:7100''"] heads
  show ?thesis by (auto simp: Let_def HOP_HEADER_def)
qed

end
