(* ===== verification/Spec2Isabelle.thy ===== *)
theory Spec2Isabelle
  imports Link Agent_Orphans Agent_Streams Agent_Main Lease_Spec Server Ids Tokens Cluster Handoff
begin

text \<open>
  Norupo is a reverse tunnel: agents behind NAT connect to a cluster of edge nodes, register a host name,
  and the edge hands public HTTP requests for that host to the agent, which calls a local service and
  sends the answer back. One gRPC stream per agent carries everything, multiplexed by stream id, with
  credit-based flow control per stream. A routing table, in process or in Redis, says which node and
  session serve a host; it is a table of leases that the owning session's heartbeat renews.

  \<^bold>\<open>Layout.\<close> Each theory opens with what it holds. File names are below \<open>src/crates\<close>.

  \<^item> Language and libraries: \<open>Prelude\<close> (Rust integers, \<open>Result\<close>), \<open>Rust_Str\<close> (the string methods the code
    uses), \<open>Async\<close> (an \<open>async fn\<close> as a tree of atomic steps over a shared state, with \<open>run\<close> for one task on
    its own and \<open>pool_step\<close> for all interleavings of many), \<open>Tokio\<close> (semaphores, bounded queues and
    one-shot channels: records of operations with the laws their documentation promises as locales),
    \<open>Ledger\<close> (a small separation logic for tasks: what a task holds
    while an invariant that single steps break is being restored, for operations, for compositions and for every interleaving), \<open>Flow\<close> (credit
    accounting against an arbitrary environment), \<open>Rely\<close> (rely-guarantee reasoning: what a task has read stays true as far as the
    other tasks respect it), \<open>Progress\<close> (states that a pool of tasks can reach).
  \<^item> \<open>norupo-core\<close>: \<open>Errors\<close> (\<open>error.rs\<close>), \<open>Routing\<close> (\<open>routing.rs\<close>), \<open>Auth\<close> (\<open>auth.rs\<close>), \<open>Registry\<close> and \<open>Redis\<close>
    (\<open>registry.rs\<close>: records, the in-process table, the Lua scripts and their callers), \<open>Ids\<close> (\<open>ids.rs\<close>).
  \<^item> \<open>norupo-proto\<close> and \<open>src/proto\<close>: \<open>Proto\<close> (the messages as datatypes).
  \<^item> \<open>norupo-server\<close>: \<open>Session\<close> (\<open>session.rs\<close>: sessions, streams, the session table), \<open>Http\<close> (\<open>http.rs\<close>),
    \<open>Tokens\<close> (\<open>tokens.rs\<close>), \<open>Server_Config\<close> (\<open>config.rs\<close>), \<open>State\<close> (\<open>state.rs\<close>: the node), \<open>Control\<close> (\<open>control.rs\<close>: handshake,
    registration, dispatch, heartbeat, teardown), \<open>Peer\<close> (\<open>peer.rs\<close>: hand-off to a sibling), \<open>Ingress\<close>
    (\<open>ingress.rs\<close>: public requests), \<open>Server\<close> (\<open>lib.rs\<close> and \<open>main.rs\<close>: starting, serving and stopping, with the accept loop of
    \<open>ingress.rs\<close>).
  \<^item> \<open>norupo-client\<close>: \<open>Client_Config\<close> (\<open>config.rs\<close>), \<open>Agent\<close> (\<open>agent.rs\<close>), \<open>Agent_Main\<close> (\<open>main.rs\<close>).
  \<^item> Properties: \<open>Session_Flow\<close>, \<open>Session_Streams\<close>, \<open>Session_Delivery\<close>, \<open>Control_Properties\<close>,
    \<open>Ingress_Properties\<close>, \<open>Agent_Properties\<close>, \<open>Agent_Requests\<close>, \<open>Agent_Streams\<close>, \<open>Agent_Orphans\<close>, \<open>Lease_Spec\<close>, \<open>End_To_End\<close> (edge and agent), \<open>Handoff\<close> (two
    nodes); the smaller components have theirs at the end of their own theory.
  \<^item> One tunnel as a whole: \<open>Credit_Edge\<close>, \<open>Credit_Node\<close> and \<open>Credit_Agent\<close> (every operation of either side accounts for the
    bytes of a stream that may be sent, are in flight or are acknowledged), \<open>Link\<close> (a node and an agent with the connection between them).
  \<^item> The whole cluster: \<open>Honest\<close> (what any routing table promises even while its server cannot be reached), \<open>Session_Identity\<close> (no operation
    of a session changes whose session it is), \<open>Node_Security\<close> (the tasks of a node, step by step, keep every route legitimate),
    \<open>Cluster\<close> (nodes on one shared table, with the events that start tasks).

  \<^bold>\<open>State.\<close> Shared Rust objects behind \<open>Arc\<close> are entries of a heap: the node has a heap of sessions, a session
    a heap of streams, the agent a heap of session contexts and a context a heap of streams; maps go from
    identifiers to addresses, and a task that outlives an entry keeps its address, as an \<open>Arc\<close> clone does.
    Dropping a sender, a receiver or a guard is an explicit operation at the place where Rust drops it.
    Integers keep their width as words where the code computes with them; durations are milliseconds.

  \<^bold>\<open>Interfaces.\<close> \<open>registry\<close> and \<open>routing_table\<close> are the contract of a routing table (interpreted on the in-process
    table, on the Redis-backed one and on the table of a started node, which is either); \<open>honest_table\<close> is the weaker one that also holds while
    requests and replies get lost, and follows from the others; \<open>rely\<close> asks of a relation what rely-guarantee reasoning needs and is interpreted on the
    ways in which sessions, nodes and clusters may change; \<open>http_hop\<close> is what an HTTP/1.1 connection keeps of a request; \<open>redis_server\<close> is what the
    scripts need of Redis, \<open>auth_provider\<close> of a credential source, \<open>semaphore\<close>, \<open>channel\<close> and \<open>oneshot\<close> of Tokio,
    \<open>http_library\<close> of the header parsers; \<open>session_runtime\<close> and \<open>agent_services\<close> bundle what one side of the tunnel uses, \<open>tunnel_link\<close> both.
    Every library parameter has a reference instance that meets its laws, on which the witnesses compute.

  \<^bold>\<open>What is shown.\<close>

  \<^item> Ownership of routes: a claim is exclusive for as long as its owner renews in time, over any
    history and with requests and replies lost anywhere; a lost reply can be retried; both tables implement one
    abstract book of leases, answer by answer. Registration grants or rejects as specified, whatever the table answers, a heartbeat
    renews what is owned and drops what is lost, a teardown gives everything back.
  \<^item> Names: host normalisation, label validation, custom-domain matching, and that what an agent registers is what
    a browser's request looks up.
  \<^item> Authority across the cluster: in every interleaving of the tasks of any number of nodes on one Redis, whatever agents
    and visitors send and whatever gets lost, a route that is found belongs to an account that a node accepted and that is entitled to the
    host, and leads to that account's session, as long as no tab gets into a record: the configuration has none, and no agent asks
    for a custom domain with one that an account of the cluster may use.
  \<^item> Streams: the stream counter is exact in every interleaving, the agent's table is well-formed in every
    interleaving, late frames change nothing, requests are answered, and once the wait for the head has ended their streams are released.
  \<^item> Flow control: neither side ever sends more than the window and the grants allow, whatever the rest of the
    system does; a sender without credit waits and is woken when its stream is closed. Across edge, wire and agent, in every interleaving of
    everything that can happen there, credit, data in flight and acknowledgements of a stream never exceed its window.
  \<^item> The whole path: a request body and a response arrive unchanged through both sides, with the credit returned.
  \<^item> Requests: routing on every branch, confined to the session and the lease it is about; a hand-off to the owning node that keeps the
    client's head and body and relays the answer; at most one hop between nodes; response heads that an agent cannot split.
  \<^item> Life cycle: start-up that is complete or fails, a process that stops when interrupted, an agent that gives up or stops when it should.

  The text before each property says what it claims. A few properties record behaviour that differs from
  what the code's comments promise: a client that hangs up before the head leaves its stream behind, a stream
  limit that simultaneous requests outrun, a registration whose lost reply leaves a route without a tunnel, a custom domain with tabs that forges a table entry, an agent that reconnects too early and stays without a
  tunnel, an agent whose session ends and leaves the requests it was serving waiting for ever, an aborted upload that the local service takes for
  a complete one.

  \<^bold>\<open>Bounds.\<close> Loops over external input are recursions over the list of what arrives: frames, beats,
    accepted connections, reconnections. A list is a prefix of what happens, so nothing is assumed about
    its length; the end of a list of frames is the end of the connection, the end of the list of pings, of
    connections or of the draws of a \<open>select!\<close> halts the task. Loops over data (\<open>split_loop\<close>, \<open>send_payload\<close>) have termination proofs by the
    length of the data. \<open>let_time_pass n\<close> drives a waiting agent \<open>n\<close> times past half a minute, the longest
    delay it ever chooses. No other fuel is used.

  \<^bold>\<open>Not modelled.\<close> The bytes on the wire (\<open>prost\<close>, \<open>tonic\<close>, \<open>hyper\<close>), TLS, sockets, file access, JSON and flag
    parsing (\<open>clap\<close>) are parameters or outside; logging is omitted. Time is the clock of the node, which is read where
    the code reads it; the time stamps of pings and pongs are read from a wall clock that may show any instant; a cluster has one clock, which stands for that of Redis, as leases are measured by it alone. Session ids are taken to be distinct. An abort of the heartbeat
    takes effect at its next await, also when that one is ready, where Tokio waits for one that yields; requests whose host is only in the URI, as over HTTP/2, are routed but
    their hand-off is not followed to the sibling. The integration tests, packaging and build scripts
    have no counterpart.
\<close>

end
